(* ===== verification/Prelude.thy ===== *)
theory Prelude
  imports Main "HOL-Library.Word"
begin

text \<open>
  Shared vocabulary of the development: byte strings, result sums, the machines whose
  reachable states the component theories reason about, and the lemma collections
  \<open>chan_simps\<close>, \<open>step_defs\<close> and \<open>text_simps\<close> that the component proofs hand to the simplifier.

  \<^item> \<open>bytes\<close> is \<open>std::vector<uint8_t>\<close> and \<open>std::span<const uint8_t>\<close>; a \<open>std::string\<close> is a
    \<open>string\<close>, one \<open>char\<close> per byte.
  \<^item> \<open>reachable\<close>/\<open>run\<close> and the locale \<open>machine\<close>: labelled, executable step functions.
  \<^item> the locale \<open>id_table\<close>: the contract every counter-plus-\<open>unordered_map\<close> table of the
    runtime keeps (timers, fetches, connections, tasks).
\<close>

named_theorems chan_simps
named_theorems step_defs
named_theorems text_simps

type_synonym byte = "8 word"
type_synonym bytes = "byte list"

section \<open>Byte strings\<close>

definition byte_of_char :: "char \<Rightarrow> byte" where
  "byte_of_char c = of_nat (of_char c)"

definition char_of_byte :: "byte \<Rightarrow> char" where
  "char_of_byte b = char_of (unat b)"

definition bytes_of_string :: "string \<Rightarrow> bytes" where
  "bytes_of_string s = map byte_of_char s"

definition string_of_bytes :: "bytes \<Rightarrow> string" where
  "string_of_bytes b = map char_of_byte b"

lemma char_of_byte_of_char [simp]: "char_of_byte (byte_of_char c) = c"
  by (simp add: char_of_byte_def byte_of_char_def unat_of_nat take_bit_nat_eq_self)

lemma byte_of_char_of_byte [simp]: "byte_of_char (char_of_byte b) = b"
proof -
  have "unat b < 256" using unsigned_less [of b] by simp
  then show ?thesis
    by (simp add: char_of_byte_def byte_of_char_def)
qed

lemma string_of_bytes_of_string [simp]: "string_of_bytes (bytes_of_string s) = s"
  by (induction s) (simp_all add: string_of_bytes_def bytes_of_string_def)

lemma bytes_of_string_of_bytes [simp]: "bytes_of_string (string_of_bytes b) = b"
  by (induction b) (simp_all add: string_of_bytes_def bytes_of_string_def)

lemma length_bytes_of_string [simp]: "length (bytes_of_string s) = length s"
  by (simp add: bytes_of_string_def)

lemma bytes_of_string_append [simp]:
  "bytes_of_string (s @ t) = bytes_of_string s @ bytes_of_string t"
  by (simp add: bytes_of_string_def)

subsection \<open>Lower case, searching and cutting\<close>

text \<open>\<open>::tolower\<close> in the C locale, one byte at a time.\<close>

definition tolower :: "char \<Rightarrow> char" where
  "tolower c =
     (let n = of_char c :: nat in if 65 \<le> n \<and> n \<le> 90 then char_of (n + 32) else c)"

definition lower :: "string \<Rightarrow> string" where
  "lower s = map tolower s"

lemma lower_append [simp]: "lower (s @ t) = lower s @ lower t"
  by (simp add: lower_def)

lemma lower_Nil [simp]: "lower [] = []"
  by (simp add: lower_def)

lemma tolower_idem: "tolower (tolower c) = tolower c"
  by (simp add: tolower_def Let_def)

lemma lower_idem [simp]: "lower (lower s) = lower s"
  by (simp add: lower_def tolower_idem)

text \<open>\<open>std::string::find(c, from)\<close>: the first index at or after \<open>from\<close>, or \<open>npos\<close>.\<close>

fun find_char :: "char \<Rightarrow> string \<Rightarrow> nat option" where
  "find_char c [] = None"
| "find_char c (x # xs) = (if x = c then Some 0 else map_option Suc (find_char c xs))"

definition find_char_from :: "char \<Rightarrow> string \<Rightarrow> nat \<Rightarrow> nat option" where
  "find_char_from c s from = map_option (\<lambda>i. from + i) (find_char c (drop from s))"

lemma find_char_None_iff: "find_char c s = None \<longleftrightarrow> c \<notin> set s"
  by (induction s) auto

lemma find_char_append_first:
  "c \<notin> set a \<Longrightarrow> find_char c (a @ c # b) = Some (length a)"
  by (induction a) auto

lemma find_char_Some_split:
  "find_char c s = Some i \<Longrightarrow> s = take i s @ c # drop (Suc i) s \<and> c \<notin> set (take i s)"
proof (induction s arbitrary: i)
  case Nil
  then show ?case by simp
next
  case (Cons x xs)
  then show ?case by (auto split: if_splits)
qed

subsection \<open>Numbers as text\<close>

text \<open>\<open>std::to_string\<close> is base 10, \<open>%zx\<close> base 16.\<close>

definition digit :: "nat \<Rightarrow> char" where
  "digit d = char_of (if d < 10 then 48 + d else 87 + d)"

fun show_base :: "nat \<Rightarrow> nat \<Rightarrow> string" where
  "show_base b n =
     (if b < 2 \<or> n < b then [digit n] else show_base b (n div b) @ [digit (n mod b)])"

declare show_base.simps [simp del]

definition show_nat :: "nat \<Rightarrow> string" where
  "show_nat n = show_base 10 n"

definition show_hex :: "nat \<Rightarrow> string" where
  "show_hex n = show_base 16 n"

definition show_int :: "int \<Rightarrow> string" where
  "show_int i = (if i < 0 then CHR ''-'' # show_nat (nat (- i)) else show_nat (nat i))"

definition digit_val :: "char \<Rightarrow> nat option" where
  "digit_val c =
     (let n = of_char c in
        if 48 \<le> n \<and> n \<le> 57 then Some (n - 48)
        else if 97 \<le> n \<and> n \<le> 102 then Some (n - 87) else None)"

definition read_base :: "nat \<Rightarrow> string \<Rightarrow> nat" where
  "read_base b s = foldl (\<lambda>a c. a * b + (case digit_val c of None \<Rightarrow> 0 | Some d \<Rightarrow> d)) 0 s"

lemma digit_val_digit [simp]: "d < 16 \<Longrightarrow> digit_val (digit d) = Some d"
  by (auto simp: digit_val_def digit_def Let_def)

lemma read_show_base: "2 \<le> b \<Longrightarrow> b \<le> 16 \<Longrightarrow> read_base b (show_base b n) = n"
proof (induction b n rule: show_base.induct)
  case (1 b n)
  show ?case
  proof (cases "n < b")
    case True
    then show ?thesis using 1(2,3) by (subst show_base.simps) (simp add: read_base_def)
  next
    case False
    have "read_base b (show_base b (n div b)) = n div b" using 1 False by simp
    moreover have "n mod b < 16" using 1(2,3) by (meson mod_less_divisor order_less_le_trans zero_less_numeral order_trans)
    ultimately show ?thesis using 1(2,3) False by (subst show_base.simps) (simp add: read_base_def)
  qed
qed

lemma show_base_digits: "2 \<le> b \<Longrightarrow> b \<le> 16 \<Longrightarrow> c \<in> set (show_base b n) \<Longrightarrow> digit_val c \<noteq> None"
proof (induction b n rule: show_base.induct)
  case (1 b n)
  show ?case
  proof (cases "n < b")
    case True
    then show ?thesis using 1(2-4) by (subst (asm) show_base.simps) simp
  next
    case False
    have "n mod b < 16" using 1(2,3) by (meson mod_less_divisor order_less_le_trans zero_less_numeral order_trans)
    moreover have "show_base b n = show_base b (n div b) @ [digit (n mod b)]"
      using 1(2) False by (subst show_base.simps) simp
    ultimately show ?thesis using 1 False by auto
  qed
qed

lemma show_base_not_Nil [simp]: "show_base b n \<noteq> []"
  by (subst show_base.simps) simp

section \<open>Handles\<close>

text \<open>A 64-bit id that JavaScript holds as an \<open>int32_t\<close> comes back unchanged below \<open>2 ^ 31\<close>.\<close>

lemma small_id_cast:
  fixes i :: "64 word"
  assumes "unat i < 2 ^ 31"
  shows "scast (ucast i :: 32 word) = i"
proof -
  have "int (unat i) < int (2 ^ 31)" using assms by (simp only: of_nat_less_iff)
  then have u: "uint i < 2 ^ 31" by simp
  moreover have "- (2 ^ 31) \<le> uint i" by (rule order_trans [OF _ uint_ge_0]) simp
  ultimately have "signed_take_bit 31 (uint i) = uint i" by (intro signed_take_bit_int_eq_self)
  moreover have "take_bit 32 (uint i) = uint i" using u by (intro take_bit_int_eq_self) auto
  ultimately have "sint (ucast i :: 32 word) = uint i" by (simp add: signed_ucast_eq)
  then show ?thesis by (simp add: scast_eq)
qed

section \<open>Labelled machines and their reachable states\<close>

text \<open>
  A component with state is a labelled, executable step function: \<open>step l s = Some t\<close> when
  the event \<open>l\<close> is enabled in \<open>s\<close> and leads to \<open>t\<close>.  Which event comes next is left open,
  so the reachable states cover every interleaving of the events.
\<close>

inductive reachable :: "('l \<Rightarrow> 's \<Rightarrow> 's option) \<Rightarrow> 's \<Rightarrow> 's \<Rightarrow> bool"
  for step :: "'l \<Rightarrow> 's \<Rightarrow> 's option" and s0 :: 's where
  reach_init: "reachable step s0 s0"
| reach_next: "reachable step s0 s \<Longrightarrow> step l s = Some t \<Longrightarrow> reachable step s0 t"

fun run :: "('l \<Rightarrow> 's \<Rightarrow> 's option) \<Rightarrow> 's \<Rightarrow> 'l list \<Rightarrow> 's option" where
  "run step s [] = Some s"
| "run step s (l # ls) = (case step l s of None \<Rightarrow> None | Some t \<Rightarrow> run step t ls)"

lemma run_reachable_from:
  "reachable step s0 s \<Longrightarrow> run step s ls = Some t \<Longrightarrow> reachable step s0 t"
proof (induction ls arbitrary: s)
  case Nil
  then show ?case by simp
next
  case (Cons l ls)
  then obtain u where "step l s = Some u" and u: "run step u ls = Some t"
    by (auto split: option.splits)
  then have "reachable step s0 u" using Cons.prems(1) by (blast intro: reach_next)
  then show ?case using u by (rule Cons.IH)
qed

lemma run_reachable: "run step s0 ls = Some t \<Longrightarrow> reachable step s0 t"
  by (rule run_reachable_from [OF reach_init])

lemma run_resultE:
  assumes "case run step s ls of None \<Rightarrow> False | Some t \<Rightarrow> P t"
  obtains t where "run step s ls = Some t" "P t"
  using assms by (cases "run step s ls") auto

lemma run_append:
  "run step s (ls @ ms) = (case run step s ls of None \<Rightarrow> None | Some t \<Rightarrow> run step t ms)"
  by (induction ls arbitrary: s) (auto split: option.splits)

text \<open>The interface of an invariant: it holds at the start and every step keeps it.\<close>

locale machine =
  fixes step :: "'l \<Rightarrow> 's \<Rightarrow> 's option"
    and s0 :: 's
    and inv :: "'s \<Rightarrow> bool"
  assumes inv_init: "inv s0"
    and inv_step: "inv s \<Longrightarrow> step l s = Some t \<Longrightarrow> inv t"
begin

lemma reachable_inv: "reachable step s0 s \<Longrightarrow> inv s"
  by (induction rule: reachable.induct) (auto intro: inv_init inv_step)

lemma run_inv: "inv s \<Longrightarrow> run step s ls = Some t \<Longrightarrow> inv t"
  by (induction ls arbitrary: s) (auto intro: inv_step split: option.splits)

end

text \<open>
  The interface of a refinement: every step is an operation of the specification on the abstract state.
  Then every run is a run of the specification.
\<close>

fun ops_along :: "('l \<Rightarrow> 's \<Rightarrow> 's option) \<Rightarrow> ('l \<Rightarrow> 's \<Rightarrow> 'o) \<Rightarrow> 'l list \<Rightarrow> 's \<Rightarrow> 'o list" where
  "ops_along step f [] s = []"
| "ops_along step f (l # ls) s =
     f l s # (case step l s of None \<Rightarrow> [] | Some t \<Rightarrow> ops_along step f ls t)"

locale refinement = machine +
  fixes spec :: "'o \<Rightarrow> 'c \<Rightarrow> 'c option"
    and c0 :: 'c
    and view :: "'b \<Rightarrow> 'c"
    and op_for :: "'a \<Rightarrow> 'b \<Rightarrow> 'o"
  assumes view_init: "view s0 = c0"
    and view_step: "inv s \<Longrightarrow> step l s = Some t \<Longrightarrow> spec (op_for l s) (view s) = Some (view t)"
begin

lemma run_refines_from:
  "inv s \<Longrightarrow> run step s ls = Some t \<Longrightarrow> run spec (view s) (ops_along step op_for ls s) = Some (view t)"
proof (induction ls arbitrary: s)
  case (Cons l ls)
  obtain u where u: "step l s = Some u" "run step u ls = Some t"
    using Cons.prems(2) by (auto split: option.splits)
  have "inv u" using Cons.prems(1) u(1) by (rule inv_step)
  then show ?case using Cons.IH [of u] view_step [OF Cons.prems(1) u(1)] u by simp
qed simp

lemma run_refines: "run step s0 ls = Some t \<Longrightarrow> run spec c0 (ops_along step op_for ls s0) = Some (view t)"
  using run_refines_from [OF inv_init] by (simp add: view_init)

end

section \<open>Tables keyed by a counter\<close>

text \<open>
  \<open>Host::register_timer\<close>, \<open>native_fetch_fn\<close>, the request handler of \<open>start_http_server\<close> and
  \<open>HostManager::submit\<close> share one scheme: take the next value of a counter as the key, store
  under it, let others erase the key later.  \<open>room\<close> says the counter has not reached the end
  of its range.
\<close>

locale id_table =
  fixes key :: "'s \<Rightarrow> 'k"
    and live :: "'s \<Rightarrow> 'k set"
    and alloc :: "'s \<Rightarrow> 's"
    and erase :: "'k \<Rightarrow> 's \<Rightarrow> 's"
    and ok :: "'s \<Rightarrow> bool"
    and room :: "'s \<Rightarrow> bool"
  assumes key_fresh: "ok s \<Longrightarrow> key s \<notin> live s"
    and live_alloc: "live (alloc s) = insert (key s) (live s)"
    and live_erase: "live (erase k s) = live s - {k}"
    and ok_alloc: "ok s \<Longrightarrow> room s \<Longrightarrow> ok (alloc s)"
    and ok_erase: "ok s \<Longrightarrow> ok (erase k s)"
    and key_erase: "key (erase k s) = key s"
begin

lemma next_key_differs: "ok s \<Longrightarrow> room s \<Longrightarrow> key (alloc s) \<noteq> key s"
  using key_fresh [OF ok_alloc] by (auto simp: live_alloc)

lemma erase_other_keeps: "k \<noteq> key s \<Longrightarrow> key s \<in> live (erase k (alloc s))"
  by (simp add: live_erase live_alloc)

lemma alloc_keeps_live: "ok s \<Longrightarrow> k \<in> live s \<Longrightarrow> k \<in> live (alloc s) \<and> k \<noteq> key s"
  using key_fresh by (auto simp: live_alloc)

lemma erase_alloc: "ok s \<Longrightarrow> live (erase (key s) (alloc s)) = live s"
  using key_fresh by (simp add: live_erase live_alloc)

end

end
