(* ===== verification/ChannelBase.thy ===== *)
theory ChannelBase
  imports Prelude
begin

text \<open>
  What both channel kinds of \<open>src/channel.hpp\<close> share: coroutine handles, executors and
  \<open>detail::wake_waiter\<close>.  Waking happens outside the lock, so the locked part of an operation
  returns the waiter it took out and the operation then emits a \<open>wake\<close>: a task scheduled on
  the waiter's executor, or a direct resumption on the caller's thread.
\<close>

type_synonym handle = nat
type_synonym executor = nat

datatype wake = Schedule executor handle | Resume handle

fun wake_waiter :: "handle option \<Rightarrow> executor option \<Rightarrow> wake list" where
  "wake_waiter None ex = []"
| "wake_waiter (Some h) (Some e) = [Schedule e h]"
| "wake_waiter (Some h) None = [Resume h]"

lemma wake_waiter_Nil_iff [simp]: "wake_waiter h ex = [] \<longleftrightarrow> h = None"
  by (cases h; cases ex) auto

lemma wake_waiter_inj [simp]:
  "wake_waiter (Some h) ex = wake_waiter (Some h') ex' \<longleftrightarrow> h = h' \<and> ex = ex'"
  by (cases ex; cases ex') auto

text \<open>
  The consumer side of \<open>co_await rx.recv()\<close>: polled by \<open>await_ready\<close>, then either ready or
  suspended by \<open>await_suspend\<close> with its handle and executor, and woken once by a sender or a
  close.
\<close>

datatype phase =
    Rp_idle
  | Rp_polled
  | Rp_ready
  | Rp_suspended handle "executor option"
  | Rp_woken

text \<open>
  Delivery of the wakes an operation emits.  A wake that does not match the suspended consumer
  would resume a coroutine that is not suspended, so it is reported as \<open>False\<close>.
\<close>

definition deliver :: "wake list \<Rightarrow> phase \<Rightarrow> phase \<times> bool" where
  "deliver ws ph =
     (if ws = [] then (ph, True)
      else case ph of
          Rp_suspended h ex \<Rightarrow> if ws = wake_waiter (Some h) ex then (Rp_woken, True) else (ph, False)
        | _ \<Rightarrow> (ph, False))"

lemma deliver_Nil [simp]: "deliver [] ph = (ph, True)"
  by (simp add: deliver_def)

lemma deliver_own [simp]:
  "deliver (wake_waiter (Some h) ex) (Rp_suspended h ex) = (Rp_woken, True)"
  by (simp add: deliver_def)

end
