(* ===== verification/Mpsc.thy ===== *)
theory Mpsc
  imports ChannelBase
begin

text \<open>
  The multi-producer single-consumer channel of \<open>src/channel.hpp\<close> (\<open>co::mpsc\<close> and its
  \<open>detail::mpsc_state\<close>, \<open>mpsc_recv_awaiter\<close>).

  First the shared state and its locked operations, then the receive protocol of one channel under
  arbitrary interleaving with its producers.  The handle classes are in \<open>MpscHandles\<close>, the
  specification the protocol refines in \<open>MpscSpec\<close>.
\<close>

section \<open>The shared state\<close>

record 'a mpsc_state =
  mq_queue :: "'a list"
  mq_waiter :: "handle option"
  mq_waiter_ex :: "executor option"
  mq_senders :: int
  mq_closed :: bool

definition mpsc_fresh :: "'a mpsc_state" where
  "mpsc_fresh =
     \<lparr>mq_queue = [], mq_waiter = None, mq_waiter_ex = None, mq_senders = 1, mq_closed = False\<rparr>"

definition mpsc_close_locked ::
  "'a mpsc_state \<Rightarrow> 'a mpsc_state \<times> handle option \<times> executor option" where
  "mpsc_close_locked st =
     (if mq_closed st then (st, None, None)
      else (st\<lparr>mq_closed := True, mq_waiter := None, mq_waiter_ex := None\<rparr>,
            mq_waiter st, mq_waiter_ex st))"

definition mpsc_close :: "'a mpsc_state \<Rightarrow> 'a mpsc_state \<times> wake list" where
  "mpsc_close st = (case mpsc_close_locked st of (st', h, ex) \<Rightarrow> (st', wake_waiter h ex))"

subsection \<open>The awaiter of \<open>recv()\<close>\<close>

definition mpsc_await_ready :: "'a mpsc_state \<Rightarrow> bool" where
  "mpsc_await_ready st = (mq_queue st \<noteq> [] \<or> mq_closed st)"

text \<open>The result \<open>False\<close> means: do not suspend.\<close>

definition mpsc_await_suspend ::
  "handle \<Rightarrow> executor option \<Rightarrow> 'a mpsc_state \<Rightarrow> bool \<times> 'a mpsc_state" where
  "mpsc_await_suspend h ex st =
     (if mq_queue st \<noteq> [] \<or> mq_closed st then (False, st)
      else (True, st\<lparr>mq_waiter := Some h, mq_waiter_ex := ex\<rparr>))"

definition mpsc_await_resume :: "'a mpsc_state \<Rightarrow> 'a option \<times> 'a mpsc_state" where
  "mpsc_await_resume st =
     (case mq_queue st of
        [] \<Rightarrow> (None, st)
      | v # vs \<Rightarrow> (Some v, st\<lparr>mq_queue := vs\<rparr>))"

subsection \<open>The locked part of \<open>send\<close> and of \<open>try_recv\<close>\<close>

definition mpsc_send :: "'a \<Rightarrow> 'a mpsc_state \<Rightarrow> bool \<times> 'a mpsc_state \<times> wake list" where
  "mpsc_send v st =
     (if mq_closed st then (False, st, [])
      else (True,
            st\<lparr>mq_queue := mq_queue st @ [v], mq_waiter := None, mq_waiter_ex := None\<rparr>,
            wake_waiter (mq_waiter st) (mq_waiter_ex st)))"

definition mpsc_try_recv :: "'a mpsc_state \<Rightarrow> 'a option \<times> 'a mpsc_state" where
  "mpsc_try_recv st =
     (if mq_queue st = [] then (None, st)
      else (Some (hd (mq_queue st)), st\<lparr>mq_queue := tl (mq_queue st)\<rparr>))"

lemmas mpsc_defs =
  mpsc_fresh_def mpsc_close_locked_def mpsc_close_def mpsc_await_ready_def
  mpsc_await_suspend_def mpsc_await_resume_def mpsc_send_def mpsc_try_recv_def

section \<open>The receive protocol\<close>

text \<open>
  One channel, any number of producers, one consumer.  Each event is one critical section of
  the code together with the wake it emits; \<open>await_ready\<close>, \<open>await_suspend\<close> and \<open>await_resume\<close>
  are separate events, so a send or a close can fall between any two of them.  The ghost
  fields record the values accepted by \<open>send\<close>, those handed out, whether a \<open>recv\<close> has
  reported the end, and whether every wake hit the suspended consumer.
\<close>

datatype 'a recv_event =
    Ev_send 'a
  | Ev_close
  | Ev_poll
  | Ev_suspend handle "executor option"
  | Ev_resume
  | Ev_try_recv

record 'a recv_sys =
  rs_chan :: "'a mpsc_state"
  rs_phase :: phase
  rs_sent :: "'a list"
  rs_got :: "'a list"
  rs_eof :: bool
  rs_wakes_ok :: bool

definition recv_init :: "'a recv_sys" where
  "recv_init =
     \<lparr>rs_chan = mpsc_fresh, rs_phase = Rp_idle, rs_sent = [], rs_got = [], rs_eof = False,
      rs_wakes_ok = True\<rparr>"

definition rs_wake :: "wake list \<Rightarrow> 'a recv_sys \<Rightarrow> 'a recv_sys" where
  "rs_wake ws s =
     (case deliver ws (rs_phase s) of (ph, good) \<Rightarrow>
        s\<lparr>rs_phase := ph, rs_wakes_ok := (rs_wakes_ok s \<and> good)\<rparr>)"

fun recv_step :: "'a recv_event \<Rightarrow> 'a recv_sys \<Rightarrow> 'a recv_sys option" where
  "recv_step (Ev_send v) s =
     (case mpsc_send v (rs_chan s) of (acc, st, ws) \<Rightarrow>
        Some (rs_wake ws (s\<lparr>rs_chan := st,
                            rs_sent := (if acc then rs_sent s @ [v] else rs_sent s)\<rparr>)))"
| "recv_step Ev_close s =
     (case mpsc_close (rs_chan s) of (st, ws) \<Rightarrow> Some (rs_wake ws (s\<lparr>rs_chan := st\<rparr>)))"
| "recv_step Ev_poll s =
     (if rs_phase s = Rp_idle
      then Some (s\<lparr>rs_phase := (if mpsc_await_ready (rs_chan s) then Rp_ready else Rp_polled)\<rparr>)
      else None)"
| "recv_step (Ev_suspend h ex) s =
     (if rs_phase s = Rp_polled
      then (case mpsc_await_suspend h ex (rs_chan s) of (susp, st) \<Rightarrow>
              Some (s\<lparr>rs_chan := st,
                      rs_phase := (if susp then Rp_suspended h ex else Rp_ready)\<rparr>))
      else None)"
| "recv_step Ev_resume s =
     (if rs_phase s = Rp_ready \<or> rs_phase s = Rp_woken
      then (case mpsc_await_resume (rs_chan s) of
              (None, st) \<Rightarrow> Some (s\<lparr>rs_chan := st, rs_phase := Rp_idle, rs_eof := True\<rparr>)
            | (Some v, st) \<Rightarrow>
                Some (s\<lparr>rs_chan := st, rs_phase := Rp_idle, rs_got := rs_got s @ [v]\<rparr>))
      else None)"
| "recv_step Ev_try_recv s =
     (if rs_phase s = Rp_idle
      then (case mpsc_try_recv (rs_chan s) of
              (None, st) \<Rightarrow> Some (s\<lparr>rs_chan := st\<rparr>)
            | (Some v, st) \<Rightarrow> Some (s\<lparr>rs_chan := st, rs_got := rs_got s @ [v]\<rparr>))
      else None)"

subsection \<open>Its invariant\<close>

definition recv_inv :: "'a recv_sys \<Rightarrow> bool" where
  "recv_inv s \<longleftrightarrow>
     (let c = rs_chan s in
        (case rs_phase s of
           Rp_suspended h ex \<Rightarrow>
             mq_waiter c = Some h \<and> mq_waiter_ex c = ex \<and> mq_queue c = [] \<and> \<not> mq_closed c
         | ph \<Rightarrow> mq_waiter c = None \<and> mq_waiter_ex c = None \<and>
                 (ph = Rp_ready \<or> ph = Rp_woken \<longrightarrow> mq_queue c \<noteq> [] \<or> mq_closed c)) \<and>
        rs_sent s = rs_got s @ mq_queue c \<and>
        (rs_eof s \<longrightarrow> mq_closed c \<and> mq_queue c = []) \<and>
        rs_wakes_ok s)"

lemma recv_inv_init: "recv_inv recv_init"
  by (simp add: recv_inv_def recv_init_def mpsc_fresh_def)

lemma recv_inv_send: "recv_inv s \<Longrightarrow> recv_step (Ev_send v) s = Some t \<Longrightarrow> recv_inv t"
  by (cases "rs_phase s")
    (auto simp: recv_inv_def rs_wake_def mpsc_send_def Let_def split: if_splits)

lemma recv_inv_close: "recv_inv s \<Longrightarrow> recv_step Ev_close s = Some t \<Longrightarrow> recv_inv t"
  by (cases "rs_phase s")
    (auto simp: recv_inv_def rs_wake_def mpsc_close_def mpsc_close_locked_def Let_def
      split: if_splits)

lemma recv_inv_poll: "recv_inv s \<Longrightarrow> recv_step Ev_poll s = Some t \<Longrightarrow> recv_inv t"
  by (auto simp: recv_inv_def mpsc_await_ready_def Let_def split: if_splits)

lemma recv_inv_suspend:
  "recv_inv s \<Longrightarrow> recv_step (Ev_suspend h ex) s = Some t \<Longrightarrow> recv_inv t"
  by (auto simp: recv_inv_def mpsc_await_suspend_def Let_def split: if_splits)

lemma recv_inv_resume: "recv_inv s \<Longrightarrow> recv_step Ev_resume s = Some t \<Longrightarrow> recv_inv t"
  by (auto simp: recv_inv_def mpsc_await_resume_def Let_def split: if_splits list.splits)

lemma recv_inv_try: "recv_inv s \<Longrightarrow> recv_step Ev_try_recv s = Some t \<Longrightarrow> recv_inv t"
  by (auto simp: recv_inv_def mpsc_try_recv_def Let_def split: if_splits)

lemma recv_inv_step: "recv_inv s \<Longrightarrow> recv_step l s = Some t \<Longrightarrow> recv_inv t"
  by (cases l)
    (blast intro: recv_inv_send recv_inv_close recv_inv_poll recv_inv_suspend recv_inv_resume
      recv_inv_try)+

interpretation mpsc_recv: machine recv_step recv_init recv_inv
  by unfold_locales (blast intro: recv_inv_init recv_inv_step)+

text \<open>
  C9: no wake-up is lost and none is spurious.  Whatever the interleaving of senders, closes
  and the consumer, a suspended consumer faces an empty and open channel that still holds its
  handle and executor (so the next send or close will wake it), a woken or ready consumer finds
  a value or the end of the channel, and no operation ever resumes a coroutine other than the
  suspended consumer.
\<close>

theorem mpsc_no_lost_wakeup:
  assumes "reachable recv_step recv_init s"
  shows "rs_wakes_ok s \<and>
    (\<forall>h ex. rs_phase s = Rp_suspended h ex \<longrightarrow>
       mq_queue (rs_chan s) = [] \<and> \<not> mq_closed (rs_chan s) \<and>
       mq_waiter (rs_chan s) = Some h \<and> mq_waiter_ex (rs_chan s) = ex) \<and>
    (rs_phase s = Rp_ready \<or> rs_phase s = Rp_woken \<longrightarrow> mpsc_await_ready (rs_chan s))"
  using mpsc_recv.reachable_inv [OF assms]
  by (auto simp: recv_inv_def Let_def mpsc_await_ready_def)

definition demo_events :: "nat recv_event list" where
  "demo_events = [Ev_poll, Ev_suspend 7 (Some 1), Ev_send 10, Ev_send 11, Ev_resume, Ev_close,
     Ev_poll, Ev_resume, Ev_poll, Ev_resume]"

lemmas recv_run_simps =
  demo_events_def recv_init_def rs_wake_def deliver_def mpsc_defs

lemma demo_suspended:
  "\<exists>s. run recv_step recv_init (take 2 demo_events) = Some s \<and>
     rs_phase s = Rp_suspended 7 (Some 1)"
  by (simp add: recv_run_simps)

lemma demo_finished:
  "\<exists>s. run recv_step recv_init demo_events = Some s \<and> rs_eof s \<and> rs_sent s = [10, 11]"
  by (simp add: recv_run_simps)

theorem mpsc_no_lost_wakeup_witness:
  "\<exists>s :: nat recv_sys. run recv_step recv_init (take 2 demo_events) = Some s \<and>
     rs_phase s = Rp_suspended 7 (Some 1) \<and> mq_waiter (rs_chan s) = Some 7"
proof -
  from demo_suspended obtain s :: "nat recv_sys"
    where s: "run recv_step recv_init (take 2 demo_events) = Some s"
      and ph: "rs_phase s = Rp_suspended 7 (Some 1)" by blast
  from mpsc_no_lost_wakeup [OF run_reachable [OF s]] ph
  have "mq_waiter (rs_chan s) = Some 7" by blast
  with s ph show ?thesis by blast
qed

text \<open>
  C10: delivery is exactly once and in order.  The values handed to the consumer followed by the
  values still queued are exactly the values accepted by \<open>send\<close>, and \<open>recv\<close> reports the end of
  the channel only when it is closed and every accepted value has been delivered.
\<close>

theorem mpsc_fifo_exactly_once:
  assumes "reachable recv_step recv_init s"
  shows "rs_sent s = rs_got s @ mq_queue (rs_chan s) \<and>
    (rs_eof s \<longrightarrow> mq_closed (rs_chan s) \<and> rs_got s = rs_sent s)"
  using mpsc_recv.reachable_inv [OF assms] by (auto simp: recv_inv_def Let_def)

theorem mpsc_fifo_exactly_once_witness:
  "\<exists>s :: nat recv_sys. run recv_step recv_init demo_events = Some s \<and> rs_eof s \<and>
     rs_got s = rs_sent s \<and> rs_sent s = [10, 11]"
proof -
  from demo_finished obtain s :: "nat recv_sys"
    where s: "run recv_step recv_init demo_events = Some s"
      and e: "rs_eof s" "rs_sent s = [10, 11]" by blast
  from mpsc_fifo_exactly_once [OF run_reachable [OF s]] e
  have "rs_got s = rs_sent s" by blast
  with s e show ?thesis by blast
qed

end
