(* ===== verification/MpscHandles.thy ===== *)
theory MpscHandles
  imports Mpsc
begin

text \<open>
  \<open>co::mpsc::Sender\<close> and \<open>co::mpsc::Receiver\<close> (\<open>src/channel.hpp\<close>): handle objects over a
  memory of shared states.  A handle is the address its \<open>shared_ptr\<close> holds, \<open>None\<close> for a
  default-constructed or moved-from one.  Copying counts senders up, \<open>release\<close> counts them down
  and closes the channel with the last one; dropping the receiver closes it too.  The machine at
  the end runs any program over handle variables and keeps the reference count exact.

  The shared states are never freed in the model: \<open>shared_ptr\<close> keeps one alive as long as a
  handle names it, and no operation reads one that no handle names.
\<close>

type_synonym sender = "nat option"
type_synonym receiver = "nat option"

record 'a mpsc_mem =
  mm_cells :: "nat \<Rightarrow> 'a mpsc_state"
  mm_brk :: nat

definition mpsc_mem_empty :: "'a mpsc_mem" where
  "mpsc_mem_empty = \<lparr>mm_cells = (\<lambda>_. mpsc_fresh), mm_brk = 0\<rparr>"

definition mm_put :: "nat \<Rightarrow> 'a mpsc_state \<Rightarrow> 'a mpsc_mem \<Rightarrow> 'a mpsc_mem" where
  "mm_put a st m = m\<lparr>mm_cells := (mm_cells m)(a := st)\<rparr>"

lemma mm_put_simps [simp]:
  "mm_cells (mm_put a st m) = (mm_cells m)(a := st)"
  "mm_brk (mm_put a st m) = mm_brk m"
  by (simp_all add: mm_put_def)

section \<open>Sender\<close>

definition sender_count :: "int \<Rightarrow> nat \<Rightarrow> 'a mpsc_mem \<Rightarrow> 'a mpsc_mem" where
  "sender_count d a m =
     mm_put a ((mm_cells m a)\<lparr>mq_senders := mq_senders (mm_cells m a) + d\<rparr>) m"

definition sender_copy :: "sender \<Rightarrow> 'a mpsc_mem \<Rightarrow> sender \<times> 'a mpsc_mem" where
  "sender_copy src m =
     (src, case src of None \<Rightarrow> m | Some a \<Rightarrow> sender_count 1 a m)"

definition sender_release :: "sender \<Rightarrow> 'a mpsc_mem \<Rightarrow> sender \<times> 'a mpsc_mem \<times> wake list" where
  "sender_release self m =
     (case self of
        None \<Rightarrow> (None, m, [])
      | Some a \<Rightarrow>
          (let last_sender = (mq_senders (mm_cells m a) = 1);
               m' = sender_count (- 1) a m
           in if last_sender
              then (case mpsc_close (mm_cells m' a) of
                      (st, ws) \<Rightarrow> (None, mm_put a st m', ws))
              else (None, m', [])))"

text \<open>\<open>same\<close> is the self-assignment test \<open>this == &o\<close>.\<close>

definition sender_assign ::
  "bool \<Rightarrow> sender \<Rightarrow> sender \<Rightarrow> 'a mpsc_mem \<Rightarrow> sender \<times> 'a mpsc_mem \<times> wake list" where
  "sender_assign same self src m =
     (if same then (self, m, [])
      else case sender_release self m of
          (_, m', ws) \<Rightarrow>
            (case src of
               None \<Rightarrow> (None, m', ws)
             | Some a \<Rightarrow> (Some a, sender_count 1 a m', ws)))"

text \<open>Move operations return the new handle and what is left in the source.\<close>

definition sender_move :: "sender \<Rightarrow> sender \<times> sender" where
  "sender_move src = (src, None)"

definition sender_move_assign ::
  "bool \<Rightarrow> sender \<Rightarrow> sender \<Rightarrow> 'a mpsc_mem \<Rightarrow> sender \<times> sender \<times> 'a mpsc_mem \<times> wake list" where
  "sender_move_assign same self src m =
     (if same then (self, src, m, [])
      else case sender_release self m of (_, m', ws) \<Rightarrow> (src, None, m', ws))"

definition sender_bool :: "sender \<Rightarrow> bool" where
  "sender_bool self = (self \<noteq> None)"

definition sender_send :: "'a \<Rightarrow> sender \<Rightarrow> 'a mpsc_mem \<Rightarrow> bool \<times> 'a mpsc_mem \<times> wake list" where
  "sender_send v self m =
     (case self of
        None \<Rightarrow> (False, m, [])
      | Some a \<Rightarrow>
          (case mpsc_send v (mm_cells m a) of
             (acc, st, ws) \<Rightarrow> (acc, (if acc then mm_put a st m else m), ws)))"

definition sender_close :: "sender \<Rightarrow> 'a mpsc_mem \<Rightarrow> 'a mpsc_mem \<times> wake list" where
  "sender_close self m =
     (case self of
        None \<Rightarrow> (m, [])
      | Some a \<Rightarrow> (case mpsc_close (mm_cells m a) of (st, ws) \<Rightarrow> (mm_put a st m, ws)))"

definition sender_is_closed :: "sender \<Rightarrow> 'a mpsc_mem \<Rightarrow> bool" where
  "sender_is_closed self m =
     (case self of None \<Rightarrow> True | Some a \<Rightarrow> mq_closed (mm_cells m a))"

section \<open>Receiver\<close>

definition receiver_close_rx ::
  "receiver \<Rightarrow> 'a mpsc_mem \<Rightarrow> receiver \<times> 'a mpsc_mem \<times> wake list" where
  "receiver_close_rx self m =
     (case self of
        None \<Rightarrow> (None, m, [])
      | Some a \<Rightarrow> (case mpsc_close (mm_cells m a) of (st, ws) \<Rightarrow> (None, mm_put a st m, ws)))"

definition receiver_move :: "receiver \<Rightarrow> receiver \<times> receiver" where
  "receiver_move src = (src, None)"

definition receiver_move_assign ::
  "bool \<Rightarrow> receiver \<Rightarrow> receiver \<Rightarrow> 'a mpsc_mem
     \<Rightarrow> receiver \<times> receiver \<times> 'a mpsc_mem \<times> wake list" where
  "receiver_move_assign same self src m =
     (if same then (self, src, m, [])
      else case receiver_close_rx self m of (_, m', ws) \<Rightarrow> (src, None, m', ws))"

definition receiver_bool :: "receiver \<Rightarrow> bool" where
  "receiver_bool self = (self \<noteq> None)"

definition receiver_try_recv :: "receiver \<Rightarrow> 'a mpsc_mem \<Rightarrow> 'a option \<times> 'a mpsc_mem" where
  "receiver_try_recv self m =
     (case self of
        None \<Rightarrow> (None, m)
      | Some a \<Rightarrow> (case mpsc_try_recv (mm_cells m a) of (v, st) \<Rightarrow> (v, mm_put a st m)))"

definition receiver_is_closed :: "receiver \<Rightarrow> 'a mpsc_mem \<Rightarrow> bool" where
  "receiver_is_closed self m =
     (case self of None \<Rightarrow> True | Some a \<Rightarrow> mq_closed (mm_cells m a))"

definition unbounded :: "'a mpsc_mem \<Rightarrow> (sender \<times> receiver) \<times> 'a mpsc_mem" where
  "unbounded m =
     (let a = mm_brk m
      in ((Some a, Some a), (mm_put a mpsc_fresh m)\<lparr>mm_brk := Suc a\<rparr>))"

lemmas handle_defs =
  sender_count_def sender_copy_def sender_release_def sender_assign_def sender_move_def
  sender_move_assign_def sender_bool_def sender_send_def sender_close_def sender_is_closed_def
  receiver_close_rx_def receiver_move_def receiver_move_assign_def receiver_bool_def
  receiver_try_recv_def receiver_is_closed_def unbounded_def

section \<open>Ownership\<close>

datatype 'a own_event =
    Own_new nat nat
  | Own_copy nat nat
  | Own_assign nat nat
  | Own_move nat nat
  | Own_move_assign nat nat
  | Own_drop nat
  | Own_send nat 'a
  | Own_close nat
  | Own_rx_move nat nat
  | Own_rx_move_assign nat nat
  | Own_rx_drop nat
  | Own_try_recv nat

record 'a own_sys =
  own_mem :: "'a mpsc_mem"
  own_txs :: "nat \<Rightarrow> sender"
  own_rxs :: "nat \<Rightarrow> receiver"

definition own_init :: "'a own_sys" where
  "own_init = \<lparr>own_mem = mpsc_mem_empty, own_txs = (\<lambda>_. None), own_rxs = (\<lambda>_. None)\<rparr>"

text \<open>A constructor needs a variable that holds nothing to release.\<close>

fun own_step :: "'a own_event \<Rightarrow> 'a own_sys \<Rightarrow> 'a own_sys option" where
  "own_step (Own_new w r) s =
     (if own_txs s w = None \<and> own_rxs s r = None
      then (case unbounded (own_mem s) of ((tx, rx), m) \<Rightarrow>
              Some (s\<lparr>own_mem := m, own_txs := (own_txs s)(w := tx),
                      own_rxs := (own_rxs s)(r := rx)\<rparr>))
      else None)"
| "own_step (Own_copy v w) s =
     (if own_txs s w = None
      then (case sender_copy (own_txs s v) (own_mem s) of (tx, m) \<Rightarrow>
              Some (s\<lparr>own_mem := m, own_txs := (own_txs s)(w := tx)\<rparr>))
      else None)"
| "own_step (Own_assign v w) s =
     (case sender_assign (v = w) (own_txs s w) (own_txs s v) (own_mem s) of (tx, m, _) \<Rightarrow>
        Some (s\<lparr>own_mem := m, own_txs := (own_txs s)(w := tx)\<rparr>))"
| "own_step (Own_move v w) s =
     (if own_txs s w = None \<and> v \<noteq> w
      then (case sender_move (own_txs s v) of (tx, left) \<Rightarrow>
              Some (s\<lparr>own_txs := (own_txs s)(v := left, w := tx)\<rparr>))
      else None)"
| "own_step (Own_move_assign v w) s =
     (case sender_move_assign (v = w) (own_txs s w) (own_txs s v) (own_mem s) of
        (tx, left, m, _) \<Rightarrow>
        Some (s\<lparr>own_mem := m, own_txs := (own_txs s)(v := left, w := tx)\<rparr>))"
| "own_step (Own_drop v) s =
     (case sender_release (own_txs s v) (own_mem s) of (tx, m, _) \<Rightarrow>
        Some (s\<lparr>own_mem := m, own_txs := (own_txs s)(v := tx)\<rparr>))"
| "own_step (Own_send v x) s =
     (case sender_send x (own_txs s v) (own_mem s) of (_, m, _) \<Rightarrow> Some (s\<lparr>own_mem := m\<rparr>))"
| "own_step (Own_close v) s =
     (case sender_close (own_txs s v) (own_mem s) of (m, _) \<Rightarrow> Some (s\<lparr>own_mem := m\<rparr>))"
| "own_step (Own_rx_move v w) s =
     (if own_rxs s w = None \<and> v \<noteq> w
      then (case receiver_move (own_rxs s v) of (rx, left) \<Rightarrow>
              Some (s\<lparr>own_rxs := (own_rxs s)(v := left, w := rx)\<rparr>))
      else None)"
| "own_step (Own_rx_move_assign v w) s =
     (case receiver_move_assign (v = w) (own_rxs s w) (own_rxs s v) (own_mem s) of
        (rx, left, m, _) \<Rightarrow>
        Some (s\<lparr>own_mem := m, own_rxs := (own_rxs s)(v := left, w := rx)\<rparr>))"
| "own_step (Own_rx_drop v) s =
     (case receiver_close_rx (own_rxs s v) (own_mem s) of (rx, m, _) \<Rightarrow>
        Some (s\<lparr>own_mem := m, own_rxs := (own_rxs s)(v := rx)\<rparr>))"
| "own_step (Own_try_recv v) s =
     (case receiver_try_recv (own_rxs s v) (own_mem s) of (_, m) \<Rightarrow>
        Some (s\<lparr>own_mem := m\<rparr>))"

subsection \<open>The reference count is exact\<close>

definition refs :: "(nat \<Rightarrow> sender) \<Rightarrow> nat \<Rightarrow> nat set" where
  "refs txs a = {v. txs v = Some a}"

definition count_ok :: "(nat \<Rightarrow> sender) \<Rightarrow> 'a mpsc_mem \<Rightarrow> bool" where
  "count_ok txs m \<longleftrightarrow>
     (\<forall>a. finite (refs txs a) \<and>
          (mm_brk m \<le> a \<longrightarrow> refs txs a = {}) \<and>
          (a < mm_brk m \<longrightarrow>
             mq_senders (mm_cells m a) = int (card (refs txs a)) \<and>
             (refs txs a = {} \<longrightarrow> mq_closed (mm_cells m a))))"

definition own_inv :: "'a own_sys \<Rightarrow> bool" where
  "own_inv s \<longleftrightarrow> count_ok (own_txs s) (own_mem s)"

lemma refs_upd: "refs (txs(w := tx)) a = (if tx = Some a then insert w (refs txs a)
    else refs txs a - {w})"
  by (auto simp: refs_def)

lemma refs_mem: "w \<in> refs txs a \<longleftrightarrow> txs w = Some a"
  by (simp add: refs_def)

lemma count_ok_frame:
  assumes "count_ok txs m"
    and "mm_brk m' = mm_brk m"
    and "\<And>a. mq_senders (mm_cells m' a) = mq_senders (mm_cells m a)"
    and "\<And>a. mq_closed (mm_cells m a) \<Longrightarrow> mq_closed (mm_cells m' a)"
  shows "count_ok txs m'"
  using assms by (auto simp: count_ok_def)

lemma count_ok_allocated: "count_ok txs m \<Longrightarrow> txs v = Some a \<Longrightarrow> a < mm_brk m"
  by (auto simp: count_ok_def refs_def) (metis leI)

lemma count_ok_put:
  assumes "count_ok txs m"
    and "mq_senders st = mq_senders (mm_cells m a)"
    and "mq_closed (mm_cells m a) \<Longrightarrow> mq_closed st"
  shows "count_ok txs (mm_put a st m)"
  by (rule count_ok_frame [OF assms(1)]) (auto simp: assms(2,3))

lemma mpsc_close_frame:
  "mpsc_close st = (st', ws) \<Longrightarrow> mq_senders st' = mq_senders st \<and> mq_closed st'"
  by (auto simp: mpsc_close_def mpsc_close_locked_def split: if_splits)

lemma count_ok_clear:
  assumes "count_ok txs m" and "txs v = Some a"
    and "mq_senders st = mq_senders (mm_cells m a) - 1"
    and "mq_closed (mm_cells m a) \<or> mq_senders (mm_cells m a) = 1 \<Longrightarrow> mq_closed st"
  shows "count_ok (txs(v := None)) (mm_put a st m)"
proof -
  have a: "a < mm_brk m" using assms(1,2) by (rule count_ok_allocated)
  have fin: "finite (refs txs a)" and v: "v \<in> refs txs a"
    using assms(1,2) by (auto simp: count_ok_def refs_mem)
  have n: "mq_senders (mm_cells m a) = int (card (refs txs a))"
    using assms(1) a by (simp add: count_ok_def)
  have c: "int (card (refs txs a - {v})) = int (card (refs txs a)) - 1"
    using fin v card_gt_0_iff [of "refs txs a"] by (auto simp: card_Diff_singleton of_nat_diff)
  have one: "refs txs a - {v} = {} \<Longrightarrow> card (refs txs a) = 1"
    using v by (metis Diff_eq_empty_iff card_1_singleton_iff empty_iff insert_absorb subset_singletonD One_nat_def)
  have here: "refs (txs(v := None)) a = refs txs a - {v}"
    and other: "\<And>b. b \<noteq> a \<Longrightarrow> refs (txs(v := None)) b = refs txs b"
    using assms(2) by (auto simp: refs_def)
  show ?thesis
    unfolding count_ok_def
  proof (intro allI)
    fix b
    show "finite (refs (txs(v := None)) b) \<and>
      (mm_brk (mm_put a st m) \<le> b \<longrightarrow> refs (txs(v := None)) b = {}) \<and>
      (b < mm_brk (mm_put a st m) \<longrightarrow>
        mq_senders (mm_cells (mm_put a st m) b) = int (card (refs (txs(v := None)) b)) \<and>
        (refs (txs(v := None)) b = {} \<longrightarrow> mq_closed (mm_cells (mm_put a st m) b)))"
      using assms(1,3,4) a n c one fin
      by (cases "b = a") (auto simp: count_ok_def here other)
  qed
qed

lemma count_ok_bind:
  assumes "count_ok txs m" and "txs w = None" and "txs v = Some a"
  shows "count_ok (txs(w := Some a)) (sender_count 1 a m)"
proof -
  have a: "a < mm_brk m" using assms(1,3) by (rule count_ok_allocated)
  have "w \<notin> refs txs a" using assms(2) by (simp add: refs_mem)
  then show ?thesis
    using assms a by (auto simp: count_ok_def refs_upd sender_count_def refs_mem)
qed

lemma count_ok_move:
  assumes "count_ok txs m" and "txs w = None" and "v \<noteq> w"
  shows "count_ok (txs(v := None, w := txs v)) m"
proof -
  have "finite (refs txs a) \<Longrightarrow>
      card (refs (txs(v := None, w := txs v)) a) = card (refs txs a) \<and>
      (refs (txs(v := None, w := txs v)) a = {} \<longleftrightarrow> refs txs a = {}) \<and>
      finite (refs (txs(v := None, w := txs v)) a)" for a
  proof (cases "txs v = Some a")
    case True
    assume fin: "finite (refs txs a)"
    have "refs (txs(v := None, w := txs v)) a = insert w (refs txs a - {v})"
      using True by (auto simp: refs_def)
    moreover have "w \<notin> refs txs a" "v \<in> refs txs a"
      using True assms(2) by (auto simp: refs_def)
    moreover from this fin have "card (insert w (refs txs a - {v})) = card (refs txs a)"
      by (metis Diff_iff card_Suc_Diff1 card_insert_disjoint finite_Diff)
    ultimately show ?thesis using fin by auto
  next
    case False
    assume fin: "finite (refs txs a)"
    have "refs (txs(v := None, w := txs v)) a = refs txs a"
      using False assms(2) by (auto simp: refs_def)
    then show ?thesis using fin by simp
  qed
  then show ?thesis using assms(1) by (simp add: count_ok_def)
qed

lemma count_ok_release:
  assumes "count_ok txs m" and "sender_release (txs v) m = (tx, m', ws)"
  shows "count_ok (txs(v := None)) m' \<and> tx = None"
proof (cases "txs v")
  case None
  then have "txs(v := None) = txs" by auto
  then show ?thesis using assms None by (simp add: sender_release_def)
next
  case (Some a)
  then show ?thesis
    using assms count_ok_clear [OF assms(1) Some]
    by (auto simp: sender_release_def sender_count_def mm_put_def Let_def
        mpsc_close_def mpsc_close_locked_def split: if_splits prod.splits)
qed

lemma count_ok_assign:
  assumes ok: "count_ok txs m"
    and eq: "sender_assign (v = w) (txs w) (txs v) m = (tx, m', ws)"
  shows "count_ok (txs(w := tx)) m'"
proof (cases "v = w")
  case True
  then show ?thesis using assms by (simp add: sender_assign_def fun_upd_idem)
next
  case False
  obtain m1 ws1 where rel: "sender_release (txs w) m = (None, m1, ws1)"
    using count_ok_release [OF ok] by (metis prod_cases3)
  have ok1: "count_ok (txs(w := None)) m1" using count_ok_release [OF ok rel] by simp
  show ?thesis
  proof (cases "txs v")
    case None
    then show ?thesis using eq False rel ok1 by (auto simp: sender_assign_def)
  next
    case (Some a)
    then have "count_ok ((txs(w := None))(w := Some a)) (sender_count 1 a m1)"
      using False by (intro count_ok_bind [OF ok1, of w v]) auto
    then show ?thesis using eq False rel Some by (auto simp: sender_assign_def)
  qed
qed

lemma count_ok_move_assign:
  assumes ok: "count_ok txs m"
    and eq: "sender_move_assign (v = w) (txs w) (txs v) m = (tx, left, m', ws)"
  shows "count_ok (txs(v := left, w := tx)) m'"
proof (cases "v = w")
  case True
  then show ?thesis using assms by (simp add: sender_move_assign_def fun_upd_idem)
next
  case False
  obtain m1 ws1 where rel: "sender_release (txs w) m = (None, m1, ws1)"
    using count_ok_release [OF ok] by (metis prod_cases3)
  have "count_ok (txs(w := None)) m1" using count_ok_release [OF ok rel] by simp
  then have "count_ok ((txs(w := None))(v := None, w := (txs(w := None)) v)) m1"
    using False by (intro count_ok_move) auto
  moreover have "(txs(w := None))(v := None, w := (txs(w := None)) v) = txs(v := None, w := txs v)"
    using False by auto
  ultimately show ?thesis using eq False rel by (auto simp: sender_move_assign_def)
qed

lemma count_ok_new:
  assumes ok: "count_ok txs m" and w: "txs w = None"
    and eq: "unbounded m = ((tx, rx), m')"
  shows "count_ok (txs(w := tx)) m'"
proof -
  have "refs txs (mm_brk m) = {}" using ok by (simp add: count_ok_def)
  then show ?thesis
    using ok eq w by (auto simp: count_ok_def unbounded_def Let_def refs_upd refs_mem mpsc_fresh_def)
qed

lemma count_ok_copy:
  assumes ok: "count_ok txs m" and w: "txs w = None"
    and eq: "sender_copy (txs v) m = (tx, m')"
  shows "count_ok (txs(w := tx)) m'"
proof (cases "txs v")
  case None
  then show ?thesis using assms by (simp add: sender_copy_def fun_upd_idem)
next
  case (Some a)
  then show ?thesis
    using count_ok_bind [OF ok w Some] eq by (auto simp: sender_copy_def)
qed

lemma count_ok_close: "count_ok txs m \<Longrightarrow> sender_close tx m = (m', ws) \<Longrightarrow> count_ok txs m'"
  by (cases tx)
    (auto simp: sender_close_def dest!: mpsc_close_frame intro!: count_ok_put split: prod.splits)

lemma count_ok_send:
  "count_ok txs m \<Longrightarrow> sender_send x tx m = (acc, m', ws) \<Longrightarrow> count_ok txs m'"
  by (cases tx)
    (auto simp: sender_send_def mpsc_send_def intro!: count_ok_put split: if_splits)

lemma count_ok_close_rx:
  "count_ok txs m \<Longrightarrow> receiver_close_rx rx m = (rx', m', ws) \<Longrightarrow> count_ok txs m'"
  by (cases rx)
    (auto simp: receiver_close_rx_def dest!: mpsc_close_frame intro!: count_ok_put
      split: prod.splits)

lemma count_ok_try:
  "count_ok txs m \<Longrightarrow> receiver_try_recv rx m = (x, m') \<Longrightarrow> count_ok txs m'"
  by (cases rx)
    (auto simp: receiver_try_recv_def mpsc_try_recv_def intro!: count_ok_put split: if_splits)

lemma own_inv_init: "own_inv own_init"
  by (simp add: own_inv_def own_init_def count_ok_def refs_def mpsc_mem_empty_def)

lemma own_inv_tx_steps:
  "own_inv s \<Longrightarrow> own_step (Own_new w r) s = Some t \<Longrightarrow> own_inv t"
  "own_inv s \<Longrightarrow> own_step (Own_copy v w) s = Some t \<Longrightarrow> own_inv t"
  "own_inv s \<Longrightarrow> own_step (Own_assign v w) s = Some t \<Longrightarrow> own_inv t"
  "own_inv s \<Longrightarrow> own_step (Own_move v w) s = Some t \<Longrightarrow> own_inv t"
  "own_inv s \<Longrightarrow> own_step (Own_move_assign v w) s = Some t \<Longrightarrow> own_inv t"
  "own_inv s \<Longrightarrow> own_step (Own_drop v) s = Some t \<Longrightarrow> own_inv t"
  by (auto simp: own_inv_def sender_move_def
      dest: count_ok_new count_ok_copy count_ok_assign count_ok_move_assign count_ok_release
      intro!: count_ok_move split: if_splits prod.splits)

lemma own_inv_other_steps:
  "own_inv s \<Longrightarrow> own_step (Own_send v x) s = Some t \<Longrightarrow> own_inv t"
  "own_inv s \<Longrightarrow> own_step (Own_close v) s = Some t \<Longrightarrow> own_inv t"
  "own_inv s \<Longrightarrow> own_step (Own_rx_move v w) s = Some t \<Longrightarrow> own_inv t"
  "own_inv s \<Longrightarrow> own_step (Own_rx_move_assign v w) s = Some t \<Longrightarrow> own_inv t"
  "own_inv s \<Longrightarrow> own_step (Own_rx_drop v) s = Some t \<Longrightarrow> own_inv t"
  "own_inv s \<Longrightarrow> own_step (Own_try_recv v) s = Some t \<Longrightarrow> own_inv t"
  by (auto simp: own_inv_def receiver_move_def receiver_move_assign_def
      dest: count_ok_send count_ok_close count_ok_close_rx count_ok_try
      split: if_splits prod.splits)

lemma own_inv_step: "own_inv s \<Longrightarrow> own_step l s = Some t \<Longrightarrow> own_inv t"
  by (cases l) (blast intro: own_inv_tx_steps own_inv_other_steps)+

interpretation mpsc_own: machine own_step own_init own_inv
  by unfold_locales (blast intro: own_inv_init own_inv_step)+

text \<open>
  C16: the sender count is exact.  In every program over sender and receiver handles (copies,
  moves, copy and move assignments including self-assignment, drops, explicit closes), the count
  of an allocated channel is the number of handles that name it, and a channel no sender names
  any more is closed, so its consumer is told the end instead of waiting for ever.
\<close>

theorem mpsc_sender_count_exact:
  assumes "reachable own_step own_init s" and "a < mm_brk (own_mem s)"
  shows "mq_senders (mm_cells (own_mem s) a) = int (card {v. own_txs s v = Some a}) \<and>
    ({v. own_txs s v = Some a} = {} \<longrightarrow> mq_closed (mm_cells (own_mem s) a))"
  using mpsc_own.reachable_inv [OF assms(1)] assms(2)
  by (simp add: own_inv_def count_ok_def refs_def)

definition demo_program :: "nat own_event list" where
  "demo_program = [Own_new 0 0, Own_copy 0 1, Own_new 2 1, Own_assign 0 2, Own_assign 2 2,
     Own_drop 0, Own_drop 1, Own_send 2 5]"

lemmas own_run_simps =
  demo_program_def own_init_def mpsc_mem_empty_def mpsc_defs handle_defs

lemma demo_program_runs:
  "\<exists>s. run own_step own_init demo_program = Some s \<and> mm_brk (own_mem s) = 2 \<and>
     (\<forall>v. own_txs s v = (if v = 2 then Some 0 else None))"
  by (simp add: own_run_simps Let_def)

theorem mpsc_sender_count_exact_witness:
  "\<exists>s. run own_step own_init demo_program = Some s \<and>
     mq_senders (mm_cells (own_mem s) 0) = 1 \<and> mq_closed (mm_cells (own_mem s) 1)"
proof -
  from demo_program_runs obtain s where s: "run own_step own_init demo_program = Some s"
    and b: "mm_brk (own_mem s) = 2"
    and v: "\<forall>v. own_txs s v = (if v = 2 then Some 0 else None)" by blast
  have "{v. own_txs s v = Some 0} = {2}" "{v. own_txs s v = Some 1} = {}"
    using v by auto
  then show ?thesis
    using mpsc_sender_count_exact [OF run_reachable [OF s], of 0]
      mpsc_sender_count_exact [OF run_reachable [OF s], of 1] s b by auto
qed

section \<open>The queue as an interface\<close>

text \<open>
  What the clients of a channel rely on: values come out in the order they were accepted, a
  closed queue accepts nothing but still hands out what it holds.
\<close>

locale fifo_queue =
  fixes contents :: "'q \<Rightarrow> 'a list"
    and closed :: "'q \<Rightarrow> bool"
    and put :: "'a \<Rightarrow> 'q \<Rightarrow> bool \<times> 'q"
    and take1 :: "'q \<Rightarrow> 'a option \<times> 'q"
    and shut :: "'q \<Rightarrow> 'q"
  assumes put_open: "\<not> closed q \<Longrightarrow>
      fst (put v q) \<and> contents (snd (put v q)) = contents q @ [v] \<and> \<not> closed (snd (put v q))"
    and put_closed: "closed q \<Longrightarrow> put v q = (False, q)"
    and take1_Nil: "contents q = [] \<Longrightarrow> take1 q = (None, q)"
    and take1_Cons: "contents q = v # vs \<Longrightarrow>
      fst (take1 q) = Some v \<and> contents (snd (take1 q)) = vs \<and>
      closed (snd (take1 q)) = closed q"
    and shut_law: "contents (shut q) = contents q \<and> closed (shut q)"
begin

lemma put_result: "fst (put v q) = (\<not> closed q)"
  using put_open put_closed by (metis fst_conv)

lemma put_contents:
  "contents (snd (put v q)) = (if closed q then contents q else contents q @ [v])"
  using put_open put_closed by (metis snd_conv)

lemma put_keeps_closed: "closed (snd (put v q)) = closed q"
  using put_open put_closed by (metis snd_conv)

lemma take1_result: "fst (take1 q) = (case contents q of [] \<Rightarrow> None | v # _ \<Rightarrow> Some v)"
  using take1_Nil take1_Cons by (cases "contents q") auto

lemma take1_contents: "contents (snd (take1 q)) = tl (contents q)"
  using take1_Nil take1_Cons by (cases "contents q") auto

lemma take1_keeps_closed: "closed (snd (take1 q)) = closed q"
  using take1_Nil take1_Cons by (cases "contents q") auto

lemma shut_then_put: "put v (shut q) = (False, shut q)"
  using put_closed shut_law by blast

lemmas queue_laws [chan_simps] =
  put_result put_contents put_keeps_closed take1_result take1_contents take1_keeps_closed
  shut_law

end

interpretation mpsc_queue: fifo_queue mq_queue mq_closed
  "\<lambda>v st. case mpsc_send v st of (acc, st', _) \<Rightarrow> (acc, st')"
  mpsc_await_resume "\<lambda>st. fst (mpsc_close st)"
  by unfold_locales
    (auto simp: mpsc_send_def mpsc_await_resume_def mpsc_close_def mpsc_close_locked_def)

end
