(* ===== verification/Oneshot.thy ===== *)
theory Oneshot
  imports ChannelBase
begin

text \<open>
  The oneshot channel of \<open>src/channel.hpp\<close> (\<open>co::oneshot\<close>): one value, sent at most once,
  taken at most once.  The layout follows \<open>Mpsc\<close>: the shared state with its locked operations,
  the handle classes over a memory of shared states, and a machine for one channel with its
  sender handle and one receiving coroutine.
\<close>

section \<open>The shared state\<close>

record 'a oneshot_state =
  os_value :: "'a option"
  os_waiter :: "handle option"
  os_waiter_ex :: "executor option"
  os_sent :: bool
  os_closed :: bool

definition oneshot_fresh :: "'a oneshot_state" where
  "oneshot_fresh =
     \<lparr>os_value = None, os_waiter = None, os_waiter_ex = None, os_sent = False,
      os_closed = False\<rparr>"

definition oneshot_close_locked ::
  "'a oneshot_state \<Rightarrow> 'a oneshot_state \<times> handle option \<times> executor option" where
  "oneshot_close_locked st =
     (if os_closed st \<or> os_sent st then (st, None, None)
      else (st\<lparr>os_closed := True, os_waiter := None, os_waiter_ex := None\<rparr>,
            os_waiter st, os_waiter_ex st))"

definition oneshot_close :: "'a oneshot_state \<Rightarrow> 'a oneshot_state \<times> wake list" where
  "oneshot_close st = (case oneshot_close_locked st of (st', h, ex) \<Rightarrow> (st', wake_waiter h ex))"

definition oneshot_await_ready :: "'a oneshot_state \<Rightarrow> bool" where
  "oneshot_await_ready st = (os_sent st \<or> os_closed st)"

definition oneshot_await_suspend ::
  "handle \<Rightarrow> executor option \<Rightarrow> 'a oneshot_state \<Rightarrow> bool \<times> 'a oneshot_state" where
  "oneshot_await_suspend h ex st =
     (if os_sent st \<or> os_closed st then (False, st)
      else (True, st\<lparr>os_waiter := Some h, os_waiter_ex := ex\<rparr>))"

definition oneshot_await_resume :: "'a oneshot_state \<Rightarrow> 'a option \<times> 'a oneshot_state" where
  "oneshot_await_resume st =
     (case os_value st of
        Some v \<Rightarrow> (Some v, st\<lparr>os_value := None\<rparr>)
      | None \<Rightarrow> (None, st))"

text \<open>The locked part of \<open>Sender::send\<close> and the wake that follows it.\<close>

definition oneshot_send :: "'a \<Rightarrow> 'a oneshot_state \<Rightarrow> bool \<times> 'a oneshot_state \<times> wake list" where
  "oneshot_send v st =
     (if os_sent st \<or> os_closed st then (False, st, [])
      else (True,
            st\<lparr>os_sent := True, os_value := Some v, os_waiter := None, os_waiter_ex := None\<rparr>,
            wake_waiter (os_waiter st) (os_waiter_ex st)))"

section \<open>The handle classes\<close>

type_synonym os_sender = "nat option"
type_synonym os_receiver = "nat option"

record 'a oneshot_mem =
  om_cells :: "nat \<Rightarrow> 'a oneshot_state"
  om_brk :: nat

definition oneshot_mem_empty :: "'a oneshot_mem" where
  "oneshot_mem_empty = \<lparr>om_cells = (\<lambda>_. oneshot_fresh), om_brk = 0\<rparr>"

definition om_put :: "nat \<Rightarrow> 'a oneshot_state \<Rightarrow> 'a oneshot_mem \<Rightarrow> 'a oneshot_mem" where
  "om_put a st m = m\<lparr>om_cells := (om_cells m)(a := st)\<rparr>"

lemma om_put_simps [simp]:
  "om_cells (om_put a st m) = (om_cells m)(a := st)"
  "om_brk (om_put a st m) = om_brk m"
  by (simp_all add: om_put_def)

definition oneshot_channel :: "'a oneshot_mem \<Rightarrow> (os_sender \<times> os_receiver) \<times> 'a oneshot_mem" where
  "oneshot_channel m =
     (let a = om_brk m
      in ((Some a, Some a), (om_put a oneshot_fresh m)\<lparr>om_brk := Suc a\<rparr>))"

text \<open>A successful \<open>send\<close> detaches the sender; a refused one leaves it as it was.\<close>

definition os_sender_send ::
  "'a \<Rightarrow> os_sender \<Rightarrow> 'a oneshot_mem \<Rightarrow> bool \<times> os_sender \<times> 'a oneshot_mem \<times> wake list" where
  "os_sender_send v self m =
     (case self of
        None \<Rightarrow> (False, None, m, [])
      | Some a \<Rightarrow>
          (case oneshot_send v (om_cells m a) of
             (acc, st, ws) \<Rightarrow>
               if acc then (True, None, om_put a st m, ws) else (False, self, m, [])))"

definition os_sender_close ::
  "os_sender \<Rightarrow> 'a oneshot_mem \<Rightarrow> os_sender \<times> 'a oneshot_mem \<times> wake list" where
  "os_sender_close self m =
     (case self of
        None \<Rightarrow> (None, m, [])
      | Some a \<Rightarrow> (case oneshot_close (om_cells m a) of (st, ws) \<Rightarrow> (None, om_put a st m, ws)))"

definition os_sender_move_assign ::
  "bool \<Rightarrow> os_sender \<Rightarrow> os_sender \<Rightarrow> 'a oneshot_mem
     \<Rightarrow> os_sender \<times> os_sender \<times> 'a oneshot_mem \<times> wake list" where
  "os_sender_move_assign same self src m =
     (if same then (self, src, m, [])
      else case os_sender_close self m of (_, m', ws) \<Rightarrow> (src, None, m', ws))"

definition os_receiver_is_ready :: "os_receiver \<Rightarrow> 'a oneshot_mem \<Rightarrow> bool" where
  "os_receiver_is_ready self m =
     (case self of None \<Rightarrow> True | Some a \<Rightarrow> os_sent (om_cells m a) \<or> os_closed (om_cells m a))"

lemmas oneshot_defs =
  oneshot_fresh_def oneshot_close_locked_def oneshot_close_def oneshot_await_ready_def
  oneshot_await_suspend_def oneshot_await_resume_def oneshot_send_def oneshot_channel_def
  os_sender_send_def os_sender_close_def os_sender_move_assign_def os_receiver_is_ready_def
  oneshot_mem_empty_def

section \<open>The protocol of one channel\<close>

datatype 'a os_event =
    Os_send 'a
  | Os_drop
  | Os_poll
  | Os_suspend handle "executor option"
  | Os_resume

text \<open>
  \<open>oy_tx\<close> is the only sender handle (the class cannot be copied); \<open>Os_drop\<close> is \<open>close\<close>, the
  destructor, or a move assignment over the handle.  Ghost fields: the accepted values, the
  values handed out, and whether some \<open>recv\<close> has returned nothing.
\<close>

record 'a os_sys =
  oy_mem :: "'a oneshot_mem"
  oy_tx :: os_sender
  oy_phase :: phase
  oy_accepted :: "'a list"
  oy_got :: "'a list"
  oy_nothing :: bool
  oy_wakes_ok :: bool

definition os_init :: "'a os_sys" where
  "os_init =
     \<lparr>oy_mem = snd (oneshot_channel oneshot_mem_empty), oy_tx = Some 0, oy_phase = Rp_idle,
      oy_accepted = [], oy_got = [], oy_nothing = False, oy_wakes_ok = True\<rparr>"

definition oy_chan :: "'a os_sys \<Rightarrow> 'a oneshot_state" where
  "oy_chan s = om_cells (oy_mem s) 0"

definition oy_wake :: "wake list \<Rightarrow> 'a os_sys \<Rightarrow> 'a os_sys" where
  "oy_wake ws s =
     (case deliver ws (oy_phase s) of (ph, good) \<Rightarrow>
        s\<lparr>oy_phase := ph, oy_wakes_ok := (oy_wakes_ok s \<and> good)\<rparr>)"

fun os_step :: "'a os_event \<Rightarrow> 'a os_sys \<Rightarrow> 'a os_sys option" where
  "os_step (Os_send v) s =
     (case os_sender_send v (oy_tx s) (oy_mem s) of (acc, tx, m, ws) \<Rightarrow>
        Some (oy_wake ws (s\<lparr>oy_tx := tx, oy_mem := m,
                  oy_accepted := (if acc then oy_accepted s @ [v] else oy_accepted s)\<rparr>)))"
| "os_step Os_drop s =
     (case os_sender_close (oy_tx s) (oy_mem s) of (tx, m, ws) \<Rightarrow>
        Some (oy_wake ws (s\<lparr>oy_tx := tx, oy_mem := m\<rparr>)))"
| "os_step Os_poll s =
     (if oy_phase s = Rp_idle
      then Some (s\<lparr>oy_phase :=
                     (if oneshot_await_ready (oy_chan s) then Rp_ready else Rp_polled)\<rparr>)
      else None)"
| "os_step (Os_suspend h ex) s =
     (if oy_phase s = Rp_polled
      then (case oneshot_await_suspend h ex (oy_chan s) of (susp, st) \<Rightarrow>
              Some (s\<lparr>oy_mem := om_put 0 st (oy_mem s),
                      oy_phase := (if susp then Rp_suspended h ex else Rp_ready)\<rparr>))
      else None)"
| "os_step Os_resume s =
     (if oy_phase s = Rp_ready \<or> oy_phase s = Rp_woken
      then (case oneshot_await_resume (oy_chan s) of
              (None, st) \<Rightarrow>
                Some (s\<lparr>oy_mem := om_put 0 st (oy_mem s), oy_phase := Rp_idle,
                        oy_nothing := True\<rparr>)
            | (Some v, st) \<Rightarrow>
                Some (s\<lparr>oy_mem := om_put 0 st (oy_mem s), oy_phase := Rp_idle,
                        oy_got := oy_got s @ [v]\<rparr>))
      else None)"

text \<open>
  The invariant in three parts: the phase agrees with the waiter, the handle is attached exactly
  as long as the cell is unsettled, and the cell's value is the accepted one not yet taken.
\<close>

definition os_phase_ok :: "phase \<Rightarrow> 'a oneshot_state \<Rightarrow> bool" where
  "os_phase_ok ph c \<longleftrightarrow>
     (case ph of
        Rp_suspended h ex \<Rightarrow>
          os_waiter c = Some h \<and> os_waiter_ex c = ex \<and> \<not> os_sent c \<and> \<not> os_closed c
      | _ \<Rightarrow> os_waiter c = None \<and> os_waiter_ex c = None) \<and>
     (ph = Rp_ready \<or> ph = Rp_woken \<longrightarrow> os_sent c \<or> os_closed c)"

definition os_owner_ok :: "os_sender \<Rightarrow> 'a oneshot_state \<Rightarrow> bool" where
  "os_owner_ok tx c \<longleftrightarrow>
     (case tx of
        Some a \<Rightarrow> a = 0 \<and> \<not> os_sent c \<and> \<not> os_closed c
      | None \<Rightarrow> (if os_sent c then \<not> os_closed c else os_closed c))"

definition os_value_ok :: "'a list \<Rightarrow> 'a list \<Rightarrow> bool \<Rightarrow> 'a oneshot_state \<Rightarrow> bool" where
  "os_value_ok acc got nothing c \<longleftrightarrow>
     (if os_sent c
      then length acc = 1 \<and>
           (case os_value c of Some v \<Rightarrow> got = [] \<and> acc = [v] | None \<Rightarrow> got = acc)
      else acc = [] \<and> got = [] \<and> os_value c = None) \<and>
     (nothing \<longrightarrow> os_closed c \<or> got \<noteq> [])"

lemmas os_ok_defs = os_phase_ok_def os_owner_ok_def os_value_ok_def

definition os_inv :: "'a os_sys \<Rightarrow> bool" where
  "os_inv s \<longleftrightarrow>
     os_phase_ok (oy_phase s) (oy_chan s) \<and>
     os_owner_ok (oy_tx s) (oy_chan s) \<and>
     os_value_ok (oy_accepted s) (oy_got s) (oy_nothing s) (oy_chan s) \<and>
     oy_wakes_ok s"

lemma os_send_ok:
  assumes "os_phase_ok ph c" and "os_owner_ok (Some 0) c" and "os_value_ok acc got e c"
    and "oneshot_send v c = (ok, c', ws)"
  shows "ok \<and> os_owner_ok None c' \<and> os_value_ok (acc @ [v]) got e c' \<and>
    snd (deliver ws ph) \<and> os_phase_ok (fst (deliver ws ph)) c'"
  using assms by (cases ph) (auto simp: os_ok_defs oneshot_send_def)

lemma os_close_ok:
  assumes "os_phase_ok ph c" and "os_owner_ok (Some 0) c" and "os_value_ok acc got e c"
    and "oneshot_close c = (c', ws)"
  shows "os_owner_ok None c' \<and> os_value_ok acc got e c' \<and>
    snd (deliver ws ph) \<and> os_phase_ok (fst (deliver ws ph)) c'"
  using assms
  by (cases ph) (auto simp: os_ok_defs oneshot_close_def oneshot_close_locked_def)

lemma os_suspend_ok:
  assumes "os_phase_ok Rp_polled c" and "os_owner_ok tx c" and "os_value_ok acc got e c"
    and "oneshot_await_suspend h ex c = (susp, c')"
  shows "os_owner_ok tx c' \<and> os_value_ok acc got e c' \<and>
    os_phase_ok (if susp then Rp_suspended h ex else Rp_ready) c'"
  using assms
  by (cases tx) (auto simp: os_ok_defs oneshot_await_suspend_def split: if_splits)

lemma os_resume_ok:
  assumes "os_phase_ok ph c" and "ph = Rp_ready \<or> ph = Rp_woken"
    and "os_owner_ok tx c" and "os_value_ok acc got e c"
    and "oneshot_await_resume c = (r, c')"
  shows "os_owner_ok tx c' \<and> os_phase_ok Rp_idle c' \<and>
    (case r of None \<Rightarrow> os_value_ok acc got True c' | Some v \<Rightarrow> os_value_ok acc (got @ [v]) e c')"
  using assms(1,2,3,5,4)
  by (cases "os_value c"; cases "os_sent c")
    (auto simp: os_ok_defs oneshot_await_resume_def split: option.splits)

lemma os_inv_init: "os_inv os_init"
  by (simp add: os_inv_def os_ok_defs os_init_def oy_chan_def oneshot_defs Let_def)

lemma os_inv_send: "os_inv s \<Longrightarrow> os_step (Os_send v) s = Some t \<Longrightarrow> os_inv t"
proof (cases "oy_tx s")
  case None
  moreover assume "os_inv s" "os_step (Os_send v) s = Some t"
  ultimately show ?thesis
    by (simp add: os_sender_send_def oy_wake_def) (auto simp: os_inv_def oy_chan_def)
next
  case (Some a)
  moreover assume inv: "os_inv s" and st: "os_step (Os_send v) s = Some t"
  ultimately have tx: "oy_tx s = Some 0" by (auto simp: os_inv_def os_owner_ok_def)
  obtain ok c' ws where snd: "oneshot_send v (oy_chan s) = (ok, c', ws)" by (metis prod_cases3)
  with inv tx have "ok" "os_owner_ok None c'"
    "os_value_ok (oy_accepted s @ [v]) (oy_got s) (oy_nothing s) c'"
    "snd (deliver ws (oy_phase s))" "os_phase_ok (fst (deliver ws (oy_phase s))) c'"
    using os_send_ok [OF _ _ _ snd, of "oy_phase s" "oy_accepted s" "oy_got s" "oy_nothing s"]
    by (auto simp: os_inv_def)
  then show ?thesis
    using st tx snd inv
    by (auto simp: os_sender_send_def oy_wake_def os_inv_def oy_chan_def split: prod.splits)
qed

lemma os_inv_drop: "os_inv s \<Longrightarrow> os_step Os_drop s = Some t \<Longrightarrow> os_inv t"
proof (cases "oy_tx s")
  case None
  moreover assume "os_inv s" "os_step Os_drop s = Some t"
  ultimately show ?thesis
    by (simp add: os_sender_close_def oy_wake_def) (auto simp: os_inv_def oy_chan_def)
next
  case (Some a)
  moreover assume inv: "os_inv s" and st: "os_step Os_drop s = Some t"
  ultimately have tx: "oy_tx s = Some 0" by (auto simp: os_inv_def os_owner_ok_def)
  obtain c' ws where cl: "oneshot_close (oy_chan s) = (c', ws)" by fastforce
  with inv tx have "os_owner_ok None c'"
    "os_value_ok (oy_accepted s) (oy_got s) (oy_nothing s) c'"
    "snd (deliver ws (oy_phase s))" "os_phase_ok (fst (deliver ws (oy_phase s))) c'"
    using os_close_ok [OF _ _ _ cl, of "oy_phase s" "oy_accepted s" "oy_got s" "oy_nothing s"]
    by (auto simp: os_inv_def)
  then show ?thesis
    using st tx cl inv
    by (auto simp: os_sender_close_def oy_wake_def os_inv_def oy_chan_def split: prod.splits)
qed

lemma os_inv_poll: "os_inv s \<Longrightarrow> os_step Os_poll s = Some t \<Longrightarrow> os_inv t"
  by (auto simp: os_inv_def oy_chan_def oneshot_await_ready_def os_phase_ok_def
      split: if_splits)

lemma os_inv_suspend: "os_inv s \<Longrightarrow> os_step (Os_suspend h ex) s = Some t \<Longrightarrow> os_inv t"
  using os_suspend_ok [of "oy_chan s" "oy_tx s" "oy_accepted s" "oy_got s" "oy_nothing s" h ex]
  by (auto simp: os_inv_def oy_chan_def split: if_splits prod.splits)

lemma os_inv_resume: "os_inv s \<Longrightarrow> os_step Os_resume s = Some t \<Longrightarrow> os_inv t"
  using os_resume_ok [of "oy_phase s" "oy_chan s" "oy_tx s" "oy_accepted s" "oy_got s"
      "oy_nothing s"]
  by (auto simp: os_inv_def oy_chan_def split: if_splits prod.splits option.splits)

lemma os_inv_step: "os_inv s \<Longrightarrow> os_step l s = Some t \<Longrightarrow> os_inv t"
  by (cases l)
    (blast intro: os_inv_send os_inv_drop os_inv_poll os_inv_suspend os_inv_resume)+

interpretation oneshot_sys: machine os_step os_init os_inv
  by unfold_locales (blast intro: os_inv_init os_inv_step)+

text \<open>
  C25: a oneshot delivers at most one value, and only the one that was accepted.  At most one
  \<open>send\<close> is accepted; what receivers have been given is a prefix of the accepted values; a
  receiver is told "nothing" only when the sender went away without sending or the value has
  already been taken.
\<close>

theorem oneshot_at_most_once:
  assumes "reachable os_step os_init s"
  shows "length (oy_accepted s) \<le> 1 \<and>
    (oy_got s = [] \<or> oy_got s = oy_accepted s) \<and>
    (oy_nothing s \<longrightarrow> oy_got s = oy_accepted s \<and> oy_tx s = None)"
  using oneshot_sys.reachable_inv [OF assms]
  by (auto simp: os_inv_def os_owner_ok_def os_value_ok_def split: if_splits option.splits)

definition demo_oneshot :: "nat os_event list" where
  "demo_oneshot = [Os_poll, Os_suspend 3 None, Os_send 42, Os_send 43, Os_resume, Os_drop,
     Os_poll, Os_resume]"

lemmas os_run_simps = demo_oneshot_def os_init_def oy_wake_def oy_chan_def deliver_def oneshot_defs

lemma demo_oneshot_suspended:
  "\<exists>s. run os_step os_init (take 2 demo_oneshot) = Some s \<and> oy_phase s = Rp_suspended 3 None"
  by (simp add: os_run_simps)

lemma demo_oneshot_finished:
  "\<exists>s. run os_step os_init demo_oneshot = Some s \<and> oy_nothing s \<and> oy_accepted s = [42]"
  by (simp add: os_run_simps)

theorem oneshot_at_most_once_witness:
  "\<exists>s. run os_step os_init demo_oneshot = Some s \<and> oy_got s = [42] \<and> oy_tx s = None"
proof -
  from demo_oneshot_finished obtain s where s: "run os_step os_init demo_oneshot = Some s"
    and e: "oy_nothing s" "oy_accepted s = [42]" by blast
  from oneshot_at_most_once [OF run_reachable [OF s]] e have "oy_got s = [42]" "oy_tx s = None"
    by simp_all
  with s show ?thesis by blast
qed

text \<open>
  C26: a receiver never waits on a settled oneshot.  While the receiving coroutine is suspended
  the sender handle is still attached and the cell still holds the coroutine, so either the send
  or the destruction of the sender will resume it, on the executor it suspended with; and no
  wake is ever delivered to a coroutine that is not suspended.
\<close>

theorem oneshot_no_lost_wakeup:
  assumes "reachable os_step os_init s"
  shows "oy_wakes_ok s \<and>
    (\<forall>h ex. oy_phase s = Rp_suspended h ex \<longrightarrow>
       oy_tx s = Some 0 \<and> os_waiter (oy_chan s) = Some h \<and> os_waiter_ex (oy_chan s) = ex)"
  using oneshot_sys.reachable_inv [OF assms]
  by (auto simp: os_inv_def os_owner_ok_def os_phase_ok_def split: if_splits option.splits)

theorem oneshot_no_lost_wakeup_witness:
  "\<exists>s. run os_step os_init (take 2 demo_oneshot) = Some s \<and>
     oy_phase s = Rp_suspended 3 None \<and> os_waiter (oy_chan s) = Some 3 \<and> oy_tx s = Some 0"
proof -
  from demo_oneshot_suspended obtain s
    where s: "run os_step os_init (take 2 demo_oneshot) = Some s"
      and ph: "oy_phase s = Rp_suspended 3 None" by blast
  from oneshot_no_lost_wakeup [OF run_reachable [OF s]] ph
  have "os_waiter (oy_chan s) = Some 3" "oy_tx s = Some 0" by blast+
  with s ph show ?thesis by blast
qed

section \<open>The reply cell as an interface\<close>

text \<open>
  What the job scheduler relies on: a reply is accepted once, a settled cell refuses every
  further one, and dropping the sender settles the cell without a value.
\<close>

locale reply_cell =
  fixes value_of :: "'c \<Rightarrow> 'a option"
    and settled :: "'c \<Rightarrow> bool"
    and reply :: "'a \<Rightarrow> 'c \<Rightarrow> bool \<times> 'c"
    and abandon :: "'c \<Rightarrow> 'c"
  assumes reply_open: "\<not> settled c \<Longrightarrow>
      fst (reply v c) \<and> value_of (snd (reply v c)) = Some v \<and> settled (snd (reply v c))"
    and reply_settled: "settled c \<Longrightarrow> reply v c = (False, c)"
    and abandon_settled: "settled c \<Longrightarrow> abandon c = c"
    and abandon_open: "\<not> settled c \<Longrightarrow>
      settled (abandon c) \<and> value_of (abandon c) = value_of c"
begin

lemma first_reply_wins: "\<not> settled c \<Longrightarrow> reply w (snd (reply v c)) = (False, snd (reply v c))"
  using reply_open reply_settled by blast

lemma reply_then_abandon: "\<not> settled c \<Longrightarrow> abandon (snd (reply v c)) = snd (reply v c)"
  using reply_open abandon_settled by blast

lemma abandon_then_reply: "reply v (abandon c) = (False, abandon c)"
  using abandon_open abandon_settled reply_settled by (cases "settled c") metis+

lemma settled_stays: "settled c \<Longrightarrow> settled (snd (reply v c)) \<and> settled (abandon c)"
  using reply_settled abandon_settled by simp

end

interpretation oneshot_reply: reply_cell os_value "\<lambda>c. os_sent c \<or> os_closed c"
  "\<lambda>v c. case oneshot_send v c of (acc, c', _) \<Rightarrow> (acc, c')" "\<lambda>c. fst (oneshot_close c)"
  by unfold_locales
    (auto simp: oneshot_send_def oneshot_close_def oneshot_close_locked_def)

end
