(* ===== verification/JsApi.thy ===== *)
theory JsApi
  imports Prelude
begin

text \<open>
  QuickJS is not part of the repository: the functions of its C API that the runtime calls are
  the fields of a record \<open>js\<close>, an argument of every definition that uses them.  \<open>'v\<close> is
  \<open>JSValue\<close>, \<open>'h\<close> the state of one JS runtime (heap, pending jobs, pending exception); a call
  that can run JS code or raise takes and returns \<open>'h\<close>.

  On top of it this theory models \<open>qjs::Value\<close>, \<open>qjs::Ctx\<close>, \<open>Runtime::drain_jobs\<close> and
  \<open>PromiseCapability\<close> of \<open>src/qjs.hpp\<close>.  A \<open>qjs::Value\<close> is \<open>None\<close> when it is default
  constructed (no context, value undefined).
\<close>

datatype promise_state = PS_not_a_promise | PS_pending | PS_fulfilled | PS_rejected

record ('v, 'h) js =
  js_undefined :: 'v
  js_global :: 'v
  js_is_exception :: "'v \<Rightarrow> bool"
  js_is_undefined :: "'v \<Rightarrow> bool"
  js_is_null :: "'v \<Rightarrow> bool"
  js_is_string :: "'v \<Rightarrow> bool"
  js_is_object :: "'v \<Rightarrow> bool"
  js_is_number :: "'v \<Rightarrow> bool"
  js_is_bool :: "'v \<Rightarrow> bool"
  js_is_function :: "'v \<Rightarrow> bool"
  js_is_array_buffer :: "'v \<Rightarrow> bool"
  js_is_array :: "'v \<Rightarrow> bool"
  js_get_array_buffer :: "'v \<Rightarrow> 'h \<Rightarrow> bytes option \<times> 'h"
  js_get_uint8_array :: "'v \<Rightarrow> 'h \<Rightarrow> bytes option \<times> 'h"
  js_to_cstring :: "'v \<Rightarrow> 'h \<Rightarrow> string option \<times> 'h"
  js_to_int32 :: "'v \<Rightarrow> 'h \<Rightarrow> 32 word option \<times> 'h"
  js_to_int64 :: "'v \<Rightarrow> 'h \<Rightarrow> 64 word option \<times> 'h"
  js_to_bool :: "'v \<Rightarrow> 'h \<Rightarrow> int \<times> 'h"
  js_new_string :: "string \<Rightarrow> 'h \<Rightarrow> 'v \<times> 'h"
  js_new_uint8_array :: "bytes \<Rightarrow> 'h \<Rightarrow> 'v \<times> 'h"
  js_parse_json :: "string \<Rightarrow> 'h \<Rightarrow> 'v \<times> 'h"
  js_json_stringify :: "'v \<Rightarrow> 'h \<Rightarrow> 'v \<times> 'h"
  js_get_property :: "'v \<Rightarrow> string \<Rightarrow> 'h \<Rightarrow> 'v \<times> 'h"
  js_call :: "'v \<Rightarrow> 'v \<Rightarrow> 'v list \<Rightarrow> 'h \<Rightarrow> 'v \<times> 'h"
  js_get_exception :: "'h \<Rightarrow> 'v \<times> 'h"
  js_throw_type_error :: "string \<Rightarrow> 'h \<Rightarrow> 'h"
  js_promise_state :: "'v \<Rightarrow> 'h \<Rightarrow> promise_state"
  js_promise_result :: "'v \<Rightarrow> 'h \<Rightarrow> 'v \<times> 'h"
  js_bridge_fn :: "64 word \<Rightarrow> int \<Rightarrow> 'h \<Rightarrow> 'v \<times> 'h"
  js_job_pending :: "'h \<Rightarrow> bool"
  js_execute_job :: "'h \<Rightarrow> bool \<times> 'h"

type_synonym 'v qvalue = "'v option"

text \<open>\<open>std::string out(s)\<close> from a \<open>const char*\<close> stops at the first NUL byte.\<close>

definition nul :: char where
  "nul = CHR 0x00"

definition cstr :: "string \<Rightarrow> string" where
  "cstr s = takeWhile (\<lambda>c. c \<noteq> nul) s"

lemma cstr_no_nul [text_simps]: "nul \<notin> set s \<Longrightarrow> cstr s = s"
  unfolding cstr_def by (rule takeWhile_eq_all_conv [THEN iffD2]) auto

lemma cstr_cut: "nul \<notin> set a \<Longrightarrow> cstr (a @ nul # b) = a"
  unfolding cstr_def by (induction a) auto

lemma cstr_has_no_nul [simp]: "nul \<notin> set (cstr s)"
  unfolding cstr_def by (auto dest: set_takeWhileD)

lemma cstr_idem [simp]: "cstr (cstr s) = cstr s"
  by (rule cstr_no_nul) simp

section \<open>qjs::Value\<close>

definition q_is_exception :: "('v, 'h, 'x) js_scheme \<Rightarrow> 'v qvalue \<Rightarrow> bool" where
  "q_is_exception J q = (case q of None \<Rightarrow> False | Some v \<Rightarrow> js_is_exception J v)"

definition q_is_function :: "('v, 'h, 'x) js_scheme \<Rightarrow> 'v qvalue \<Rightarrow> bool" where
  "q_is_function J q = (case q of None \<Rightarrow> False | Some v \<Rightarrow> js_is_function J v)"

definition q_is_undefined :: "('v, 'h, 'x) js_scheme \<Rightarrow> 'v qvalue \<Rightarrow> bool" where
  "q_is_undefined J q = (case q of None \<Rightarrow> True | Some v \<Rightarrow> js_is_undefined J v)"

definition q_is_string :: "('v, 'h, 'x) js_scheme \<Rightarrow> 'v qvalue \<Rightarrow> bool" where
  "q_is_string J q = (case q of None \<Rightarrow> False | Some v \<Rightarrow> js_is_string J v)"

definition q_raw :: "('v, 'h, 'x) js_scheme \<Rightarrow> 'v qvalue \<Rightarrow> 'v" where
  "q_raw J q = (case q of None \<Rightarrow> js_undefined J | Some v \<Rightarrow> v)"

definition q_to_std_string ::
  "('v, 'h, 'x) js_scheme \<Rightarrow> 'v qvalue \<Rightarrow> 'h \<Rightarrow> string option \<times> 'h" where
  "q_to_std_string J q h =
     (case q of
        None \<Rightarrow> (None, h)
      | Some v \<Rightarrow> (case js_to_cstring J v h of (s, h') \<Rightarrow> (map_option cstr s, h')))"

definition q_to_int32 ::
  "('v, 'h, 'x) js_scheme \<Rightarrow> 'v qvalue \<Rightarrow> 'h \<Rightarrow> 32 word option \<times> 'h" where
  "q_to_int32 J q h = (case q of None \<Rightarrow> (None, h) | Some v \<Rightarrow> js_to_int32 J v h)"

definition q_is_array_buffer :: "('v, 'h, 'x) js_scheme \<Rightarrow> 'v qvalue \<Rightarrow> bool" where
  "q_is_array_buffer J q = (case q of None \<Rightarrow> False | Some v \<Rightarrow> js_is_array_buffer J v)"

definition q_is_uint8_array ::
  "('v, 'h, 'x) js_scheme \<Rightarrow> 'v qvalue \<Rightarrow> 'h \<Rightarrow> bool \<times> 'h" where
  "q_is_uint8_array J q h =
     (case q of
        None \<Rightarrow> (False, h)
      | Some v \<Rightarrow> (case js_get_uint8_array J v h of (d, h') \<Rightarrow> (d \<noteq> None, h')))"

definition q_is_binary_view ::
  "('v, 'h, 'x) js_scheme \<Rightarrow> 'v qvalue \<Rightarrow> 'h \<Rightarrow> bool \<times> 'h" where
  "q_is_binary_view J q h =
     (if q_is_array_buffer J q then (True, h) else q_is_uint8_array J q h)"

definition q_to_bytes :: "('v, 'h, 'x) js_scheme \<Rightarrow> 'v qvalue \<Rightarrow> 'h \<Rightarrow> bytes \<times> 'h" where
  "q_to_bytes J q h =
     (case q of
        None \<Rightarrow> ([], h)
      | Some v \<Rightarrow>
          (case (if js_is_array_buffer J v then js_get_array_buffer J v h
                 else js_get_uint8_array J v h) of
             (d, h') \<Rightarrow> (case d of None \<Rightarrow> [] | Some b \<Rightarrow> b, h')))"

definition q_get :: "('v, 'h, 'x) js_scheme \<Rightarrow> 'v qvalue \<Rightarrow> string \<Rightarrow> 'h \<Rightarrow> 'v qvalue \<times> 'h" where
  "q_get J q name h =
     (case js_get_property J (q_raw J q) name h of (v, h') \<Rightarrow> (Some v, h'))"

definition q_call ::
  "('v, 'h, 'x) js_scheme \<Rightarrow> 'v qvalue \<Rightarrow> 'v qvalue list \<Rightarrow> 'h \<Rightarrow> 'v qvalue \<times> 'h" where
  "q_call J f args h =
     (case js_call J (q_raw J f) (js_undefined J) (map (q_raw J) args) h of
        (v, h') \<Rightarrow> (Some v, h'))"

definition q_call_on ::
  "('v, 'h, 'x) js_scheme \<Rightarrow> 'v qvalue \<Rightarrow> 'v qvalue \<Rightarrow> 'v qvalue list \<Rightarrow> 'h
     \<Rightarrow> 'v qvalue \<times> 'h" where
  "q_call_on J f this args h =
     (case js_call J (q_raw J f) (q_raw J this) (map (q_raw J) args) h of
        (v, h') \<Rightarrow> (Some v, h'))"

definition q_dump_exception :: "('v, 'h, 'x) js_scheme \<Rightarrow> 'h \<Rightarrow> 'h" where
  "q_dump_exception J h =
     (case js_get_exception J h of (e, h') \<Rightarrow> snd (q_to_std_string J (Some e) h'))"

section \<open>Runtime::drain_jobs\<close>

text \<open>
  The microtask loop returns only if the queue empties; \<open>None\<close> is a loop that never does.  The
  flag is \<open>false\<close> once a job has thrown.
\<close>

partial_function (option) drain_loop ::
  "('v, 'h, 'x) js_scheme \<Rightarrow> bool \<Rightarrow> 'h \<Rightarrow> (bool \<times> 'h) option" where
  "drain_loop J good h =
     (if js_job_pending J h
      then (case js_execute_job J h of
              (threw, h') \<Rightarrow>
                drain_loop J (good \<and> \<not> threw) (if threw then q_dump_exception J h' else h'))
      else Some (good, h))"

definition drain_jobs :: "('v, 'h, 'x) js_scheme \<Rightarrow> 'h \<Rightarrow> (bool \<times> 'h) option" where
  "drain_jobs J h = drain_loop J True h"

lemma drain_jobs_idle: "\<not> js_job_pending J h \<Longrightarrow> drain_jobs J h = Some (True, h)"
  by (simp add: drain_jobs_def drain_loop.simps)

lemma drain_loop_empties:
  assumes ret: "drain_loop J g h = Some r"
  shows "\<not> js_job_pending J (snd r)"
proof (rule drain_loop.raw_induct [where P = "\<lambda>J g h r. \<not> js_job_pending J (snd r)", OF _ ret])
  fix f J g h r
  assume IH: "\<And>J g h r. f J g h = Some r \<Longrightarrow> \<not> js_job_pending J (snd r)"
    and eq: "(if js_job_pending J h
       then (case js_execute_job J h of
               (threw, h') \<Rightarrow> f J (g \<and> \<not> threw) (if threw then q_dump_exception J h' else h'))
       else Some (g, h)) = Some r"
  show "\<not> js_job_pending J (snd r)"
  proof (cases "js_job_pending J h")
    case True
    with eq IH show ?thesis by (auto split: prod.splits)
  next
    case False
    with eq show ?thesis by auto
  qed
qed

lemma drain_jobs_empties: "drain_jobs J h = Some (g, h') \<Longrightarrow> \<not> js_job_pending J h'"
  using drain_loop_empties [of J True h "(g, h')"] by (simp add: drain_jobs_def)

end
