(* ===== verification/Job.thy ===== *)
theory Job
  imports Oneshot JsApi
begin

text \<open>
  The wire types of \<open>src/job.hpp\<close> that cross a host boundary, and their factories.
\<close>

datatype args_kind = AK_None | AK_String | AK_Object | AK_Bytes

datatype result_kind = RK_OkString | RK_OkBytes | RK_Err | RK_Cancelled

record args =
  ar_kind :: args_kind
  ar_str :: string
  ar_bytes :: bytes

definition default_args :: args where
  "default_args = \<lparr>ar_kind = AK_None, ar_str = [], ar_bytes = []\<rparr>"

definition make_none :: args where
  "make_none = default_args"

definition make_string :: "string \<Rightarrow> args" where
  "make_string s = default_args\<lparr>ar_kind := AK_String, ar_str := s\<rparr>"

definition make_object_json :: "string \<Rightarrow> args" where
  "make_object_json s = default_args\<lparr>ar_kind := AK_Object, ar_str := s\<rparr>"

definition make_bytes :: "bytes \<Rightarrow> args" where
  "make_bytes b = default_args\<lparr>ar_kind := AK_Bytes, ar_bytes := b\<rparr>"

record result =
  re_kind :: result_kind
  re_str :: string
  re_bytes :: bytes

definition default_result :: result where
  "default_result = \<lparr>re_kind = RK_Err, re_str = [], re_bytes = []\<rparr>"

definition make_ok_string :: "string \<Rightarrow> result" where
  "make_ok_string s = default_result\<lparr>re_kind := RK_OkString, re_str := s\<rparr>"

definition make_ok_bytes :: "bytes \<Rightarrow> result" where
  "make_ok_bytes b = default_result\<lparr>re_kind := RK_OkBytes, re_bytes := b\<rparr>"

definition make_err :: "string \<Rightarrow> result" where
  "make_err msg = default_result\<lparr>re_kind := RK_Err, re_str := msg\<rparr>"

definition make_cancelled :: result where
  "make_cancelled = default_result\<lparr>re_kind := RK_Cancelled\<rparr>"

definition is_ok :: "result \<Rightarrow> bool" where
  "is_ok r = (re_kind r = RK_OkString \<or> re_kind r = RK_OkBytes)"

lemmas job_make_defs =
  default_args_def make_none_def make_string_def make_object_json_def make_bytes_def
  default_result_def make_ok_string_def make_ok_bytes_def make_err_def make_cancelled_def

lemma make_kinds [simp]:
  "re_kind (make_ok_string s) = RK_OkString" "re_str (make_ok_string s) = s"
  "re_bytes (make_ok_string s) = []"
  "re_kind (make_ok_bytes b) = RK_OkBytes" "re_str (make_ok_bytes b) = []"
  "re_bytes (make_ok_bytes b) = b"
  "re_kind (make_err m) = RK_Err" "re_str (make_err m) = m" "re_bytes (make_err m) = []"
  "re_kind make_cancelled = RK_Cancelled"
  by (simp_all add: job_make_defs)

lemma make_arg_fields [simp]:
  "ar_kind make_none = AK_None"
  "ar_kind (make_string s) = AK_String" "ar_str (make_string s) = s"
  "ar_kind (make_object_json s) = AK_Object" "ar_str (make_object_json s) = s"
  "ar_kind (make_bytes b) = AK_Bytes" "ar_bytes (make_bytes b) = b"
  by (simp_all add: job_make_defs)

text \<open>\<open>cancelled\<close> is a \<open>shared_ptr<atomic_bool>\<close>: the address of a flag, possibly null.\<close>

record job =
  j_task_id :: "64 word"
  j_fn_name :: string
  j_args :: args
  j_reply :: os_sender
  j_cancelled :: "nat option"

end
