(* ===== verification/JobExec.thy ===== *)
theory JobExec
  imports Job
begin

text \<open>
  What happens to one job on the host thread (\<open>src/host_manager.cpp\<close>): arguments are decoded
  into JS values, the function is called, a returned promise is awaited through the bridge
  table, and the outcome is encoded back into the wire format.  \<open>execute_job\<close> is cut where the
  coroutine can suspend: \<open>exec_start\<close> runs up to the reply or the wait for bridge \<open>id\<close>,
  \<open>exec_resume\<close> runs from the settlement of that bridge to the reply.
\<close>

section \<open>The bridge table\<close>

record bridge_tbl =
  br_next :: "64 word"
  br_live :: "64 word set"

definition bridge_init :: bridge_tbl where
  "bridge_init = \<lparr>br_next = 1, br_live = {}\<rparr>"

definition bridge_open :: "bridge_tbl \<Rightarrow> bridge_tbl" where
  "bridge_open b = b\<lparr>br_next := br_next b + 1, br_live := insert (br_next b) (br_live b)\<rparr>"

definition bridge_erase :: "64 word \<Rightarrow> bridge_tbl \<Rightarrow> bridge_tbl" where
  "bridge_erase i b = b\<lparr>br_live := br_live b - {i}\<rparr>"

text \<open>
  The settlement callback of promise bridge \<open>id\<close>: \<open>magic\<close> is 0 on the fulfilment side, 1 on the
  rejection side; the result is what the awaiting coroutine resumes with, if it is still there.
\<close>

definition bridge_on_settle ::
  "64 word \<Rightarrow> int \<Rightarrow> 'v list \<Rightarrow> bridge_tbl \<Rightarrow> bridge_tbl \<times> (bool \<times> 'v qvalue) option" where
  "bridge_on_settle i magic argv b =
     (if i \<notin> br_live b then (b, None)
      else (bridge_erase i b,
            Some (magic = 0, case argv of [] \<Rightarrow> None | a # _ \<Rightarrow> Some a)))"

section \<open>Arguments in, results out\<close>

definition decode_args ::
  "('v, 'h, 'x) js_scheme \<Rightarrow> args \<Rightarrow> 'h \<Rightarrow> (string + 'v qvalue) \<times> 'h" where
  "decode_args J a h =
     (case ar_kind a of
        AK_None \<Rightarrow> (Inr None, h)
      | AK_String \<Rightarrow> (case js_new_string J (ar_str a) h of (v, h') \<Rightarrow> (Inr (Some v), h'))
      | AK_Object \<Rightarrow>
          (case js_parse_json J (ar_str a) h of
             (v, h') \<Rightarrow>
               if js_is_exception J v
               then (Inl ''job args Object: JSON.parse failed'', q_dump_exception J h')
               else (Inr (Some v), h'))
      | AK_Bytes \<Rightarrow>
          (case js_new_uint8_array J (ar_bytes a) h of (v, h') \<Rightarrow> (Inr (Some v), h')))"

definition encode_bytes ::
  "('v, 'h, 'x) js_scheme \<Rightarrow> 'v qvalue \<Rightarrow> 'h \<Rightarrow> result \<times> 'h" where
  "encode_bytes J ret h =
     (case q_to_bytes J ret h of
        (span, h1) \<Rightarrow>
          if span = [] \<and> \<not> q_is_array_buffer J ret
          then (case q_is_uint8_array J ret h1 of
                  (u8, h2) \<Rightarrow>
                    if u8 then (make_ok_bytes span, h2)
                    else (make_err ''failed to read binary result'', h2))
          else (make_ok_bytes span, h1))"

definition encode_json ::
  "('v, 'h, 'x) js_scheme \<Rightarrow> 'v qvalue \<Rightarrow> 'h \<Rightarrow> result \<times> 'h" where
  "encode_json J ret h =
     (case js_json_stringify J (q_raw J ret) h of
        (json, h1) \<Rightarrow>
          if js_is_exception J json
          then (make_err ''JSON.stringify failed'', q_dump_exception J h1)
          else (case q_to_std_string J (Some json) h1 of
                  (None, h2) \<Rightarrow> (make_err ''JSON.stringify produced non-string'', h2)
                | (Some s, h2) \<Rightarrow> (make_ok_string s, h2)))"

definition encode_result ::
  "('v, 'h, 'x) js_scheme \<Rightarrow> 'v qvalue \<Rightarrow> 'h \<Rightarrow> result \<times> 'h" where
  "encode_result J ret h =
     (if q_is_exception J ret
      then (case js_get_exception J h of
              (exc, h1) \<Rightarrow>
                (case q_to_std_string J (Some exc) h1 of
                   (None, h2) \<Rightarrow> (make_err ''js exception'', h2)
                 | (Some msg, h2) \<Rightarrow> (make_err msg, h2)))
      else if q_is_undefined J ret \<or> js_is_null J (q_raw J ret) then (make_ok_string [], h)
      else (case q_is_binary_view J ret h of
              (bin, h1) \<Rightarrow>
                if bin then encode_bytes J ret h1
                else if q_is_string J ret
                then (case q_to_std_string J ret h1 of
                        (raw, h2) \<Rightarrow> (make_ok_string (case raw of None \<Rightarrow> [] | Some s \<Rightarrow> s), h2))
                else if js_is_object J (q_raw J ret) \<or> js_is_number J (q_raw J ret) \<or>
                        js_is_bool J (q_raw J ret)
                then encode_json J ret h1
                else (case q_to_std_string J ret h1 of
                        (Some s, h2) \<Rightarrow> (make_ok_string s, h2)
                      | (None, h2) \<Rightarrow> (make_err ''unsupported js return type'', h2))))"

section \<open>Awaiting a promise\<close>

datatype 'v await =
    Aw_value "'v qvalue"
  | Aw_throw string
  | Aw_pending "64 word"

definition await_pending ::
  "('v, 'h, 'x) js_scheme \<Rightarrow> bridge_tbl \<Rightarrow> 'v qvalue \<Rightarrow> 'h
     \<Rightarrow> ('v await \<times> bridge_tbl \<times> 'h) option" where
  "await_pending J b v h =
     (let i = br_next b; b1 = bridge_open b
      in case js_bridge_fn J i 0 h of (on_ok, h1) \<Rightarrow>
         (case js_bridge_fn J i 1 h1 of (on_err, h2) \<Rightarrow>
         (case q_get J v ''then'' h2 of (then_fn, h3) \<Rightarrow>
            if \<not> q_is_function J then_fn
            then Some (Aw_throw ''then is not a function on promise'', bridge_erase i b1, h3)
            else
              (case q_call_on J then_fn v [Some on_ok, Some on_err] h3 of (attach, h4) \<Rightarrow>
                 if q_is_exception J attach
                 then Some (Aw_throw ''promise.then failed'', bridge_erase i b1,
                            q_dump_exception J h4)
                 else (case drain_jobs J h4 of
                         None \<Rightarrow> None
                       | Some (_, h5) \<Rightarrow> Some (Aw_pending i, b1, h5))))))"

definition await_js_value ::
  "('v, 'h, 'x) js_scheme \<Rightarrow> bridge_tbl \<Rightarrow> 'v qvalue \<Rightarrow> 'h
     \<Rightarrow> ('v await \<times> bridge_tbl \<times> 'h) option" where
  "await_js_value J b v h =
     (case drain_jobs J h of
        None \<Rightarrow> None
      | Some (_, h1) \<Rightarrow>
          (case js_promise_state J (q_raw J v) h1 of
             PS_not_a_promise \<Rightarrow> Some (Aw_value v, b, h1)
           | PS_fulfilled \<Rightarrow>
               (case js_promise_result J (q_raw J v) h1 of
                  (r, h2) \<Rightarrow> Some (Aw_value (Some r), b, h2))
           | PS_rejected \<Rightarrow>
               (case js_promise_result J (q_raw J v) h1 of
                  (r, h2) \<Rightarrow>
                    (case q_to_std_string J (Some r) h2 of
                       (msg, h3) \<Rightarrow>
                         Some (Aw_throw (case msg of None \<Rightarrow> ''promise rejected'' | Some m \<Rightarrow> m),
                               b, h3)))
           | PS_pending \<Rightarrow> await_pending J b v h1))"

section \<open>execute_job\<close>

datatype exec_out = Ex_reply result | Ex_wait "64 word"

definition exec_await ::
  "('v, 'h, 'x) js_scheme \<Rightarrow> bridge_tbl \<Rightarrow> 'v qvalue \<Rightarrow> 'h
     \<Rightarrow> (exec_out \<times> bridge_tbl \<times> 'h) option" where
  "exec_await J b ret h =
     (if q_is_exception J ret
      then (case encode_result J ret h of (r, h1) \<Rightarrow> Some (Ex_reply r, b, h1))
      else (case await_js_value J b ret h of
              None \<Rightarrow> None
            | Some (Aw_value v, b1, h1) \<Rightarrow>
                (case encode_result J v h1 of (r, h2) \<Rightarrow> Some (Ex_reply r, b1, h2))
            | Some (Aw_throw m, b1, h1) \<Rightarrow> Some (Ex_reply (make_err m), b1, h1)
            | Some (Aw_pending i, b1, h1) \<Rightarrow> Some (Ex_wait i, b1, h1)))"

text \<open>The property lookup goes through \<open>c_str()\<close>; the error message names the full string.\<close>

definition exec_start ::
  "('v, 'h, 'x) js_scheme \<Rightarrow> bridge_tbl \<Rightarrow> string \<Rightarrow> args \<Rightarrow> bool \<Rightarrow> 'h
     \<Rightarrow> (exec_out \<times> bridge_tbl \<times> 'h) option" where
  "exec_start J b fn_name a cancelled h =
     (if cancelled then Some (Ex_reply make_cancelled, b, h)
      else (case q_get J (Some (js_global J)) (cstr fn_name) h of (fn, h1) \<Rightarrow>
              if \<not> q_is_function J fn
              then Some (Ex_reply (make_err (''function not found: '' @ fn_name)), b, h1)
              else if ar_kind a = AK_None
              then (case q_call J fn [] h1 of (ret, h2) \<Rightarrow> exec_await J b ret h2)
              else (case decode_args J a h1 of
                      (Inl e, h2) \<Rightarrow> Some (Ex_reply (make_err e), b, h2)
                    | (Inr arg, h2) \<Rightarrow>
                        (case q_call J fn [arg] h2 of (ret, h3) \<Rightarrow> exec_await J b ret h3))))"

text \<open>From the settlement \<open>(ok, val)\<close> of the bridge the job waits on to its reply.\<close>

definition exec_resume ::
  "('v, 'h, 'x) js_scheme \<Rightarrow> bool \<Rightarrow> 'v qvalue \<Rightarrow> 'h \<Rightarrow> result \<times> 'h" where
  "exec_resume J ok val h =
     (if \<not> ok
      then (case q_to_std_string J val h of
              (msg, h1) \<Rightarrow>
                (make_err (case msg of None \<Rightarrow> ''promise rejected'' | Some m \<Rightarrow> m), h1))
      else encode_result J val h)"

section \<open>The bridge table is an id table\<close>

definition bridge_ok :: "bridge_tbl \<Rightarrow> bool" where
  "bridge_ok b \<longleftrightarrow> (\<forall>i \<in> br_live b. unat i < unat (br_next b))"

definition bridge_room :: "bridge_tbl \<Rightarrow> bool" where
  "bridge_room b \<longleftrightarrow> unat (br_next b) < 2 ^ 64 - 1"

lemma unat_Suc64: "unat (w :: 64 word) < 2 ^ 64 - 1 \<Longrightarrow> unat (w + 1) = Suc (unat w)"
  by (simp add: unat_word_ariths)

interpretation bridges: id_table br_next br_live bridge_open bridge_erase bridge_ok bridge_room
  by unfold_locales
    (auto simp: bridge_ok_def bridge_room_def bridge_open_def bridge_erase_def unat_Suc64
      less_Suc_eq)

text \<open>
  A promise bridge fires at most once.  Once the settlement callback of bridge \<open>i\<close> has
  resumed its coroutine, every later callback of \<open>i\<close> (the other side of the promise, or a
  misbehaving thenable) does nothing, also after further bridges have been opened: the counter
  hands out a different id.
\<close>

theorem bridge_fires_once:
  assumes "bridge_ok b" and "bridge_room b"
    and "bridge_on_settle i m argv b = (b', Some r)"
  shows "bridge_on_settle i m' argv' b' = (b', None) \<and>
    bridge_on_settle i m' argv' (bridge_open b') = (bridge_open b', None)"
proof -
  have i: "i \<in> br_live b" and b': "b' = bridge_erase i b"
    using assms(3) by (auto simp: bridge_on_settle_def split: if_splits)
  have gone: "i \<notin> br_live b'" by (simp add: b' bridges.live_erase)
  moreover have "i \<noteq> br_next b'"
    using i bridges.key_fresh [OF assms(1)] by (auto simp: b' bridges.key_erase)
  ultimately have "i \<notin> br_live (bridge_open b')" by (simp add: bridges.live_alloc)
  with gone show ?thesis by (simp add: bridge_on_settle_def)
qed

theorem bridge_fires_once_witness:
  "\<exists>b'. bridge_on_settle 1 0 [True] (bridge_open bridge_init) = (b', Some (True, Some True)) \<and>
     bridge_on_settle 1 1 [False] b' = (b', None)"
proof -
  let ?b = "bridge_open bridge_init"
  have ok: "bridge_ok ?b" "bridge_room ?b"
    by (simp_all add: bridge_ok_def bridge_room_def bridge_open_def bridge_init_def)
  have st: "bridge_on_settle 1 0 [True] ?b = (bridge_erase 1 ?b, Some (True, Some True))"
    by (simp add: bridge_on_settle_def bridge_open_def bridge_init_def)
  show ?thesis using bridge_fires_once [OF ok st, of 1 "[False]"] st by auto
qed

section \<open>Results are well-formed wire values\<close>

definition wire_ok :: "result \<Rightarrow> bool" where
  "wire_ok r \<longleftrightarrow>
     (case re_kind r of
        RK_OkString \<Rightarrow> re_bytes r = [] \<and> nul \<notin> set (re_str r)
      | RK_OkBytes \<Rightarrow> re_str r = []
      | RK_Err \<Rightarrow> re_bytes r = []
      | RK_Cancelled \<Rightarrow> False)"

lemma wire_ok_makers [intro, simp]:
  "nul \<notin> set s \<Longrightarrow> wire_ok (make_ok_string s)"
  "wire_ok (make_ok_bytes b)"
  "wire_ok (make_err m)"
  by (simp_all add: wire_ok_def)

lemma q_to_std_string_no_nul:
  "q_to_std_string J q h = (Some s, h') \<Longrightarrow> nul \<notin> set s"
  by (auto simp: q_to_std_string_def split: option.splits prod.splits)

lemma encode_bytes_wire: "wire_ok (fst (encode_bytes J q h))"
  by (auto simp: encode_bytes_def split: prod.splits)

lemma encode_json_wire: "wire_ok (fst (encode_json J q h))"
  by (auto simp: encode_json_def dest: q_to_std_string_no_nul split: prod.splits option.splits)

lemma encode_result_wire: "wire_ok (fst (encode_result J q h))"
  using encode_bytes_wire [of J q] encode_json_wire [of J q]
  by (auto simp: encode_result_def dest: q_to_std_string_no_nul
      split: prod.splits option.splits)

lemma exec_await_wire:
  "exec_await J b q h = Some (Ex_reply r, b', h') \<Longrightarrow> wire_ok r"
  using encode_result_wire [of J]
  by (auto simp: exec_await_def split: prod.splits option.splits await.splits if_splits)
    (metis fst_conv)+

text \<open>
  C28: what a job replies.  A job cancelled before it starts replies \<open>Cancelled\<close> without touching
  the JS heap or the bridge table; any other job that replies at once replies a well-formed
  result (the payload of its kind only, text free of NUL bytes), never \<open>Cancelled\<close>.
\<close>

theorem exec_start_reply:
  assumes "exec_start J b fn_name a cancelled h = Some (Ex_reply r, b', h')"
  shows "if cancelled then r = make_cancelled \<and> b' = b \<and> h' = h else wire_ok r"
  using assms
  by (auto simp: exec_start_def dest: exec_await_wire split: prod.splits if_splits sum.splits)

text \<open>A small engine: strings, one function that returns its argument, nothing pending.\<close>

datatype toy = T_undef | T_str string | T_fun | T_global

definition toy_js :: "(toy, unit) js" where
  "toy_js =
     \<lparr>js_undefined = T_undef, js_global = T_global,
      js_is_exception = (\<lambda>v. False), js_is_undefined = (\<lambda>v. v = T_undef),
      js_is_null = (\<lambda>v. False), js_is_string = (\<lambda>v. case v of T_str s \<Rightarrow> True | _ \<Rightarrow> False),
      js_is_object = (\<lambda>v. v = T_fun \<or> v = T_global), js_is_number = (\<lambda>v. False),
      js_is_bool = (\<lambda>v. False), js_is_function = (\<lambda>v. v = T_fun),
      js_is_array_buffer = (\<lambda>v. False), js_is_array = (\<lambda>v. False),
      js_get_array_buffer = (\<lambda>v h. (None, h)), js_get_uint8_array = (\<lambda>v h. (None, h)),
      js_to_cstring = (\<lambda>v h. (case v of T_str s \<Rightarrow> Some s | _ \<Rightarrow> Some ''undefined'', h)),
      js_to_int32 = (\<lambda>v h. (None, h)), js_to_int64 = (\<lambda>v h. (None, h)),
      js_to_bool = (\<lambda>v h. (0, h)),
      js_new_string = (\<lambda>s h. (T_str s, h)), js_new_uint8_array = (\<lambda>b h. (T_undef, h)),
      js_parse_json = (\<lambda>s h. (T_undef, h)), js_json_stringify = (\<lambda>v h. (T_undef, h)),
      js_get_property = (\<lambda>v n h. (if v = T_global \<and> n = ''echo'' then T_fun else T_undef, h)),
      js_call = (\<lambda>f this args h. (case args of [] \<Rightarrow> T_undef | v # _ \<Rightarrow> v, h)),
      js_get_exception = (\<lambda>h. (T_undef, h)), js_throw_type_error = (\<lambda>m h. h),
      js_promise_state = (\<lambda>v h. PS_not_a_promise), js_promise_result = (\<lambda>v h. (T_undef, h)),
      js_bridge_fn = (\<lambda>i m h. (T_undef, h)), js_job_pending = (\<lambda>h. False),
      js_execute_job = (\<lambda>h. (False, h))\<rparr>"

lemma toy_idle: "\<not> js_job_pending toy_js h"
  by (simp add: toy_js_def)

lemmas toy_simps = toy_js_def q_get_def q_raw_def q_is_function_def

theorem exec_start_reply_witness:
  "exec_start toy_js bridge_init ''missing'' make_none False () =
     Some (Ex_reply (make_err ''function not found: missing''), bridge_init, ()) \<and>
   wire_ok (make_err ''function not found: missing'')"
proof -
  have st: "exec_start toy_js bridge_init ''missing'' make_none False () =
     Some (Ex_reply (make_err ''function not found: missing''), bridge_init, ())"
    by (simp add: exec_start_def toy_simps cstr_def nul_def)
  from exec_start_reply [OF st] st show ?thesis by simp
qed

section \<open>Strings make the round trip\<close>

text \<open>
  What the job protocol relies on in the engine: a string value keeps its kind and its text, a
  string is not a promise, and reading a string that is not a typed array fails cleanly.
\<close>

definition js_string_value :: "('v, 'h, 'x) js_scheme \<Rightarrow> string \<Rightarrow> 'v \<Rightarrow> bool" where
  "js_string_value J s v \<longleftrightarrow>
     js_is_string J v \<and> \<not> js_is_exception J v \<and> \<not> js_is_undefined J v \<and> \<not> js_is_null J v \<and>
     \<not> js_is_array_buffer J v \<and>
     (\<forall>h. fst (js_get_uint8_array J v h) = None) \<and>
     (\<forall>h. fst (js_to_cstring J v h) = Some s) \<and>
     (\<forall>h. js_promise_state J v h = PS_not_a_promise)"

definition js_strings_ok :: "('v, 'h, 'x) js_scheme \<Rightarrow> bool" where
  "js_strings_ok J \<longleftrightarrow> (\<forall>s h. js_string_value J s (fst (js_new_string J s h)))"

text \<open>A global function that returns its argument and leaves no microtask behind.\<close>

definition js_echo :: "('v, 'h, 'x) js_scheme \<Rightarrow> string \<Rightarrow> bool" where
  "js_echo J name \<longleftrightarrow>
     (\<forall>h. js_is_function J (fst (js_get_property J (js_global J) (cstr name) h))) \<and>
     (\<forall>h h' this v. fst (js_call J (fst (js_get_property J (js_global J) (cstr name) h))
                       this [v] h') = v) \<and>
     (\<forall>h h' this v. \<not> js_job_pending J
         (snd (js_call J (fst (js_get_property J (js_global J) (cstr name) h)) this [v] h')))"

lemma encode_result_string:
  assumes "js_string_value J s v"
  shows "fst (encode_result J (Some v) h) = make_ok_string (cstr s)"
proof -
  obtain h1 where u8: "js_get_uint8_array J v h = (None, h1)"
    using assms by (metis js_string_value_def prod.collapse)
  obtain h2 where cs: "js_to_cstring J v h1 = (Some s, h2)"
    using assms by (metis js_string_value_def prod.collapse)
  show ?thesis
    using assms u8 cs
    by (simp add: encode_result_def js_string_value_def q_is_exception_def q_is_undefined_def
        q_raw_def q_is_binary_view_def q_is_array_buffer_def q_is_uint8_array_def q_is_string_def
        q_to_std_string_def)
qed

text \<open>
  A string argument comes back as the same string, up to the first NUL byte.  With an engine
  that treats strings as documented, a job that passes a text to a function returning its argument
  replies \<open>OkString\<close> of that text cut at its first NUL; so for text without NUL bytes the round
  trip through JS is the identity, whatever the text looks like (it is never parsed as JSON).
\<close>

theorem string_job_round_trip:
  assumes "js_strings_ok J" and "js_echo J name"
  shows "\<exists>h'. exec_start J b name (make_string s) False h =
     Some (Ex_reply (make_ok_string (cstr s)), b, h')"
proof -
  obtain fn h1 where get: "js_get_property J (js_global J) (cstr name) h = (fn, h1)" by fastforce
  have fn: "js_is_function J fn" using assms(2) get by (metis js_echo_def fst_conv)
  obtain v h2 where new: "js_new_string J s h1 = (v, h2)" by fastforce
  have v: "js_string_value J s v" using assms(1) new by (metis js_strings_ok_def fst_conv)
  obtain h3 where call: "js_call J fn (js_undefined J) [v] h2 = (v, h3)"
    using assms(2) get by (metis js_echo_def fst_conv prod.collapse)
  have idle: "\<not> js_job_pending J h3"
    using assms(2) get call by (metis js_echo_def fst_conv snd_conv)
  obtain h4 where enc: "encode_result J (Some v) h3 = (make_ok_string (cstr s), h4)"
    using encode_result_string [OF v, of h3] by (metis prod.collapse)
  show ?thesis
    using get fn new call enc v drain_jobs_idle [OF idle]
    by (auto simp: exec_start_def q_get_def q_raw_def q_is_function_def decode_args_def q_call_def
        exec_await_def q_is_exception_def js_string_value_def await_js_value_def)
qed

theorem string_job_round_trip_witness:
  "\<exists>h'. exec_start toy_js bridge_init ''echo'' (make_string (''a'' @ nul # ''b'')) False () =
     Some (Ex_reply (make_ok_string ''a''), bridge_init, h')"
proof -
  have "js_strings_ok toy_js"
    by (simp add: js_strings_ok_def js_string_value_def toy_js_def)
  moreover have "js_echo toy_js ''echo''"
    by (simp add: js_echo_def toy_js_def cstr_def nul_def)
  ultimately show ?thesis
    using string_job_round_trip [of toy_js "''echo''" bridge_init "''a'' @ nul # ''b''" "()"]
    by (simp add: cstr_def nul_def)
qed

end
