(* ===== verification/HostManager.thy ===== *)
theory HostManager
  imports MpscHandles JobExec
begin

text \<open>
  \<open>HostManager\<close> (\<open>src/host_manager.hpp\<close>, \<open>src/host_manager.cpp\<close>): the table of hosts, \<open>submit\<close>
  and \<open>cancel\<close> from any thread, and on each host thread the dispatcher \<open>job_worker_loop\<close> with
  the coroutines it spawns.

  A host is its address; address \<open>h\<close> of \<open>mg_rt\<close> holds the run state of the host, the receiver
  its dispatcher owns, and the frames of \<open>run_one_job\<close> in \<open>hr_running\<close>.  Shared objects (job
  queues, reply cells, cancellation flags) live in memories of the manager state, so copies of a
  handle see the same object.  A call that takes the lock twice or works outside it is cut into
  its critical sections, so every interleaving of the threads is a sequence of events.  Fields
  marked ghost record history for the theorems and are read by no operation.
\<close>

section \<open>State\<close>

datatype stage = St_spawned | St_waiting "64 word" | St_replied

datatype worker = Wk_recv | Wk_hold job | Wk_done

record 'h host_rt =
  hr_rx :: receiver
  hr_worker :: worker
  hr_in_flight :: int
  hr_max :: int
  hr_pending_ops :: int
  hr_others :: int \<comment> \<open>ghost: the share of the timers, fetches, file operations and async calls in \<open>pending_ops\<close>\<close>
  hr_http :: bool
  hr_running :: "(job \<times> stage) list"
  hr_stopping :: bool
  hr_heap :: 'h

record slot =
  sl_host :: nat
  sl_tx :: sender

text \<open>A \<open>submit\<close> call between its locked lookup and its \<open>send\<close>.\<close>

record submission =
  su_id :: "64 word"
  su_fn :: string
  su_args :: args
  su_tx :: sender
  su_flag :: nat

record 'h mgr =
  mg_hosts :: "string \<Rightarrow> slot option"
  mg_cancels :: "64 word \<Rightarrow> nat option"
  mg_next :: "64 word"
  mg_flags :: "nat \<Rightarrow> bool"
  mg_nflags :: nat
  mg_queues :: "job mpsc_mem"
  mg_replies :: "result oneshot_mem"
  mg_rt :: "nat \<Rightarrow> 'h host_rt"
  mg_nhosts :: nat
  mg_bridges :: bridge_tbl
  mg_subs :: "submission list"
  mg_closing :: "nat \<Rightarrow> slot option" \<comment> \<open>the \<open>slot\<close> of a \<open>destroy_host\<close> call, until it is closed\<close>
  mg_issued :: nat \<comment> \<open>ghost: task ids handed out\<close>
  mg_open :: "nat \<Rightarrow> bool" \<comment> \<open>ghost: the host's slot is in the table or not closed yet\<close>
  mg_task_host :: "64 word \<Rightarrow> nat" \<comment> \<open>ghost: the host a task id was issued for\<close>
  mg_cell_task :: "nat \<Rightarrow> 64 word" \<comment> \<open>ghost: the task a reply cell was made for\<close>
  mg_accepted :: "nat set" \<comment> \<open>ghost: reply cells of the accepted submissions\<close>

definition fresh_rt :: "receiver \<Rightarrow> int \<Rightarrow> 'h \<Rightarrow> 'h host_rt" where
  "fresh_rt rx mx h =
     \<lparr>hr_rx = rx, hr_worker = Wk_recv, hr_in_flight = 0, hr_max = mx, hr_pending_ops = 0,
      hr_others = 0, hr_http = False, hr_running = [], hr_stopping = False, hr_heap = h\<rparr>"

definition mgr_init :: "'h \<Rightarrow> 'h mgr" where
  "mgr_init h =
     \<lparr>mg_hosts = (\<lambda>_. None), mg_cancels = (\<lambda>_. None), mg_next = 1, mg_flags = (\<lambda>_. False),
      mg_nflags = 0, mg_queues = mpsc_mem_empty, mg_replies = oneshot_mem_empty,
      mg_rt = (\<lambda>_. fresh_rt None 1 h), mg_nhosts = 0, mg_bridges = bridge_init, mg_subs = [],
      mg_closing = (\<lambda>_. None), mg_issued = 0, mg_open = (\<lambda>_. False), mg_task_host = (\<lambda>_. 0), mg_cell_task = (\<lambda>_. 0),
      mg_accepted = {}\<rparr>"

definition upd_rt :: "nat \<Rightarrow> ('h host_rt \<Rightarrow> 'h host_rt) \<Rightarrow> 'h mgr \<Rightarrow> 'h mgr" where
  "upd_rt h f s = s\<lparr>mg_rt := (mg_rt s)(h := f (mg_rt s h))\<rparr>"

section \<open>create_host\<close>

record create_options =
  co_id :: string
  co_max_in_flight :: int

definition start_job_worker :: "nat \<Rightarrow> 'h mgr \<Rightarrow> 'h mgr" where
  "start_job_worker h s = upd_rt h (\<lambda>r. r\<lparr>hr_pending_ops := hr_pending_ops r + 1\<rparr>) s"

text \<open>
  \<open>uuid\<close> is what the random generator returns, \<open>host_ok\<close> and \<open>install_ok\<close> whether the \<open>Host\<close>
  could be built and its runtime installed, \<open>heap\<close> the JS state after the \<open>setup\<close> callback.
  \<open>Inl\<close> carries the message of the exception.
\<close>

definition create_host ::
  "string \<Rightarrow> create_options \<Rightarrow> bool \<Rightarrow> bool \<Rightarrow> 'h \<Rightarrow> 'h mgr \<Rightarrow> (string + string) \<times> 'h mgr" where
  "create_host uuid opts host_ok install_ok heap s =
     (if co_max_in_flight opts < 1 then (Inl ''max_in_flight must be >= 1'', s)
      else if \<not> host_ok then (Inl ''failed to create Host'', s)
      else if \<not> install_ok then (Inl ''Host::install_runtime failed'', s)
      else
        (let host_id = (if co_id opts = [] then uuid else co_id opts);
             h = mg_nhosts s
         in case unbounded (mg_queues s) of ((tx, rx), q) \<Rightarrow>
              (let s1 = start_job_worker h
                     (s\<lparr>mg_queues := q, mg_nhosts := Suc h,
                        mg_rt := (mg_rt s)(h := fresh_rt rx (co_max_in_flight opts) heap)\<rparr>)
               in if mg_hosts s host_id \<noteq> None
                  then (case sender_close tx (mg_queues s1) of (q1, _) \<Rightarrow>
                        (case sender_release tx q1 of (_, q2, _) \<Rightarrow>
                          (Inl (''duplicate host id: '' @ host_id),
                           upd_rt h (\<lambda>r. r\<lparr>hr_stopping := True\<rparr>) (s1\<lparr>mg_queues := q2\<rparr>))))
                  else (Inr host_id,
                        s1\<lparr>mg_hosts := (mg_hosts s)(host_id := Some \<lparr>sl_host = h, sl_tx = tx\<rparr>),
                           mg_open := (mg_open s)(h := True)\<rparr>))))"

definition create_host_named ::
  "string \<Rightarrow> bool \<Rightarrow> bool \<Rightarrow> 'h \<Rightarrow> 'h mgr \<Rightarrow> (string + string) \<times> 'h mgr" where
  "create_host_named name host_ok install_ok heap s =
     (if name = [] then (Inl ''host id must be non-empty'', s)
      else create_host [] \<lparr>co_id = name, co_max_in_flight = 64\<rparr> host_ok install_ok heap s)"

definition has_host :: "string \<Rightarrow> 'h mgr \<Rightarrow> bool" where
  "has_host host_id s = (mg_hosts s host_id \<noteq> None)"

section \<open>submit and cancel\<close>

text \<open>The locked part: look the host up, take a task id, register the flag, copy the sender.\<close>

definition submit_lock ::
  "string \<Rightarrow> string \<Rightarrow> args \<Rightarrow> 'h mgr \<Rightarrow> submission option \<times> 'h mgr" where
  "submit_lock host_id fn a s =
     (let flag = mg_nflags s;
          s0 = s\<lparr>mg_flags := (mg_flags s)(flag := False), mg_nflags := Suc flag\<rparr>
      in case mg_hosts s host_id of
           None \<Rightarrow> (None, s0)
         | Some sl \<Rightarrow>
             if \<not> sender_bool (sl_tx sl) then (None, s0)
             else
               (case sender_copy (sl_tx sl) (mg_queues s) of (tx, q) \<Rightarrow>
                  let k = mg_next s;
                      u = \<lparr>su_id = k, su_fn = fn, su_args = a, su_tx = tx, su_flag = flag\<rparr>
                  in (Some u,
                      s0\<lparr>mg_next := k + 1, mg_cancels := (mg_cancels s)(k := Some flag),
                         mg_queues := q, mg_subs := mg_subs s @ [u],
                         mg_issued := Suc (mg_issued s),
                         mg_task_host := (mg_task_host s)(k := sl_host sl)\<rparr>)))"

definition make_job :: "submission \<Rightarrow> os_sender \<Rightarrow> job" where
  "make_job u reply =
     \<lparr>j_task_id = su_id u, j_fn_name = su_fn u, j_args = su_args u, j_reply = reply,
      j_cancelled = Some (su_flag u)\<rparr>"

text \<open>
  The rest of the \<open>i\<close>-th call in progress: make the reply channel, send the job, and on refusal
  drop the job (its reply sender closes the cell) and the flag's entry.  The local sender copy
  is released when the call returns.  The result is the handle: task id and reply receiver.
\<close>

definition submit_send :: "nat \<Rightarrow> 'h mgr \<Rightarrow> ((64 word \<times> os_receiver) option \<times> 'h mgr)" where
  "submit_send i s =
     (let u = mg_subs s ! i in
        case oneshot_channel (mg_replies s) of ((reply_tx, reply_rx), m) \<Rightarrow>
        (case sender_send (make_job u reply_tx) (su_tx u) (mg_queues s) of (sent, q, _) \<Rightarrow>
        (case sender_release (su_tx u) q of (_, q', _) \<Rightarrow>
          let s1 = s\<lparr>mg_queues := q', mg_subs := take i (mg_subs s) @ drop (Suc i) (mg_subs s),
                     mg_cell_task := (mg_cell_task s)(om_brk (mg_replies s) := su_id u)\<rparr>
          in if sent
             then (Some (su_id u, reply_rx),
                   s1\<lparr>mg_replies := m,
                      mg_accepted := insert (om_brk (mg_replies s)) (mg_accepted s)\<rparr>)
             else (case os_sender_close reply_tx m of (_, m', _) \<Rightarrow>
                     (None, s1\<lparr>mg_replies := m',
                               mg_cancels := (mg_cancels s)(su_id u := None)\<rparr>)))))"

text \<open>A call with no other thread in between.\<close>

definition submit ::
  "string \<Rightarrow> string \<Rightarrow> args \<Rightarrow> 'h mgr \<Rightarrow> (64 word \<times> os_receiver) option \<times> 'h mgr" where
  "submit host_id fn a s =
     (case submit_lock host_id fn a s of
        (None, s') \<Rightarrow> (None, s')
      | (Some _, s') \<Rightarrow> submit_send (length (mg_subs s)) s')"

definition cancel :: "64 word \<Rightarrow> 'h mgr \<Rightarrow> bool \<times> 'h mgr" where
  "cancel k s =
     (case mg_cancels s k of
        None \<Rightarrow> (False, s)
      | Some f \<Rightarrow> (True, s\<lparr>mg_flags := (mg_flags s)(f := True)\<rparr>))"

definition forget_task :: "64 word \<Rightarrow> 'h mgr \<Rightarrow> 'h mgr" where
  "forget_task k s = s\<lparr>mg_cancels := (mg_cancels s)(k := None)\<rparr>"

section \<open>destroy_host\<close>

text \<open>
  The call takes the slot out of the table under the lock and then, outside it, closes the queue and drops
  its sender; other threads run in between.  Then, once no job is in flight or the drain deadline has
  passed, \<open>Host::shutdown\<close> (\<open>teardown\<close>), which stops the HTTP server too.  The final \<open>join\<close> returns when
  the thread has left \<open>Host::run_loop\<close>: with nothing in \<open>pending_ops\<close>, whoever put it there, no microtask
  and no HTTP server.
\<close>

definition destroy_unlist :: "string \<Rightarrow> 'h mgr \<Rightarrow> slot option \<times> 'h mgr" where
  "destroy_unlist host_id s =
     (case mg_hosts s host_id of
        None \<Rightarrow> (None, s)
      | Some sl \<Rightarrow>
          (Some sl, s\<lparr>mg_hosts := (mg_hosts s)(host_id := None),
                      mg_closing := (mg_closing s)(sl_host sl := Some sl)\<rparr>))"

definition destroy_close :: "nat \<Rightarrow> 'h mgr \<Rightarrow> 'h mgr option" where
  "destroy_close h s =
     (case mg_closing s h of
        None \<Rightarrow> None
      | Some sl \<Rightarrow>
          (case sender_close (sl_tx sl) (mg_queues s) of (q, _) \<Rightarrow>
          (case sender_move_assign False (sl_tx sl) None q of (_, _, q', _) \<Rightarrow>
             Some (s\<lparr>mg_closing := (mg_closing s)(h := None), mg_queues := q',
                      mg_open := (mg_open s)(h := False)\<rparr>))))"

definition teardown :: "bool \<Rightarrow> nat \<Rightarrow> 'h mgr \<Rightarrow> 'h mgr option" where
  "teardown deadline_passed h s =
     (if hr_in_flight (mg_rt s h) > 0 \<and> \<not> deadline_passed then None
      else Some (upd_rt h (\<lambda>r. r\<lparr>hr_stopping := True, hr_http := False\<rparr>) s))"

definition join_returns :: "('v, 'h, 'x) js_scheme \<Rightarrow> nat \<Rightarrow> 'h mgr \<Rightarrow> bool" where
  "join_returns J h s \<longleftrightarrow>
     hr_pending_ops (mg_rt s h) = 0 \<and> \<not> js_job_pending J (hr_heap (mg_rt s h)) \<and> \<not> hr_http (mg_rt s h)"

section \<open>The host thread\<close>

text \<open>
  \<open>job_worker_loop\<close>: resume from \<open>recv\<close> once the queue holds a job or is closed (the channel
  theorems say the waiting coroutine is then woken), hold the job while \<open>max_in_flight\<close> jobs are
  running, else spawn it.  At the end of the queue the loop leaves and its receiver dies.
\<close>

definition worker_recv :: "nat \<Rightarrow> 'h mgr \<Rightarrow> 'h mgr option" where
  "worker_recv h s =
     (case (hr_worker (mg_rt s h), hr_rx (mg_rt s h)) of
        (Wk_recv, Some a) \<Rightarrow>
          if mpsc_await_ready (mm_cells (mg_queues s) a)
          then (case mpsc_await_resume (mm_cells (mg_queues s) a) of
                  (Some j, st) \<Rightarrow>
                    Some (upd_rt h (\<lambda>r. r\<lparr>hr_worker := Wk_hold j\<rparr>)
                            (s\<lparr>mg_queues := mm_put a st (mg_queues s)\<rparr>))
                | (None, st) \<Rightarrow>
                    (case receiver_close_rx (Some a) (mm_put a st (mg_queues s)) of (rx, q, _) \<Rightarrow>
                       Some (upd_rt h (\<lambda>r. r\<lparr>hr_worker := Wk_done, hr_rx := rx,
                                             hr_pending_ops := hr_pending_ops r - 1\<rparr>)
                               (s\<lparr>mg_queues := q\<rparr>))))
          else None
      | _ \<Rightarrow> None)"

definition worker_dispatch :: "nat \<Rightarrow> 'h mgr \<Rightarrow> 'h mgr option" where
  "worker_dispatch h s =
     (case hr_worker (mg_rt s h) of
        Wk_hold j \<Rightarrow>
          if hr_in_flight (mg_rt s h) \<ge> hr_max (mg_rt s h) then None
          else Some (upd_rt h (\<lambda>r. r\<lparr>hr_worker := Wk_recv,
                                     hr_in_flight := hr_in_flight r + 1,
                                     hr_pending_ops := hr_pending_ops r + 1,
                                     hr_running := hr_running r @ [(j, St_spawned)]\<rparr>) s)
      | _ \<Rightarrow> None)"

definition reply_job ::
  "job \<Rightarrow> result \<Rightarrow> result oneshot_mem \<Rightarrow> job \<times> result oneshot_mem \<times> wake list" where
  "reply_job j r m =
     (if j_reply j = None then (j, m, [])
      else case os_sender_send r (j_reply j) m of
          (_, tx, m', ws) \<Rightarrow> (j\<lparr>j_reply := tx\<rparr>, m', ws))"

definition job_flag :: "job \<Rightarrow> 'h mgr \<Rightarrow> bool" where
  "job_flag j s = (case j_cancelled j of None \<Rightarrow> False | Some f \<Rightarrow> mg_flags s f)"

definition set_running :: "nat \<Rightarrow> nat \<Rightarrow> job \<Rightarrow> stage \<Rightarrow> 'h \<Rightarrow> 'h mgr \<Rightarrow> 'h mgr" where
  "set_running h i j st heap s =
     upd_rt h (\<lambda>r. r\<lparr>hr_running := (hr_running r)[i := (j, st)], hr_heap := heap\<rparr>) s"

definition job_reply :: "nat \<Rightarrow> nat \<Rightarrow> job \<Rightarrow> result \<Rightarrow> 'h \<Rightarrow> 'h mgr \<Rightarrow> 'h mgr" where
  "job_reply h i j r heap s =
     (case reply_job j r (mg_replies s) of
        (j', m, _) \<Rightarrow> set_running h i j' St_replied heap (s\<lparr>mg_replies := m\<rparr>))"

text \<open>\<open>execute_job\<close> of the \<open>i\<close>-th frame, up to its reply or its wait for a promise.\<close>

definition job_start ::
  "('v, 'h, 'x) js_scheme \<Rightarrow> nat \<Rightarrow> nat \<Rightarrow> 'h mgr \<Rightarrow> 'h mgr option" where
  "job_start J h i s =
     (if i < length (hr_running (mg_rt s h)) \<and> snd (hr_running (mg_rt s h) ! i) = St_spawned
      then (let j = fst (hr_running (mg_rt s h) ! i)
            in case exec_start J (mg_bridges s) (j_fn_name j) (j_args j) (job_flag j s)
                      (hr_heap (mg_rt s h)) of
                 None \<Rightarrow> None
               | Some (Ex_reply r, b, heap) \<Rightarrow>
                   Some (job_reply h i j r heap (s\<lparr>mg_bridges := b\<rparr>))
               | Some (Ex_wait w, b, heap) \<Rightarrow>
                   Some (set_running h i j (St_waiting w) heap (s\<lparr>mg_bridges := b\<rparr>)))
      else None)"

text \<open>The settlement callback of the bridge the \<open>i\<close>-th frame waits on.\<close>

definition job_settle ::
  "('v, 'h, 'x) js_scheme \<Rightarrow> nat \<Rightarrow> nat \<Rightarrow> int \<Rightarrow> 'v list \<Rightarrow> 'h mgr \<Rightarrow> 'h mgr option" where
  "job_settle J h i magic argv s =
     (if i < length (hr_running (mg_rt s h))
      then (case hr_running (mg_rt s h) ! i of
              (j, St_waiting w) \<Rightarrow>
                (case bridge_on_settle w magic argv (mg_bridges s) of
                   (b, None) \<Rightarrow> Some (s\<lparr>mg_bridges := b\<rparr>)
                 | (b, Some (ok, val)) \<Rightarrow>
                     (case exec_resume J ok val (hr_heap (mg_rt s h)) of
                        (r, heap) \<Rightarrow> Some (job_reply h i j r heap (s\<lparr>mg_bridges := b\<rparr>))))
            | _ \<Rightarrow> None)
      else None)"

text \<open>The end of \<open>run_one_job\<close>: count down, then forget the task's cancellation flag.\<close>

definition job_finish :: "nat \<Rightarrow> nat \<Rightarrow> 'h mgr \<Rightarrow> 'h mgr option" where
  "job_finish h i s =
     (if i < length (hr_running (mg_rt s h)) \<and> snd (hr_running (mg_rt s h) ! i) = St_replied
      then Some (forget_task (j_task_id (fst (hr_running (mg_rt s h) ! i)))
                  (upd_rt h (\<lambda>r. r\<lparr>hr_running := take i (hr_running r) @ drop (Suc i) (hr_running r),
                                   hr_in_flight := hr_in_flight r - 1,
                                   hr_pending_ops := hr_pending_ops r - 1\<rparr>) s))
      else None)"

text \<open>
  The rest of the host runs on its thread between those steps: JS of any kind, which leaves the heap
  \<open>heap\<close>; timers, fetches, file operations and async calls that start and end, which leave \<open>n\<close> of them
  in \<open>pending_ops\<close>; and the natives of the HTTP server.
\<close>

definition host_runs :: "nat \<Rightarrow> 'h \<Rightarrow> nat \<Rightarrow> bool \<Rightarrow> 'h mgr \<Rightarrow> 'h mgr" where
  "host_runs h heap n http s =
     upd_rt h (\<lambda>r. r\<lparr>hr_pending_ops := hr_pending_ops r + (int n - hr_others r), hr_others := int n,
                     hr_http := http, hr_heap := heap\<rparr>) s"

section \<open>The machine\<close>

text \<open>
  \<open>L_await\<close> and \<open>L_take\<close> are the client's \<open>co_await handle.reply.recv()\<close> on reply cell \<open>a\<close>:
  the suspension and the resumption that takes the result.
\<close>

datatype ('v, 'h) mgr_event =
    L_create string create_options bool bool 'h
  | L_lock string string args
  | L_send nat
  | L_cancel "64 word"
  | L_await nat handle "executor option"
  | L_take nat
  | L_unlist string
  | L_close nat
  | L_teardown bool nat
  | L_recv nat
  | L_dispatch nat
  | L_start nat nat
  | L_settle nat nat int "'v list"
  | L_finish nat nat
  | L_host nat 'h nat bool

fun mgr_step :: "('v, 'h, 'x) js_scheme \<Rightarrow> ('v, 'h) mgr_event \<Rightarrow> 'h mgr \<Rightarrow> 'h mgr option" where
  "mgr_step J (L_create uuid opts ok1 ok2 heap) s = Some (snd (create_host uuid opts ok1 ok2 heap s))"
| "mgr_step J (L_lock host_id fn a) s = Some (snd (submit_lock host_id fn a s))"
| "mgr_step J (L_send i) s =
     (if i < length (mg_subs s) then Some (snd (submit_send i s)) else None)"
| "mgr_step J (L_cancel k) s = Some (snd (cancel k s))"
| "mgr_step J (L_await a w ex) s =
     (if a < om_brk (mg_replies s)
      then Some (s\<lparr>mg_replies := om_put a
                    (snd (oneshot_await_suspend w ex (om_cells (mg_replies s) a)))
                    (mg_replies s)\<rparr>)
      else None)"
| "mgr_step J (L_take a) s =
     (if a < om_brk (mg_replies s) \<and> oneshot_await_ready (om_cells (mg_replies s) a)
      then Some (s\<lparr>mg_replies := om_put a
                    (snd (oneshot_await_resume (om_cells (mg_replies s) a)))
                    (mg_replies s)\<rparr>)
      else None)"
| "mgr_step J (L_unlist host_id) s = Some (snd (destroy_unlist host_id s))"
| "mgr_step J (L_close h) s = destroy_close h s"
| "mgr_step J (L_teardown late h) s = (if h < mg_nhosts s then teardown late h s else None)"
| "mgr_step J (L_recv h) s = (if h < mg_nhosts s then worker_recv h s else None)"
| "mgr_step J (L_dispatch h) s = (if h < mg_nhosts s then worker_dispatch h s else None)"
| "mgr_step J (L_start h i) s = (if h < mg_nhosts s then job_start J h i s else None)"
| "mgr_step J (L_settle h i magic argv) s =
     (if h < mg_nhosts s then job_settle J h i magic argv s else None)"
| "mgr_step J (L_finish h i) s = (if h < mg_nhosts s then job_finish h i s else None)"
| "mgr_step J (L_host h heap n http) s = (if h < mg_nhosts s then Some (host_runs h heap n http s) else None)"

end
