(* ===== verification/HostManagerInv.thy ===== *)
theory HostManagerInv
  imports HostManager
begin

text \<open>
  Invariants of the manager machine, in layers: the run-state counters of a host, the job queues
  and their senders, the host table, the task ids with their cancellation flags, the reply
  cells.  Each layer has one preservation lemma per kind of event.
\<close>

section \<open>Counters of a host\<close>

definition counters_ok :: "'h host_rt \<Rightarrow> bool" where
  "counters_ok r \<longleftrightarrow>
     hr_in_flight r = int (length (hr_running r)) \<and>
     hr_in_flight r \<le> hr_max r \<and>
     0 \<le> hr_others r \<and> hr_pending_ops r = hr_others r + int (length (hr_running r)) + (if hr_worker r = Wk_done then 0 else 1)"

definition all_counters_ok :: "'h mgr \<Rightarrow> bool" where
  "all_counters_ok s \<longleftrightarrow> (\<forall>h < mg_nhosts s. counters_ok (mg_rt s h))"

lemma sum_zero:
  fixes p x :: int and l :: "'a list"
  assumes "0 \<le> x" "p = x + int (length l) + (if w then 0 else 1)"
  shows "p = 0 \<longleftrightarrow> w \<and> l = [] \<and> x = 0"
proof -
  have "x + int (length l) = 0 \<longleftrightarrow> l = [] \<and> x = 0" using assms(1) by (simp add: add_nonneg_eq_0_iff conj_commute)
  moreover have "x + int (length l) + 1 \<noteq> 0" using assms(1) by linarith
  ultimately show ?thesis using assms(2) by simp
qed

lemma counters_zero:
  assumes "counters_ok r"
  shows "hr_pending_ops r = 0 \<longleftrightarrow> hr_worker r = Wk_done \<and> hr_running r = [] \<and> hr_others r = 0"
  using assms by (intro sum_zero) (simp_all only: counters_ok_def)

lemma upd_rt_simps [simp]:
  "mg_rt (upd_rt h f s) = (mg_rt s)(h := f (mg_rt s h))"
  "mg_hosts (upd_rt h f s) = mg_hosts s" "mg_cancels (upd_rt h f s) = mg_cancels s"
  "mg_next (upd_rt h f s) = mg_next s" "mg_flags (upd_rt h f s) = mg_flags s"
  "mg_nflags (upd_rt h f s) = mg_nflags s" "mg_queues (upd_rt h f s) = mg_queues s"
  "mg_replies (upd_rt h f s) = mg_replies s" "mg_nhosts (upd_rt h f s) = mg_nhosts s"
  "mg_bridges (upd_rt h f s) = mg_bridges s" "mg_subs (upd_rt h f s) = mg_subs s"
  "mg_closing (upd_rt h f s) = mg_closing s" "mg_issued (upd_rt h f s) = mg_issued s" "mg_open (upd_rt h f s) = mg_open s"
  "mg_task_host (upd_rt h f s) = mg_task_host s" "mg_cell_task (upd_rt h f s) = mg_cell_task s"
  "mg_accepted (upd_rt h f s) = mg_accepted s"
  by (simp_all add: upd_rt_def)

lemma counters_create:
  "all_counters_ok s \<Longrightarrow> all_counters_ok (snd (create_host uuid opts ok1 ok2 heap s))"
  by (auto simp: all_counters_ok_def counters_ok_def create_host_def start_job_worker_def
      fresh_rt_def Let_def less_Suc_eq split: prod.splits)

lemma rt_submit_lock [simp]:
  "mg_rt (snd (submit_lock host_id fn a s)) = mg_rt s"
  "mg_nhosts (snd (submit_lock host_id fn a s)) = mg_nhosts s"
  by (auto simp: submit_lock_def Let_def split: option.splits prod.splits)

lemma rt_submit_send [simp]:
  "mg_rt (snd (submit_send i s)) = mg_rt s"
  "mg_nhosts (snd (submit_send i s)) = mg_nhosts s"
  by (auto simp: submit_send_def Let_def split: prod.splits)

lemma rt_cancel [simp]:
  "mg_rt (snd (cancel k s)) = mg_rt s" "mg_nhosts (snd (cancel k s)) = mg_nhosts s"
  by (auto simp: cancel_def split: option.splits)

lemma rt_destroy [simp]:
  "mg_rt (snd (destroy_unlist host_id s)) = mg_rt s"
  "mg_nhosts (snd (destroy_unlist host_id s)) = mg_nhosts s"
  by (auto simp: destroy_unlist_def split: option.splits)

lemma rt_close: "destroy_close h s = Some t \<Longrightarrow> mg_rt t = mg_rt s \<and> mg_nhosts t = mg_nhosts s"
  by (auto simp: destroy_close_def split: option.splits prod.splits)

lemma rt_forget [simp]:
  "mg_rt (forget_task k s) = mg_rt s" "mg_nhosts (forget_task k s) = mg_nhosts s"
  by (simp_all add: forget_task_def)

lemma counters_recv:
  "all_counters_ok s \<Longrightarrow> worker_recv h s = Some t \<Longrightarrow> all_counters_ok t"
  by (auto simp: all_counters_ok_def counters_ok_def worker_recv_def
      split: worker.splits option.splits prod.splits if_splits)

lemma counters_dispatch:
  "all_counters_ok s \<Longrightarrow> h < mg_nhosts s \<Longrightarrow> worker_dispatch h s = Some t \<Longrightarrow> all_counters_ok t"
  by (auto simp: all_counters_ok_def counters_ok_def worker_dispatch_def
      split: worker.splits if_splits)

lemma counters_set_running:
  "all_counters_ok s \<Longrightarrow> all_counters_ok (set_running h i j st heap s)"
  by (auto simp: all_counters_ok_def counters_ok_def set_running_def)

lemma all_counters_frame [simp]:
  "all_counters_ok (s\<lparr>mg_replies := m\<rparr>) = all_counters_ok s"
  "all_counters_ok (s\<lparr>mg_bridges := b\<rparr>) = all_counters_ok s"
  "all_counters_ok (snd (submit_lock host_id fn a s)) = all_counters_ok s"
  "all_counters_ok (snd (submit_send i s)) = all_counters_ok s"
  "all_counters_ok (snd (cancel k s)) = all_counters_ok s"
  "all_counters_ok (snd (destroy_unlist host_id s)) = all_counters_ok s"
  by (simp_all add: all_counters_ok_def)

lemma counters_job_reply:
  "all_counters_ok s \<Longrightarrow> all_counters_ok (job_reply h i j r heap s)"
  by (simp add: job_reply_def counters_set_running split: prod.splits)

lemma counters_start:
  "all_counters_ok s \<Longrightarrow> job_start J h i s = Some t \<Longrightarrow> all_counters_ok t"
  by (auto simp: job_start_def Let_def intro!: counters_set_running counters_job_reply
      split: if_splits option.splits prod.splits exec_out.splits)

lemma counters_settle:
  "all_counters_ok s \<Longrightarrow> job_settle J h i magic argv s = Some t \<Longrightarrow> all_counters_ok t"
  by (auto simp: job_settle_def intro!: counters_job_reply
      split: if_splits option.splits prod.splits stage.splits)

lemma counters_finish:
  "all_counters_ok s \<Longrightarrow> h < mg_nhosts s \<Longrightarrow> job_finish h i s = Some t \<Longrightarrow> all_counters_ok t"
  by (auto simp: job_finish_def all_counters_ok_def counters_ok_def split: if_splits)

lemma counters_teardown:
  "all_counters_ok s \<Longrightarrow> teardown late h s = Some t \<Longrightarrow> all_counters_ok t"
  by (auto simp: teardown_def all_counters_ok_def counters_ok_def split: if_splits)

lemma counters_host:
  "all_counters_ok s \<Longrightarrow> all_counters_ok (host_runs h heap n http s)"
  by (auto simp: host_runs_def all_counters_ok_def counters_ok_def)

lemma counters_init: "all_counters_ok (mgr_init heap)"
  by (simp add: all_counters_ok_def mgr_init_def)

lemma counters_step:
  assumes "all_counters_ok s" and "mgr_step J l s = Some t"
  shows "all_counters_ok t"
proof (cases l)
  case L_create
  then show ?thesis using assms by (auto simp: counters_create)
next
  case L_recv
  then show ?thesis using assms by (auto intro: counters_recv split: if_splits)
next
  case L_dispatch
  then show ?thesis using assms by (auto intro: counters_dispatch split: if_splits)
next
  case L_start
  then show ?thesis using assms by (auto intro: counters_start split: if_splits)
next
  case L_settle
  then show ?thesis using assms by (auto intro: counters_settle split: if_splits)
next
  case L_finish
  then show ?thesis using assms by (auto intro: counters_finish split: if_splits)
next
  case L_teardown
  then show ?thesis using assms by (auto intro: counters_teardown split: if_splits)
next
  case L_host
  then show ?thesis using assms by (auto simp: counters_host split: if_splits)
next
  case L_close
  then show ?thesis using assms rt_close by (fastforce simp: all_counters_ok_def)
qed (use assms in \<open>auto split: if_splits\<close>)

interpretation mgr_counters: machine "mgr_step J" "mgr_init heap" all_counters_ok
  by unfold_locales (blast intro: counters_init counters_step)+

end
