(* ===== verification/HostTasks.thy ===== *)
theory HostTasks
  imports HostManagerInv "HOL-Library.Multiset"
begin

text \<open>
  Where the jobs of the manager are.  \<open>layout_ok\<close> ties hosts, queues, senders and the table
  together; \<open>host_jobs\<close> lists the jobs a host holds (queued, held by the dispatcher, running);
  \<open>gather\<close> sums a measure over all hosts, which gives the two exact accounts the properties rest
  on: the cancellation table (\<open>tasks_ok\<close>) and the reply cells (\<open>replies_ok\<close>).
\<close>

section \<open>Layout\<close>

definition rx_ok :: "nat \<Rightarrow> receiver \<Rightarrow> bool \<Rightarrow> job list \<Rightarrow> bool \<Rightarrow> bool" where
  "rx_ok h rx left q closed \<longleftrightarrow>
     (case rx of
        None \<Rightarrow> left \<and> q = [] \<and> closed
      | Some a \<Rightarrow> a = h \<and> \<not> left)"

definition cell_ok :: "bool \<Rightarrow> nat \<Rightarrow> job mpsc_state \<Rightarrow> bool" where
  "cell_ok listed subs c \<longleftrightarrow>
     mq_closed c = (\<not> listed) \<and> mq_senders c = (if listed then 1 else 0) + int subs"

definition subs_of :: "nat \<Rightarrow> submission list \<Rightarrow> nat" where
  "subs_of h us = length (filter (\<lambda>u. su_tx u = Some h) us)"

definition host_ok :: "'h mgr \<Rightarrow> nat \<Rightarrow> bool" where
  "host_ok s h \<longleftrightarrow>
     rx_ok h (hr_rx (mg_rt s h)) (hr_worker (mg_rt s h) = Wk_done)
       (mq_queue (mm_cells (mg_queues s) h)) (mq_closed (mm_cells (mg_queues s) h)) \<and>
     cell_ok (mg_open s h) (subs_of h (mg_subs s)) (mm_cells (mg_queues s) h)"

definition slot_ok :: "'h mgr \<Rightarrow> string \<Rightarrow> slot \<Rightarrow> bool" where
  "slot_ok s host_id sl \<longleftrightarrow>
     sl_host sl < mg_nhosts s \<and> sl_tx sl = Some (sl_host sl) \<and> mg_open s (sl_host sl) \<and>
     (\<forall>host_id' sl'. mg_hosts s host_id' = Some sl' \<longrightarrow> sl_host sl' = sl_host sl \<longrightarrow>
        host_id' = host_id)"

definition closing_ok :: "'h mgr \<Rightarrow> nat \<Rightarrow> slot \<Rightarrow> bool" where
  "closing_ok s h sl \<longleftrightarrow>
     h < mg_nhosts s \<and> sl_host sl = h \<and> sl_tx sl = Some h \<and> mg_open s h \<and>
     (\<forall>host_id sl'. mg_hosts s host_id = Some sl' \<longrightarrow> sl_host sl' \<noteq> h)"

definition sub_ok :: "'h mgr \<Rightarrow> submission \<Rightarrow> bool" where
  "sub_ok s u \<longleftrightarrow> (\<exists>a < mg_nhosts s. su_tx u = Some a)"

definition layout_ok :: "'h mgr \<Rightarrow> bool" where
  "layout_ok s \<longleftrightarrow>
     mm_brk (mg_queues s) = mg_nhosts s \<and> (\<forall>h < mg_nhosts s. host_ok s h) \<and>
     (\<forall>host_id sl. mg_hosts s host_id = Some sl \<longrightarrow> slot_ok s host_id sl) \<and>
     (\<forall>h sl. mg_closing s h = Some sl \<longrightarrow> closing_ok s h sl) \<and>
     (\<forall>u \<in> set (mg_subs s). sub_ok s u) \<and>
     (\<forall>h \<ge> mg_nhosts s. \<not> mg_open s h)"

lemma layout_init: "layout_ok (mgr_init heap)"
  by (simp add: layout_ok_def mgr_init_def mpsc_mem_empty_def)


lemma closing_ok_I:
  assumes "layout_ok s" and "mg_closing s h = Some sl"
  shows "h < mg_nhosts s" and "sl_host sl = h" and "mg_open s h" and "sl_tx sl = Some h"
    and "mg_hosts s host_id = Some sl' \<Longrightarrow> sl_host sl' \<noteq> h"
  using assms by (auto simp: layout_ok_def closing_ok_def)

lemma no_sub_on_new:
  "layout_ok s \<Longrightarrow> subs_of (mg_nhosts s) (mg_subs s) = 0"
  by (fastforce simp: layout_ok_def sub_ok_def subs_of_def filter_empty_conv)

lemma slot_ok_I:
  assumes "layout_ok s" and "mg_hosts s host_id = Some sl"
  shows "sl_host sl < mg_nhosts s" and "sl_tx sl = Some (sl_host sl)"
    and "mg_open s (sl_host sl)" and "sl_host sl \<noteq> mg_nhosts s"
    and "mg_hosts s host_id' = Some sl' \<Longrightarrow> sl_host sl' = sl_host sl \<Longrightarrow> host_id' = host_id"
  using assms by (fastforce simp: layout_ok_def slot_ok_def)+

definition fresh_host :: "nat \<Rightarrow> 'h mgr \<Rightarrow> bool" where
  "fresh_host n t \<longleftrightarrow>
     hr_rx (mg_rt t n) = Some n \<and> hr_worker (mg_rt t n) = Wk_recv \<and> hr_running (mg_rt t n) = [] \<and>
     mq_queue (mm_cells (mg_queues t) n) = [] \<and>
     mq_closed (mm_cells (mg_queues t) n) = (\<not> mg_open t n) \<and>
     mq_senders (mm_cells (mg_queues t) n) = (if mg_open t n then 1 else 0)"

definition same_tables :: "'h mgr \<Rightarrow> 'h mgr \<Rightarrow> bool" where
  "same_tables s t \<longleftrightarrow>
     mg_cancels t = mg_cancels s \<and> mg_next t = mg_next s \<and> mg_subs t = mg_subs s \<and>
     mg_issued t = mg_issued s \<and> mg_nflags t = mg_nflags s \<and>
     mg_task_host t = mg_task_host s \<and> mg_cell_task t = mg_cell_task s \<and> mg_accepted t = mg_accepted s"

definition adds_host :: "'h mgr \<Rightarrow> 'h mgr \<Rightarrow> bool" where
  "adds_host s t \<longleftrightarrow>
     (let n = mg_nhosts s in
        mg_nhosts t = Suc n \<and> mm_brk (mg_queues t) = Suc n \<and> fresh_host n t \<and>
        (\<forall>h. h \<noteq> n \<longrightarrow> mg_rt t h = mg_rt s h \<and> mg_open t h = mg_open s h \<and>
           mm_cells (mg_queues t) h = mm_cells (mg_queues s) h) \<and>
        (mg_hosts t = mg_hosts s \<and> \<not> mg_open t n \<or>
         (\<exists>i. mg_hosts s i = None \<and> mg_open t n \<and>
            mg_hosts t = (mg_hosts s)(i := Some \<lparr>sl_host = n, sl_tx = Some n\<rparr>))) \<and>
        same_tables s t \<and> mg_replies t = mg_replies s \<and> mg_closing t = mg_closing s)"

lemma create_adds_host:
  assumes "layout_ok s"
  shows "snd (create_host uuid opts ok1 ok2 heap s) = s \<or>
    adds_host s (snd (create_host uuid opts ok1 ok2 heap s))"
  using assms
  by (auto simp: layout_ok_def create_host_def Let_def unbounded_def start_job_worker_def
    sender_close_def sender_release_def sender_count_def mpsc_close_def mpsc_close_locked_def
    mpsc_fresh_def adds_host_def fresh_host_def fresh_rt_def same_tables_def)

lemma layout_adds_host:
  assumes "layout_ok s" and "adds_host s t"
  shows "layout_ok t"
proof -
  note nosub = no_sub_on_new [OF assms(1)]
  have subs: "mg_subs t = mg_subs s" using assms(2) by (simp add: adds_host_def Let_def same_tables_def)
  have "host_ok t h" if "h < mg_nhosts t" for h
  proof (cases "h = mg_nhosts s")
    case True
    then show ?thesis using assms nosub by (simp add: host_ok_def rx_ok_def cell_ok_def adds_host_def Let_def fresh_host_def subs)
  next
    case False
    then have "host_ok s h" using that assms by (simp add: layout_ok_def adds_host_def Let_def)
    then show ?thesis using False assms(2) by (simp add: host_ok_def adds_host_def Let_def subs)
  qed
  moreover have "slot_ok t i sl" if "mg_hosts t i = Some sl" for i sl
    using that assms slot_ok_I [OF assms(1)] unfolding slot_ok_def adds_host_def Let_def
    by (elim conjE disjE exE) (auto simp: less_Suc_eq split: if_splits, (metis nat_neq_iff)+)
  moreover have "closing_ok t h sl" if "mg_closing t h = Some sl" for h sl
  proof -
    have "mg_closing s h = Some sl" using that assms(2) by (simp add: adds_host_def Let_def)
    note c = closing_ok_I [OF assms(1) this]
    then have "h \<noteq> mg_nhosts s" by simp
    moreover have "sl_host sl' \<noteq> h" if "mg_hosts t i = Some sl'" for i sl'
      using that c(1) c(5) [of i sl'] assms(2) by (auto simp: adds_host_def Let_def split: if_splits)
    ultimately show ?thesis using c(1-4) assms(2) by (simp add: closing_ok_def adds_host_def Let_def)
  qed
  moreover have "sub_ok t u" if "u \<in> set (mg_subs t)" for u
    using that assms by (auto simp: subs layout_ok_def sub_ok_def adds_host_def Let_def split: option.splits)
  moreover have "\<not> mg_open t h" if "h \<ge> mg_nhosts t" for h
    using that assms by (auto simp: layout_ok_def adds_host_def Let_def)
  ultimately show ?thesis using assms(2) by (simp add: layout_ok_def adds_host_def Let_def)
qed

lemma layout_frame:
  assumes "layout_ok s" and "mg_queues t = mg_queues s" and "mg_hosts t = mg_hosts s"
    and "mg_subs t = mg_subs s" and "mg_open t = mg_open s" and "mg_nhosts t = mg_nhosts s" and "mg_closing t = mg_closing s"
    and "\<And>h. hr_rx (mg_rt t h) = hr_rx (mg_rt s h)"
    and "\<And>h. (hr_worker (mg_rt t h) = Wk_done) = (hr_worker (mg_rt s h) = Wk_done)"
  shows "layout_ok t"
  using assms by (simp add: layout_ok_def host_ok_def slot_ok_def closing_ok_def sub_ok_def)

lemma layout_dispatch: "layout_ok s \<Longrightarrow> worker_dispatch h s = Some t \<Longrightarrow> layout_ok t"
  by (erule layout_frame)
    (auto simp: worker_dispatch_def split: worker.splits if_splits)

lemma layout_job_reply: "layout_ok s \<Longrightarrow> layout_ok (job_reply h i j r heap s)"
  by (erule layout_frame) (auto simp: job_reply_def set_running_def split: prod.splits)

lemma layout_bridges: "layout_ok (s\<lparr>mg_bridges := b\<rparr>) = layout_ok s"
  by (simp add: layout_ok_def host_ok_def slot_ok_def closing_ok_def sub_ok_def)

lemma layout_replies: "layout_ok (s\<lparr>mg_replies := m\<rparr>) = layout_ok s"
  by (simp add: layout_ok_def host_ok_def slot_ok_def closing_ok_def sub_ok_def)

lemma layout_set_running: "layout_ok s \<Longrightarrow> layout_ok (set_running h i j st heap s)"
  by (erule layout_frame) (auto simp: set_running_def)

lemma layout_start: "layout_ok s \<Longrightarrow> job_start J h i s = Some t \<Longrightarrow> layout_ok t"
  by (auto simp: job_start_def Let_def layout_bridges intro!: layout_set_running layout_job_reply
      split: if_splits option.splits prod.splits exec_out.splits)

lemma layout_settle: "layout_ok s \<Longrightarrow> job_settle J h i magic argv s = Some t \<Longrightarrow> layout_ok t"
  by (auto simp: job_settle_def layout_bridges intro!: layout_job_reply
      split: if_splits option.splits prod.splits stage.splits)

lemma layout_finish: "layout_ok s \<Longrightarrow> job_finish h i s = Some t \<Longrightarrow> layout_ok t"
  by (erule layout_frame) (auto simp: job_finish_def forget_task_def split: if_splits)

lemma layout_host: "layout_ok s \<Longrightarrow> layout_ok (host_runs h heap n http s)"
  by (erule layout_frame) (auto simp: host_runs_def)

lemma layout_teardown: "layout_ok s \<Longrightarrow> teardown late h s = Some t \<Longrightarrow> layout_ok t"
  by (erule layout_frame) (auto simp: teardown_def split: if_splits)

lemma layout_cancel: "layout_ok s \<Longrightarrow> layout_ok (snd (cancel k s))"
  by (erule layout_frame) (auto simp: cancel_def split: option.splits)

lemma subs_of_append [simp]: "subs_of h (us @ vs) = subs_of h us + subs_of h vs"
  by (simp add: subs_of_def)

lemma subs_of_single [simp]: "subs_of h [u] = (if su_tx u = Some h then 1 else 0)"
  by (simp add: subs_of_def)

lemma rx_ok_close: "rx_ok h rx d q c \<Longrightarrow> rx_ok h rx d q True"
  by (simp add: rx_ok_def split: option.splits)

lemma host_ok_I: "layout_ok s \<Longrightarrow> h < mg_nhosts s \<Longrightarrow> host_ok s h"
  by (simp add: layout_ok_def)

lemma listed_queue:
  assumes "layout_ok s" and "h < mg_nhosts s" and "mg_open s h"
  shows "\<not> mq_closed (mm_cells (mg_queues s) h)"
    and "mq_senders (mm_cells (mg_queues s) h) = 1 + int (subs_of h (mg_subs s))"
    and "rx_ok h (hr_rx (mg_rt s h)) (hr_worker (mg_rt s h) = Wk_done)
           (mq_queue (mm_cells (mg_queues s) h)) c"
  using host_ok_I [OF assms(1,2)] assms(3)
  by (auto simp: host_ok_def cell_ok_def rx_ok_def split: option.splits)

lemma layout_lock:
  assumes "layout_ok s"
  shows "layout_ok (snd (submit_lock host_id fn a s))"
proof (cases "mg_hosts s host_id")
  case None
  then show ?thesis
    using assms by (simp add: submit_lock_def layout_ok_def host_ok_def slot_ok_def closing_ok_def sub_ok_def Let_def)
next
  case (Some sl)
  note sl = slot_ok_I [OF assms Some]
  show ?thesis
    using assms sl Some listed_queue [OF assms sl(1,3)]
    by (auto simp: submit_lock_def sender_bool_def sender_copy_def sender_count_def Let_def
        layout_ok_def host_ok_def slot_ok_def closing_ok_def sub_ok_def cell_ok_def)
qed

lemma layout_unlist:
  assumes "layout_ok s"
  shows "layout_ok (snd (destroy_unlist host_id s))" (is "layout_ok ?t")
proof (cases "mg_hosts s host_id")
  case None
  then show ?thesis using assms by (simp add: destroy_unlist_def)
next
  case (Some sl)
  note sl = slot_ok_I [OF assms Some]
  have hosts: "mg_hosts ?t = (mg_hosts s)(host_id := None)"
    and closing: "mg_closing ?t = (mg_closing s)(sl_host sl := Some sl)"
    using Some by (simp_all add: destroy_unlist_def)
  have "closing_ok ?t h sl'" if "mg_closing ?t h = Some sl'" for h sl'
  proof (cases "h = sl_host sl")
    case True
    have "sl_host sl2 \<noteq> sl_host sl" if "mg_hosts ?t i = Some sl2" for i sl2
      using that hosts sl(5) [of i sl2] by (auto split: if_splits)
    then show ?thesis using True that closing sl(1-3) Some
      by (simp add: closing_ok_def) (simp add: destroy_unlist_def)
  next
    case False
    then have c: "mg_closing s h = Some sl'" using that closing by simp
    note k = closing_ok_I [OF assms c]
    have "sl_host sl2 \<noteq> h" if "mg_hosts ?t i = Some sl2" for i sl2
      using that hosts k(5) [of i sl2] by (auto split: if_splits)
    then show ?thesis using k(1-4) Some by (simp add: closing_ok_def) (simp add: destroy_unlist_def)
  qed
  moreover have "slot_ok ?t i sl'" if "mg_hosts ?t i = Some sl'" for i sl'
    using that assms Some hosts by (auto simp: layout_ok_def slot_ok_def destroy_unlist_def split: if_splits)
  ultimately show ?thesis
    using assms Some by (simp add: layout_ok_def) (simp add: destroy_unlist_def host_ok_def sub_ok_def)
qed

lemma layout_close:
  assumes "layout_ok s" and "destroy_close h s = Some t"
  shows "layout_ok t"
proof -
  obtain sl where c: "mg_closing s h = Some sl" using assms(2) by (auto simp: destroy_close_def split: option.splits)
  note sl = closing_ok_I [OF assms(1) c]
  have t: "mg_hosts t = mg_hosts s" "mg_subs t = mg_subs s" "mg_nhosts t = mg_nhosts s" "mg_rt t = mg_rt s"
    "mg_closing t = (mg_closing s)(h := None)" "mg_open t = (mg_open s)(h := False)"
    "mm_brk (mg_queues t) = mm_brk (mg_queues s)"
    "\<And>g. g \<noteq> h \<Longrightarrow> mm_cells (mg_queues t) g = mm_cells (mg_queues s) g"
    "mq_queue (mm_cells (mg_queues t) h) = mq_queue (mm_cells (mg_queues s) h)"
    "cell_ok False (subs_of h (mg_subs s)) (mm_cells (mg_queues t) h)"
    using assms(2) c listed_queue(1,2) [OF assms(1) sl(1,3)] sl(4)
    by (atomize (full), cases "subs_of h (mg_subs s) = 0") (auto simp: destroy_close_def sender_close_def sender_move_assign_def sender_release_def
      sender_count_def mpsc_close_def mpsc_close_locked_def Let_def cell_ok_def)
  have "host_ok t g" if "g < mg_nhosts s" for g
    using host_ok_I [OF assms(1) that] t(2,4,6,8-) by (cases "g = h") (auto simp: host_ok_def rx_ok_def cell_ok_def split: option.splits)
  moreover have "slot_ok t i sl'" if "mg_hosts s i = Some sl'" for i sl'
    using that assms(1) sl(5) t by (auto simp: layout_ok_def slot_ok_def)
  moreover have "closing_ok t g sl'" if "mg_closing t g = Some sl'" for g sl'
    using that closing_ok_I [OF assms(1), of g sl'] t by (auto simp: closing_ok_def split: if_splits)
  ultimately show ?thesis using assms(1) t by (simp add: layout_ok_def sub_ok_def)
qed

text \<open>The two ways \<open>worker_recv\<close> goes: it takes a job, or it leaves at the end of a closed queue.\<close>

lemma worker_recv_cases:
  assumes "layout_ok s" and "h < mg_nhosts s" and "worker_recv h s = Some t"
  obtains (job) j js where "mq_queue (mm_cells (mg_queues s) h) = j # js"
      "hr_worker (mg_rt s h) = Wk_recv"  "hr_rx (mg_rt s h) = Some h"
      "t = upd_rt h (\<lambda>r. r\<lparr>hr_worker := Wk_hold j\<rparr>)
             (s\<lparr>mg_queues := mm_put h ((mm_cells (mg_queues s) h)\<lparr>mq_queue := js\<rparr>) (mg_queues s)\<rparr>)"
  | (leave) q where "mq_queue (mm_cells (mg_queues s) h) = []"
      "mq_closed (mm_cells (mg_queues s) h)" "hr_worker (mg_rt s h) = Wk_recv" 
      "mm_cells q = mm_cells (mg_queues s)" "mm_brk q = mm_brk (mg_queues s)"
      "t = upd_rt h (\<lambda>r. r\<lparr>hr_worker := Wk_done, hr_rx := None,
                              hr_pending_ops := hr_pending_ops r - 1\<rparr>) (s\<lparr>mg_queues := q\<rparr>)"
proof -
  have rx: "hr_worker (mg_rt s h) = Wk_recv" "hr_rx (mg_rt s h) = Some h"
    using assms host_ok_I [OF assms(1,2)]
    by (auto simp: worker_recv_def host_ok_def rx_ok_def split: worker.splits option.splits)
  show thesis
  proof (cases "mq_queue (mm_cells (mg_queues s) h)")
    case Nil
    then show ?thesis
      using assms(3) rx leave
      by (auto simp: worker_recv_def mpsc_await_ready_def mpsc_await_resume_def
        receiver_close_rx_def mpsc_close_def mpsc_close_locked_def split: if_splits)
  next
    case (Cons j js)
    then show ?thesis
      using assms(3) rx job
      by (auto simp: worker_recv_def mpsc_await_ready_def mpsc_await_resume_def)
  qed
qed

lemma layout_recv:
  assumes "layout_ok s" and "h < mg_nhosts s" and "worker_recv h s = Some t"
  shows "layout_ok t"
  using assms
proof (cases rule: worker_recv_cases)
  case job
  then show ?thesis using assms(1)
    by (auto simp: layout_ok_def host_ok_def slot_ok_def closing_ok_def sub_ok_def cell_ok_def rx_ok_def)
next
  case leave
  moreover have "rx_ok h None True [] True" by (simp add: rx_ok_def)
  ultimately show ?thesis using assms(1)
    by (auto simp: layout_ok_def host_ok_def slot_ok_def closing_ok_def sub_ok_def cell_ok_def)
qed

definition sends :: "submission \<Rightarrow> nat \<Rightarrow> 'h mgr \<Rightarrow> 'h mgr \<Rightarrow> bool" where
  "sends u a s t \<longleftrightarrow>
     mq_queue (mm_cells (mg_queues t) a) =
       mq_queue (mm_cells (mg_queues s) a) @ [make_job u (Some (om_brk (mg_replies s)))] \<and>
     mg_cancels t = mg_cancels s \<and>
     om_cells (mg_replies t) = (om_cells (mg_replies s))(om_brk (mg_replies s) := oneshot_fresh) \<and>
     mg_accepted t = insert (om_brk (mg_replies s)) (mg_accepted s)"

definition refuses :: "submission \<Rightarrow> nat \<Rightarrow> 'h mgr \<Rightarrow> 'h mgr \<Rightarrow> bool" where
  "refuses u a s t \<longleftrightarrow>
     mq_queue (mm_cells (mg_queues t) a) = mq_queue (mm_cells (mg_queues s) a) \<and>
     mg_cancels t = (mg_cancels s)(su_id u := None) \<and>
     om_cells (mg_replies t) =
       (om_cells (mg_replies s))(om_brk (mg_replies s) := oneshot_fresh\<lparr>os_closed := True\<rparr>) \<and>
     mg_accepted t = mg_accepted s"

definition drops_sub :: "nat \<Rightarrow> nat \<Rightarrow> 'h mgr \<Rightarrow> 'h mgr \<Rightarrow> bool" where
  "drops_sub i a s t \<longleftrightarrow>
     mg_subs t = take i (mg_subs s) @ drop (Suc i) (mg_subs s) \<and>
     (\<forall>h. h \<noteq> a \<longrightarrow> mm_cells (mg_queues t) h = mm_cells (mg_queues s) h) \<and>
     mq_closed (mm_cells (mg_queues t) a) = mq_closed (mm_cells (mg_queues s) a) \<and>
     mq_senders (mm_cells (mg_queues t) a) = mq_senders (mm_cells (mg_queues s) a) - 1 \<and>
     mm_brk (mg_queues t) = mm_brk (mg_queues s) \<and> om_brk (mg_replies t) = Suc (om_brk (mg_replies s)) \<and>
     mg_hosts t = mg_hosts s \<and> mg_open t = mg_open s \<and> mg_closing t = mg_closing s \<and>
     mg_rt t = mg_rt s \<and> mg_nhosts t = mg_nhosts s \<and> mg_next t = mg_next s \<and> mg_issued t = mg_issued s \<and>
     mg_task_host t = mg_task_host s \<and>
     mg_cell_task t = (mg_cell_task s)(om_brk (mg_replies s) := su_id (mg_subs s ! i))"

lemma subs_of_nth:
  "i < length us \<Longrightarrow> subs_of h us = subs_of h (take i us @ drop (Suc i) us) +
     (if su_tx (us ! i) = Some h then 1 else 0)"
  by (subst (1) id_take_nth_drop [of i us]) (simp_all add: subs_of_def)

lemma submit_send_effect:
  assumes "layout_ok s" and "i < length (mg_subs s)"
  shows "\<exists>a < mg_nhosts s. su_tx (mg_subs s ! i) = Some a \<and>
    drops_sub i a s (snd (submit_send i s)) \<and>
    (if mg_open s a
     then fst (submit_send i s) = Some (su_id (mg_subs s ! i), Some (om_brk (mg_replies s))) \<and>
          sends (mg_subs s ! i) a s (snd (submit_send i s))
     else fst (submit_send i s) = None \<and> refuses (mg_subs s ! i) a s (snd (submit_send i s)))"
proof -
  let ?u = "mg_subs s ! i"
  obtain a where a: "a < mg_nhosts s" "su_tx ?u = Some a"
    using assms nth_mem [OF assms(2)] unfolding layout_ok_def sub_ok_def by blast
  have c: "mq_closed (mm_cells (mg_queues s) a) = (\<not> mg_open s a)"
    and n: "mg_open s a \<Longrightarrow> 2 \<le> mq_senders (mm_cells (mg_queues s) a)"
    using host_ok_I [OF assms(1) a(1)] subs_of_nth [OF assms(2), of a] a(2)
    by (auto simp: host_ok_def cell_ok_def)
  show ?thesis
  proof (cases "mg_open s a")
    case True
    then show ?thesis using a c n
      by (auto simp: submit_send_def Let_def oneshot_channel_def sender_send_def mpsc_send_def
          sender_release_def sender_count_def sends_def drops_sub_def)
  next
    case False
    then show ?thesis using a c
      by (auto simp: submit_send_def Let_def oneshot_channel_def sender_send_def mpsc_send_def
          sender_release_def sender_count_def mpsc_close_def mpsc_close_locked_def refuses_def
          os_sender_close_def oneshot_close_def oneshot_close_locked_def oneshot_fresh_def
          drops_sub_def)
  qed
qed

lemma layout_send:
  assumes "layout_ok s" and "i < length (mg_subs s)"
  shows "layout_ok (snd (submit_send i s))"
proof -
  let ?t = "snd (submit_send i s)"
  obtain a where a: "a < mg_nhosts s" "su_tx (mg_subs s ! i) = Some a" and d: "drops_sub i a s ?t"
    and e: "if mg_open s a then sends (mg_subs s ! i) a s ?t else refuses (mg_subs s ! i) a s ?t"
    using submit_send_effect [OF assms] by (auto split: if_splits)
  note cnt = subs_of_nth [OF assms(2)]
  have "host_ok ?t h" if "h < mg_nhosts ?t" for h
  proof (cases "h = a")
    case True
    then show ?thesis
      using host_ok_I [OF assms(1) a(1)] d e cnt [of a] a(2) rx_ok_close
      by (auto simp: host_ok_def cell_ok_def drops_sub_def sends_def refuses_def rx_ok_def
          split: if_splits option.splits)
  next
    case False
    then show ?thesis
      using host_ok_I [OF assms(1), of h] that d cnt [of h] a(2)
      by (auto simp: host_ok_def cell_ok_def drops_sub_def)
  qed
  then show ?thesis
    using assms(1) d
    by (auto simp: layout_ok_def drops_sub_def slot_ok_def closing_ok_def sub_ok_def dest: in_set_takeD in_set_dropD)
qed

lemma layout_step:
  assumes "layout_ok s" and "mgr_step J l s = Some t"
  shows "layout_ok t"
proof (cases l)
  case (L_create uuid opts ok1 ok2 heap)
  then have t: "t = snd (create_host uuid opts ok1 ok2 heap s)" using assms(2) by simp
  then show ?thesis
    using create_adds_host [OF assms(1), of uuid opts ok1 ok2 heap] layout_adds_host assms(1)
    by auto
next
  case L_lock
  then show ?thesis using assms layout_lock by fastforce
next
  case L_send
  then show ?thesis using assms layout_send by (auto split: if_splits)
next
  case L_cancel
  then show ?thesis using assms layout_cancel by fastforce
next
  case L_unlist
  then show ?thesis using assms layout_unlist by fastforce
next
  case L_close
  then show ?thesis using assms layout_close by fastforce
next
  case L_recv
  then show ?thesis using assms layout_recv by (auto split: if_splits)
next
  case L_dispatch
  then show ?thesis using assms layout_dispatch by (auto split: if_splits)
next
  case L_start
  then show ?thesis using assms by (auto intro: layout_start split: if_splits)
next
  case L_settle
  then show ?thesis using assms by (auto intro: layout_settle split: if_splits)
next
  case L_finish
  then show ?thesis using assms by (auto intro: layout_finish split: if_splits)
next
  case L_teardown
  then show ?thesis using assms by (auto intro: layout_teardown split: if_splits)
qed (use assms in \<open>auto simp: layout_replies layout_host split: if_splits\<close>)

interpretation mgr_layout: machine "mgr_step J" "mgr_init heap" layout_ok
  by unfold_locales (blast intro: layout_init layout_step)+

end
