(* ===== verification/HostAccounts.thy ===== *)
theory HostAccounts
  imports HostTasks
begin

text \<open>
  The two accounts of the manager.  \<open>gather\<close> sums a measure of jobs over everything the hosts
  hold.  \<open>tasks_ok\<close>: the cancellation table has exactly one entry for every task that is between
  its \<open>submit\<close> and the end of \<open>run_one_job\<close>.  \<open>replies_ok\<close>: every accepted reply cell is either
  answered or carried by exactly one job of the task's host.
\<close>

section \<open>Jobs of a host\<close>

fun held_jobs :: "worker \<Rightarrow> job list" where
  "held_jobs (Wk_hold j) = [j]"
| "held_jobs Wk_recv = []"
| "held_jobs Wk_done = []"

definition host_jobs :: "'h mgr \<Rightarrow> nat \<Rightarrow> job multiset" where
  "host_jobs s h =
     mset (mq_queue (mm_cells (mg_queues s) h)) + mset (held_jobs (hr_worker (mg_rt s h))) +
     mset (map fst (hr_running (mg_rt s h)))"

definition gather :: "(job \<Rightarrow> 'k multiset) \<Rightarrow> 'h mgr \<Rightarrow> 'k multiset" where
  "gather f s = (\<Sum>h < mg_nhosts s. \<Sum>\<^sub># (image_mset f (host_jobs s h)))"

lemma gather_same:
  "mg_nhosts t = mg_nhosts s \<Longrightarrow> (\<And>h. h < mg_nhosts s \<Longrightarrow> host_jobs t h = host_jobs s h) \<Longrightarrow>
    gather f t = gather f s"
  by (simp add: gather_def)

lemma gather_upd:
  fixes f :: "job \<Rightarrow> 'k multiset"
  assumes "h < mg_nhosts s" and "mg_nhosts t = mg_nhosts s"
    and "\<And>h'. h' < mg_nhosts s \<Longrightarrow> h' \<noteq> h \<Longrightarrow> host_jobs t h' = host_jobs s h'"
  shows "gather f t + \<Sum>\<^sub># (image_mset f (host_jobs s h)) =
    gather f s + \<Sum>\<^sub># (image_mset f (host_jobs t h))"
proof -
  have split: "(\<Sum>k<mg_nhosts s. g k) = g h + (\<Sum>k\<in>{..<mg_nhosts s} - {h}. g k)"
    for g :: "nat \<Rightarrow> 'k multiset"
    using assms(1) by (simp add: sum.remove)
  have "(\<Sum>k\<in>{..<mg_nhosts s} - {h}. \<Sum>\<^sub># (image_mset f (host_jobs t k))) =
    (\<Sum>k\<in>{..<mg_nhosts s} - {h}. \<Sum>\<^sub># (image_mset f (host_jobs s k)))"
    using assms(3) by (intro sum.cong) auto
  then show ?thesis
    by (simp add: gather_def assms(2) split [of "\<lambda>k. \<Sum>\<^sub># (image_mset f (host_jobs s k))"]
        split [of "\<lambda>k. \<Sum>\<^sub># (image_mset f (host_jobs t k))"] ac_simps)
qed

lemma gather_add:
  assumes "h < mg_nhosts s" and "mg_nhosts t = mg_nhosts s"
    and "\<And>h'. h' < mg_nhosts s \<Longrightarrow> h' \<noteq> h \<Longrightarrow> host_jobs t h' = host_jobs s h'"
    and "host_jobs t h = add_mset j (host_jobs s h)"
  shows "gather f t = f j + gather f s"
  using gather_upd [OF assms(1-3), of f] assms(4) by simp

lemma gather_mem:
  "h < mg_nhosts s \<Longrightarrow> j \<in># host_jobs s h \<Longrightarrow> k \<in># f j \<Longrightarrow> k \<in># gather f s"
  by (force simp: gather_def set_mset_sum)

lemma gather_memD:
  "k \<in># gather f s \<Longrightarrow> \<exists>h < mg_nhosts s. \<exists>j \<in># host_jobs s h. k \<in># f j"
  by (auto simp: gather_def set_mset_sum)

subsection \<open>What each event does to the jobs\<close>

lemma host_jobs_cong:
  "mg_queues t = mg_queues s \<Longrightarrow> mg_rt t h = mg_rt s h \<Longrightarrow> host_jobs t h = host_jobs s h"
  by (simp add: host_jobs_def)

lemma jobs_adds_host:
  assumes "adds_host s t" and "h < mg_nhosts t"
  shows "host_jobs t h = (if h = mg_nhosts s then {#} else host_jobs s h)"
  using assms by (auto simp: adds_host_def Let_def fresh_host_def host_jobs_def)

lemma gather_adds_host:
  assumes "adds_host s t"
  shows "gather f t = gather f s"
proof -
  have "mg_nhosts t = Suc (mg_nhosts s)" using assms by (simp add: adds_host_def Let_def)
  moreover have "host_jobs t h = (if h = mg_nhosts s then {#} else host_jobs s h)"
    if "h < Suc (mg_nhosts s)" for h
    using jobs_adds_host [OF assms] that calculation by simp
  ultimately show ?thesis by (simp add: gather_def)
qed

lemma jobs_recv:
  assumes "layout_ok s" and "h < mg_nhosts s" and "worker_recv h s = Some t"
  shows "host_jobs t h' = host_jobs s h'" and "same_tables s t" and "mg_nhosts t = mg_nhosts s"
    and "mg_replies t = mg_replies s" and "mg_hosts t = mg_hosts s"
  using assms by (cases rule: worker_recv_cases; simp add: host_jobs_def same_tables_def)+

lemma jobs_dispatch:
  assumes "worker_dispatch h s = Some t"
  shows "host_jobs t h' = host_jobs s h'" and "same_tables s t" and "mg_nhosts t = mg_nhosts s"
    and "mg_replies t = mg_replies s"
  using assms
  by (auto simp: worker_dispatch_def host_jobs_def same_tables_def split: worker.splits if_splits)

lemma jobs_host:
  shows "same_tables s (host_runs h heap n http s)" "host_jobs (host_runs h heap n http s) g = host_jobs s g"
    "mg_nhosts (host_runs h heap n http s) = mg_nhosts s"
  by (auto simp: host_runs_def host_jobs_def same_tables_def)

lemma jobs_teardown:
  assumes "teardown late h s = Some t"
  shows "host_jobs t h' = host_jobs s h'" and "same_tables s t" and "mg_nhosts t = mg_nhosts s"
    and "mg_replies t = mg_replies s"
  using assms by (auto simp: teardown_def host_jobs_def same_tables_def split: if_splits)

lemma jobs_set_running:
  assumes "i < length (hr_running (mg_rt s h))"
  shows "add_mset (fst (hr_running (mg_rt s h) ! i)) (host_jobs (set_running h i j st heap s) h) =
      add_mset j (host_jobs s h)"
    and "h' \<noteq> h \<Longrightarrow> host_jobs (set_running h i j st heap s) h' = host_jobs s h'"
    and "same_tables s (set_running h i j st heap s)"
    and "mg_nhosts (set_running h i j st heap s) = mg_nhosts s"
    and "mg_replies (set_running h i j st heap s) = mg_replies s"
proof -
  have "mset (map fst ((hr_running (mg_rt s h))[i := (j, st)])) =
    add_mset j (mset (map fst (hr_running (mg_rt s h))) - {#fst (hr_running (mg_rt s h) ! i)#})"
    using assms by (simp add: map_update mset_update)
  moreover have "fst (hr_running (mg_rt s h) ! i) \<in># mset (map fst (hr_running (mg_rt s h)))"
    using assms by (simp add: nth_mem)
  ultimately show "add_mset (fst (hr_running (mg_rt s h) ! i))
      (host_jobs (set_running h i j st heap s) h) = add_mset j (host_jobs s h)"
    by (simp add: host_jobs_def set_running_def)
qed (simp_all add: set_running_def host_jobs_def same_tables_def)

lemma jobs_finish:
  assumes "job_finish h i s = Some t"
  defines "j \<equiv> fst (hr_running (mg_rt s h) ! i)"
  shows "host_jobs s h = add_mset j (host_jobs t h)"
    and "h' \<noteq> h \<Longrightarrow> host_jobs t h' = host_jobs s h'"
    and "i < length (hr_running (mg_rt s h))" and "snd (hr_running (mg_rt s h) ! i) = St_replied"
    and "mg_nhosts t = mg_nhosts s" and "mg_replies t = mg_replies s"
    and "same_tables (s\<lparr>mg_cancels := (mg_cancels s)(j_task_id j := None)\<rparr>) t"
proof -
  have i: "i < length (hr_running (mg_rt s h))" "snd (hr_running (mg_rt s h) ! i) = St_replied"
    and t: "t = forget_task (j_task_id j)
      (upd_rt h (\<lambda>r. r\<lparr>hr_running := take i (hr_running r) @ drop (Suc i) (hr_running r),
         hr_in_flight := hr_in_flight r - 1, hr_pending_ops := hr_pending_ops r - 1\<rparr>) s)"
    using assms(1) by (auto simp: job_finish_def j_def split: if_splits)
  show "i < length (hr_running (mg_rt s h))" "snd (hr_running (mg_rt s h) ! i) = St_replied"
    by (rule i)+
  have "hr_running (mg_rt s h) = take i (hr_running (mg_rt s h)) @
      hr_running (mg_rt s h) ! i # drop (Suc i) (hr_running (mg_rt s h))"
    using i(1) by (rule id_take_nth_drop)
  then have "mset (map fst (hr_running (mg_rt s h))) =
      add_mset j (mset (map fst (take i (hr_running (mg_rt s h)) @
                                 drop (Suc i) (hr_running (mg_rt s h)))))"
    unfolding j_def by (metis append.simps list.simps(9) map_append mset.simps(2) mset_append
        union_mset_add_mset_right)
  then show "host_jobs s h = add_mset j (host_jobs t h)"
    by (simp add: host_jobs_def t forget_task_def)
qed (use assms(1) in \<open>auto simp: job_finish_def forget_task_def host_jobs_def same_tables_def j_def
      split: if_splits\<close>)

lemma job_start_cases:
  assumes "job_start J h i s = Some t"
  shows "i < length (hr_running (mg_rt s h)) \<and> snd (hr_running (mg_rt s h) ! i) = St_spawned \<and>
    (\<exists>b heap. (\<exists>r. t = job_reply h i (fst (hr_running (mg_rt s h) ! i)) r heap (s\<lparr>mg_bridges := b\<rparr>)) \<or>
       (\<exists>w. t = set_running h i (fst (hr_running (mg_rt s h) ! i)) (St_waiting w) heap
                  (s\<lparr>mg_bridges := b\<rparr>)))"
  using assms
  by (auto simp: job_start_def Let_def split: if_splits option.splits prod.splits exec_out.splits)

lemma job_settle_cases:
  assumes "job_settle J h i magic argv s = Some t"
  shows "i < length (hr_running (mg_rt s h)) \<and>
    (\<exists>w. snd (hr_running (mg_rt s h) ! i) = St_waiting w) \<and>
    (\<exists>b. t = s\<lparr>mg_bridges := b\<rparr> \<or>
       (\<exists>r heap. t = job_reply h i (fst (hr_running (mg_rt s h) ! i)) r heap (s\<lparr>mg_bridges := b\<rparr>)))"
  using assms
  by (auto simp: job_settle_def split: if_splits option.splits prod.splits stage.splits)

lemma host_jobs_simps [simp]:
  "host_jobs (s\<lparr>mg_bridges := b\<rparr>) h = host_jobs s h"
  "host_jobs (s\<lparr>mg_replies := m\<rparr>) h = host_jobs s h"
  "host_jobs (s\<lparr>mg_flags := f\<rparr>) h = host_jobs s h"
  by (simp_all add: host_jobs_def)

lemma same_tables_simps [simp]:
  "same_tables s s"
  "same_tables s (s\<lparr>mg_bridges := b\<rparr>)" "same_tables (s\<lparr>mg_bridges := b\<rparr>) t = same_tables s t"
  "same_tables s (s\<lparr>mg_replies := m\<rparr>)" "same_tables (s\<lparr>mg_replies := m\<rparr>) t = same_tables s t"
  "same_tables s (s\<lparr>mg_flags := f\<rparr>)"
  by (simp_all add: same_tables_def)

lemma reply_job_keeps:
  "reply_job j r m = (j', m', ws) \<Longrightarrow>
    j_task_id j' = j_task_id j \<and> j_cancelled j' = j_cancelled j \<and> om_brk m' = om_brk m"
  by (auto simp: reply_job_def os_sender_send_def oneshot_send_def
      split: if_splits option.splits prod.splits)

section \<open>The cancellation table\<close>

definition job_key :: "job \<Rightarrow> 64 word \<times> nat option" where
  "job_key j = (j_task_id j, j_cancelled j)"

definition host_keys :: "'h mgr \<Rightarrow> nat \<Rightarrow> (64 word \<times> nat option) multiset" where
  "host_keys s h = image_mset job_key (host_jobs s h)"

definition all_tasks :: "'h mgr \<Rightarrow> 64 word multiset" where
  "all_tasks s = mset (map su_id (mg_subs s)) + gather (\<lambda>j. {#j_task_id j#}) s"

definition ids_ok :: "'h mgr \<Rightarrow> bool" where
  "ids_ok s \<longleftrightarrow>
     mg_next s = of_nat (Suc (mg_issued s)) \<and>
     (\<forall>k f. mg_cancels s k = Some f \<longrightarrow> unat k \<le> mg_issued s \<and> f < mg_nflags s) \<and>
     (\<forall>k k' f. mg_cancels s k = Some f \<longrightarrow> mg_cancels s k' = Some f \<longrightarrow> k' = k)"

definition key_ok :: "'h mgr \<Rightarrow> nat \<Rightarrow> 64 word \<Rightarrow> nat option \<Rightarrow> bool" where
  "key_ok s h k c \<longleftrightarrow> c \<noteq> None \<and> mg_cancels s k = c \<and> mg_task_host s k = h"

definition tasks_inv :: "'h mgr \<Rightarrow> bool" where
  "tasks_inv s \<longleftrightarrow> ids_ok s \<and>
     (\<forall>k. count (all_tasks s) k = (if mg_cancels s k = None then 0 else 1)) \<and>
     (\<forall>h < mg_nhosts s. \<forall>(k, c) \<in># host_keys s h. key_ok s h k c) \<and>
     (\<forall>u \<in> set (mg_subs s). \<exists>h. su_tx u = Some h \<and> key_ok s h (su_id u) (Some (su_flag u)))"

definition tasks_ok :: "'h mgr \<Rightarrow> bool" where
  "tasks_ok s \<longleftrightarrow> (mg_issued s < 2 ^ 64 - 1 \<longrightarrow> tasks_inv s)"

lemma gather_ids:
  "gather (\<lambda>j. {#j_task_id j#}) s = (\<Sum>h < mg_nhosts s. image_mset fst (host_keys s h))"
  by (simp add: gather_def host_keys_def image_mset.compositionality comp_def job_key_def)

lemma host_keys_simps [simp]:
  "host_keys (s\<lparr>mg_bridges := b\<rparr>) h = host_keys s h"
  "host_keys (s\<lparr>mg_replies := m\<rparr>) h = host_keys s h"
  "host_keys (s\<lparr>mg_flags := f\<rparr>) h = host_keys s h"
  by (simp_all add: host_keys_def)

lemma tasks_inv_frame:
  assumes "tasks_inv s" and "same_tables s t" and "mg_nhosts t = mg_nhosts s"
    and "\<And>h. h < mg_nhosts s \<Longrightarrow> host_keys t h = host_keys s h"
  shows "tasks_inv t"
  using assms
  by (simp add: tasks_inv_def all_tasks_def gather_ids same_tables_def ids_ok_def key_ok_def)

lemma tasks_ok_frame:
  assumes "tasks_ok s" and "same_tables s t" and "mg_nhosts t = mg_nhosts s"
    and "\<And>h. h < mg_nhosts s \<Longrightarrow> host_keys t h = host_keys s h"
  shows "tasks_ok t"
  using assms tasks_inv_frame [of s t] by (simp add: tasks_ok_def same_tables_def)

lemma keys_set_running:
  assumes "i < length (hr_running (mg_rt s h))"
    and "job_key j = job_key (fst (hr_running (mg_rt s h) ! i))"
  shows "host_keys (set_running h i j st heap s) h' = host_keys s h'"
proof (cases "h' = h")
  case True
  have "image_mset job_key (add_mset (fst (hr_running (mg_rt s h) ! i))
      (host_jobs (set_running h i j st heap s) h)) = image_mset job_key (add_mset j (host_jobs s h))"
    using jobs_set_running(1) [OF assms(1)] by simp
  then show ?thesis using True assms(2) by (simp add: host_keys_def)
next
  case False
  then show ?thesis using jobs_set_running(2) [OF assms(1)] by (simp add: host_keys_def)
qed

lemma same_tables_running:
  "same_tables s0 s \<Longrightarrow> same_tables s0 (set_running h i j st heap s)"
  "same_tables s0 s \<Longrightarrow> same_tables s0 (job_reply h i j r heap s)"
  "mg_nhosts (set_running h i j st heap s) = mg_nhosts s"
  "mg_nhosts (job_reply h i j r heap s) = mg_nhosts s"
  by (auto simp: set_running_def job_reply_def same_tables_def split: prod.splits)

lemma keys_job_reply:
  assumes "i < length (hr_running (mg_rt s h))" and "j = fst (hr_running (mg_rt s h) ! i)"
  shows "host_keys (job_reply h i j r heap s) h' = host_keys s h'"
proof -
  obtain j' m ws where rj: "reply_job j r (mg_replies s) = (j', m, ws)" by (metis prod_cases3)
  have e: "job_reply h i j r heap s = set_running h i j' St_replied heap (s\<lparr>mg_replies := m\<rparr>)"
    by (simp add: job_reply_def rj)
  show "host_keys (job_reply h i j r heap s) h' = host_keys s h'"
    unfolding e using keys_set_running [of i "s\<lparr>mg_replies := m\<rparr>" h j'] reply_job_keeps [OF rj] assms
    by (simp add: job_key_def)
qed

lemma tasks_start: "tasks_ok s \<Longrightarrow> job_start J h i s = Some t \<Longrightarrow> tasks_ok t"
  by (erule tasks_ok_frame)
    (auto dest!: job_start_cases simp: keys_job_reply keys_set_running same_tables_running)

lemma tasks_settle: "tasks_ok s \<Longrightarrow> job_settle J h i magic argv s = Some t \<Longrightarrow> tasks_ok t"
  by (erule tasks_ok_frame)
    (auto dest!: job_settle_cases simp: keys_job_reply same_tables_running)

lemma tasks_ok_jobs:
  assumes "tasks_ok s" and "same_tables s t" and "mg_nhosts t = mg_nhosts s"
    and "\<And>h. host_jobs t h = host_jobs s h"
  shows "tasks_ok t"
  using assms(1-3) by (rule tasks_ok_frame) (simp add: host_keys_def assms(4))

lemma tasks_dispatch: "tasks_ok s \<Longrightarrow> worker_dispatch h s = Some t \<Longrightarrow> tasks_ok t"
  by (rule tasks_ok_jobs [OF _ jobs_dispatch(2,3,1)])

lemma tasks_host: "tasks_ok s \<Longrightarrow> tasks_ok (host_runs h heap n http s)"
  by (rule tasks_ok_jobs [OF _ jobs_host(1,3,2)])

lemma tasks_teardown: "tasks_ok s \<Longrightarrow> teardown late h s = Some t \<Longrightarrow> tasks_ok t"
  by (rule tasks_ok_jobs [OF _ jobs_teardown(2,3,1)])

lemma tasks_recv:
  "tasks_ok s \<Longrightarrow> layout_ok s \<Longrightarrow> h < mg_nhosts s \<Longrightarrow> worker_recv h s = Some t \<Longrightarrow> tasks_ok t"
  by (rule tasks_ok_jobs [OF _ jobs_recv(2,3,1)])

lemma tasks_cancel: "tasks_ok s \<Longrightarrow> tasks_ok (snd (cancel k s))"
  by (erule tasks_ok_frame) (auto simp: cancel_def split: option.splits)

lemma tasks_replies: "tasks_ok s \<Longrightarrow> tasks_ok (s\<lparr>mg_replies := m\<rparr>)"
  by (erule tasks_ok_frame) auto

lemma queue_sender_close:
  "sender_close x m = (m', ws) \<Longrightarrow> mq_queue (mm_cells m' a) = mq_queue (mm_cells m a)"
  by (auto simp: sender_close_def mpsc_close_def mpsc_close_locked_def
      split: option.splits prod.splits if_splits)

lemma queue_sender_move_assign:
  "sender_move_assign same x y m = (x', y', m', ws) \<Longrightarrow>
    mq_queue (mm_cells m' a) = mq_queue (mm_cells m a)"
  by (auto simp: sender_move_assign_def sender_release_def sender_count_def mpsc_close_def
      mpsc_close_locked_def Let_def split: option.splits prod.splits if_splits)

lemma jobs_unlist:
  "mg_queues (snd (destroy_unlist host_id s)) = mg_queues s"
  "host_jobs (snd (destroy_unlist host_id s)) h = host_jobs s h"
  "same_tables s (snd (destroy_unlist host_id s))"
  "mg_replies (snd (destroy_unlist host_id s)) = mg_replies s"
  by (auto simp: host_jobs_def destroy_unlist_def same_tables_def split: option.splits)

lemma queue_close:
  "destroy_close g s = Some t \<Longrightarrow>
    mq_queue (mm_cells (mg_queues t) h) = mq_queue (mm_cells (mg_queues s) h)"
  by (auto simp: destroy_close_def queue_sender_move_assign [of False] queue_sender_close
      split: option.splits prod.splits)

lemma jobs_close:
  assumes "destroy_close g s = Some t"
  shows "host_jobs t h = host_jobs s h" and "same_tables s t" and "mg_replies t = mg_replies s"
    and "mg_rt t = mg_rt s" and "mg_nhosts t = mg_nhosts s" and "mg_hosts t = mg_hosts s"
proof -
  show rt: "mg_rt t = mg_rt s" and "mg_nhosts t = mg_nhosts s" using rt_close [OF assms] by simp_all
  show "host_jobs t h = host_jobs s h" by (simp add: host_jobs_def queue_close [OF assms] rt)
  show "same_tables s t" and "mg_replies t = mg_replies s" and "mg_hosts t = mg_hosts s"
    using assms by (auto simp: destroy_close_def same_tables_def split: option.splits prod.splits)
qed

lemma tasks_unlist: "tasks_ok s \<Longrightarrow> tasks_ok (snd (destroy_unlist host_id s))"
  by (erule tasks_ok_frame) (simp_all add: jobs_unlist host_keys_def)

lemma tasks_close: "tasks_ok s \<Longrightarrow> destroy_close h s = Some t \<Longrightarrow> tasks_ok t"
  by (erule tasks_ok_frame) (simp_all add: jobs_close host_keys_def)

lemma tasks_create:
  assumes "tasks_ok s" and "adds_host s t"
  shows "tasks_ok t"
proof -
  have n: "mg_nhosts t = Suc (mg_nhosts s)" and st: "same_tables s t"
    using assms(2) by (simp_all add: adds_host_def Let_def)
  have "host_keys t h = (if h = mg_nhosts s then {#} else host_keys s h)"
    if "h < Suc (mg_nhosts s)" for h
    using jobs_adds_host [OF assms(2), of h] that n by (simp add: host_keys_def)
  then show ?thesis
    using assms(1) st
    by (auto simp: tasks_ok_def tasks_inv_def all_tasks_def gather_adds_host [OF assms(2)] n
        same_tables_def ids_ok_def key_ok_def less_Suc_eq)
qed

lemma key_in_tasks: "h < mg_nhosts s \<Longrightarrow> (k, c) \<in># host_keys s h \<Longrightarrow> k \<in># all_tasks s"
  by (auto simp: all_tasks_def host_keys_def job_key_def intro: gather_mem)

lemma tasks_finish:
  assumes "tasks_ok s" and "h < mg_nhosts s" and "job_finish h i s = Some t"
  shows "tasks_ok t"
  unfolding tasks_ok_def
proof
  assume room: "mg_issued t < 2 ^ 64 - 1"
  define j where "j = fst (hr_running (mg_rt s h) ! i)"
  let ?k = "j_task_id j"
  note fin = jobs_finish [OF assms(3), folded j_def]
  have st: "same_tables (s\<lparr>mg_cancels := (mg_cancels s)(?k := None)\<rparr>) t" by (rule fin(7))
  then have inv: "tasks_inv s" using assms(1) room by (simp add: tasks_ok_def same_tables_def)
  have "gather f s = f j + gather f t" for f :: "job \<Rightarrow> 64 word multiset"
    by (rule gather_add) (use fin assms(2) in auto)
  then have all: "all_tasks s = add_mset ?k (all_tasks t)"
    using st by (simp add: all_tasks_def same_tables_def)
  have cnt: "count (all_tasks s) k = (if mg_cancels s k = None then 0 else 1)" for k
    using inv by (simp add: tasks_inv_def)
  have gone: "?k \<notin># all_tasks t"
  proof -
    have "count (all_tasks t) ?k = 0" using cnt [of ?k] all by (auto split: if_splits)
    then show ?thesis by (simp add: count_eq_zero_iff)
  qed
  have sub: "host_keys t h' \<subseteq># host_keys s h'" if "h' < mg_nhosts s" for h'
    using fin(1,2) by (cases "h' = h") (auto simp: host_keys_def)
  have keys: "key_ok t h' k c" if "h' < mg_nhosts t" and "(k, c) \<in># host_keys t h'" for h' k c
  proof -
    have "k \<noteq> ?k" using key_in_tasks [OF that] gone by auto
    moreover have "key_ok s h' k c"
      using inv that sub [of h'] fin(5) mset_subset_eqD by (fastforce simp: tasks_inv_def)
    ultimately show ?thesis using st by (simp add: key_ok_def same_tables_def)
  qed
  have subs: "\<exists>h. su_tx u = Some h \<and> key_ok t h (su_id u) (Some (su_flag u))"
    if "u \<in> set (mg_subs t)" for u
  proof -
    have "su_id u \<noteq> ?k" using that gone by (force simp: all_tasks_def)
    then show ?thesis
      using inv that st by (fastforce simp: tasks_inv_def key_ok_def same_tables_def)
  qed
  have "count (all_tasks t) k = (if mg_cancels t k = None then 0 else 1)" for k
    using cnt [of k] all st gone by (auto simp: same_tables_def count_eq_zero_iff split: if_splits)
  moreover have "ids_ok t" using inv st by (auto simp: tasks_inv_def ids_ok_def same_tables_def split: if_splits)
  ultimately show "tasks_inv t" using keys subs by (auto simp: tasks_inv_def)
qed

definition locks :: "submission \<Rightarrow> 'h mgr \<Rightarrow> 'h mgr \<Rightarrow> bool" where
  "locks u s t \<longleftrightarrow>
     su_id u = mg_next s \<and> su_flag u = mg_nflags s \<and> mg_next t = mg_next s + 1 \<and>
     mg_cancels t = (mg_cancels s)(mg_next s := Some (mg_nflags s)) \<and>
     mg_subs t = mg_subs s @ [u] \<and> mg_issued t = Suc (mg_issued s) \<and>
     (\<exists>h < mg_nhosts s. su_tx u = Some h \<and> mg_task_host t = (mg_task_host s)(mg_next s := h)) \<and>
     mg_cell_task t = mg_cell_task s \<and> mg_accepted t = mg_accepted s"

definition lock_frame :: "'h mgr \<Rightarrow> 'h mgr \<Rightarrow> bool" where
  "lock_frame s t \<longleftrightarrow> mg_nhosts t = mg_nhosts s \<and> (\<forall>h. host_jobs t h = host_jobs s h) \<and>
     mg_nflags t = Suc (mg_nflags s) \<and> mg_replies t = mg_replies s"

lemma submit_lock_effect:
  assumes "layout_ok s" and "submit_lock host_id fn a s = (r, t)"
  shows "lock_frame s t"
    and "case r of
           None \<Rightarrow> mg_hosts s host_id = None \<and> same_tables s (t\<lparr>mg_nflags := mg_nflags s\<rparr>)
         | Some u \<Rightarrow> locks u s t \<and> su_fn u = fn \<and> su_args u = a \<and>
             (\<exists>sl. mg_hosts s host_id = Some sl \<and> su_tx u = Some (sl_host sl))"
proof -
  have "lock_frame s t \<and> (case r of
           None \<Rightarrow> mg_hosts s host_id = None \<and> same_tables s (t\<lparr>mg_nflags := mg_nflags s\<rparr>)
         | Some u \<Rightarrow> locks u s t \<and> su_fn u = fn \<and> su_args u = a \<and>
             (\<exists>sl. mg_hosts s host_id = Some sl \<and> su_tx u = Some (sl_host sl)))"
  proof (cases "mg_hosts s host_id")
    case None
    then have "r = None" "t = s\<lparr>mg_flags := (mg_flags s)(mg_nflags s := False), mg_nflags := Suc (mg_nflags s)\<rparr>"
      using assms(2) by (auto simp: submit_lock_def Let_def)
    then show ?thesis using None by (simp add: lock_frame_def host_jobs_def same_tables_def)
  next
    case (Some sl)
    note sl = slot_ok_I [OF assms(1) Some]
    obtain u where "r = Some u" and u: "u = \<lparr>su_id = mg_next s, su_fn = fn, su_args = a, su_tx = sl_tx sl, su_flag = mg_nflags s\<rparr>"
      and t: "t = s\<lparr>mg_flags := (mg_flags s)(mg_nflags s := False), mg_nflags := Suc (mg_nflags s),
         mg_next := mg_next s + 1, mg_cancels := (mg_cancels s)(mg_next s := Some (mg_nflags s)),
         mg_queues := sender_count 1 (sl_host sl) (mg_queues s), mg_subs := mg_subs s @ [u],
         mg_issued := Suc (mg_issued s), mg_task_host := (mg_task_host s)(mg_next s := sl_host sl)\<rparr>"
      using assms(2) Some sl(2) by (simp add: submit_lock_def Let_def sender_bool_def sender_copy_def)
    then show ?thesis
      using Some sl(1,2) by (simp add: lock_frame_def host_jobs_def sender_count_def locks_def)
  qed
  then show "lock_frame s t"
    and "case r of
           None \<Rightarrow> mg_hosts s host_id = None \<and> same_tables s (t\<lparr>mg_nflags := mg_nflags s\<rparr>)
         | Some u \<Rightarrow> locks u s t \<and> su_fn u = fn \<and> su_args u = a \<and>
             (\<exists>sl. mg_hosts s host_id = Some sl \<and> su_tx u = Some (sl_host sl))"
    by blast+
qed

lemma tasks_lock:
  assumes "tasks_ok s" and "layout_ok s" and "submit_lock host_id fn a s = (r, t)"
  shows "tasks_ok t"
proof (cases r)
  case None
  then have st: "same_tables s (t\<lparr>mg_nflags := mg_nflags s\<rparr>)" and fr: "lock_frame s t"
    using submit_lock_effect [OF assms(2,3)] by auto
  then show ?thesis
    using assms(1)
    by (simp add: tasks_ok_def tasks_inv_def same_tables_def lock_frame_def all_tasks_def
        gather_def ids_ok_def key_ok_def host_keys_def) fastforce
next
  case (Some u)
  then have l: "locks u s t" and fr: "lock_frame s t"
    using submit_lock_effect [OF assms(2,3)] by auto
  show ?thesis
    unfolding tasks_ok_def
  proof
    assume room: "mg_issued t < 2 ^ 64 - 1"
    then have inv: "tasks_inv s" using assms(1) l by (simp add: tasks_ok_def locks_def)
    then have ids: "ids_ok s" by (simp add: tasks_inv_def)
    let ?k = "mg_next s"
    have iss: "mg_issued t = Suc (mg_issued s)" using l by (simp add: locks_def)
    have k: "unat ?k = Suc (mg_issued s)"
      using ids room iss by (simp add: ids_ok_def unat_of_nat take_bit_nat_eq_self del: of_nat_Suc)
    have fresh: "mg_cancels s ?k = None"
    proof (cases "mg_cancels s ?k")
      case (Some f)
      then have "unat ?k \<le> mg_issued s" using ids unfolding ids_ok_def by blast
      then show ?thesis using k by simp
    qed simp
    have gone: "?k \<notin># all_tasks s"
    proof -
      have "count (all_tasks s) ?k = 0" using inv fresh by (simp add: tasks_inv_def)
      then show ?thesis by (simp add: count_eq_zero_iff)
    qed
    have all: "all_tasks t = add_mset ?k (all_tasks s)"
      using l fr by (simp add: all_tasks_def locks_def lock_frame_def gather_def)
    obtain h where h: "h < mg_nhosts s" "su_tx u = Some h" "mg_task_host t = (mg_task_host s)(?k := h)"
      using l by (auto simp: locks_def)
    have keep: "key_ok t h' k c" if "key_ok s h' k c" "k \<noteq> ?k" for h' k c
      using that l h by (simp add: key_ok_def locks_def)
    have "count (all_tasks t) k = (if mg_cancels t k = None then 0 else 1)" for k
      using inv l gone fresh by (auto simp: all tasks_inv_def locks_def)
    moreover have "ids_ok t"
    proof -
      have "mg_next t = of_nat (Suc (mg_issued t))"
        using ids l by (simp add: ids_ok_def locks_def)
      moreover have "f < mg_nflags s" if "mg_cancels s k = Some f" for k f
        using ids that by (simp add: ids_ok_def)
      ultimately show ?thesis
        using ids l k fr
        by (auto simp: ids_ok_def locks_def lock_frame_def less_Suc_eq le_Suc_eq split: if_splits)
    qed
    moreover have "key_ok t h' k c" if "h' < mg_nhosts t" "(k, c) \<in># host_keys t h'" for h' k c
    proof (rule keep)
      have hk: "h' < mg_nhosts s" "(k, c) \<in># host_keys s h'"
        using that fr by (simp_all add: lock_frame_def host_keys_def)
      then show "key_ok s h' k c" using inv by (auto simp: tasks_inv_def)
      show "k \<noteq> ?k" using key_in_tasks [OF hk] gone by auto
    qed
    moreover have "\<exists>h. su_tx v = Some h \<and> key_ok t h (su_id v) (Some (su_flag v))"
      if v: "v \<in> set (mg_subs t)" for v
    proof (cases "v \<in> set (mg_subs s)")
      case True
      then have "su_id v \<noteq> ?k" using gone by (force simp: all_tasks_def)
      then show ?thesis using inv True keep by (fastforce simp: tasks_inv_def)
    next
      case False
      then have "v = u" using v l by (simp add: locks_def)
      then show ?thesis using l h by (simp add: locks_def key_ok_def)
    qed
    ultimately show "tasks_inv t" by (auto simp: tasks_inv_def)
  qed
qed

lemma drops_sub_mset:
  assumes "drops_sub i a s t" and "i < length (mg_subs s)"
  shows "mset (mg_subs s) = add_mset (mg_subs s ! i) (mset (mg_subs t))"
proof -
  have "mset (mg_subs s) = mset (take i (mg_subs s) @ mg_subs s ! i # drop (Suc i) (mg_subs s))"
    using id_take_nth_drop [OF assms(2)] by simp
  then show ?thesis using assms(1) by (simp add: drops_sub_def)
qed

lemma jobs_sends:
  assumes "drops_sub i a s t" and "sends u a s t"
  shows "host_jobs t a = add_mset (make_job u (Some (om_brk (mg_replies s)))) (host_jobs s a)"
    and "h \<noteq> a \<Longrightarrow> host_jobs t h = host_jobs s h"
  using assms by (simp_all add: drops_sub_def sends_def host_jobs_def)

lemma jobs_refuses:
  assumes "drops_sub i a s t" and "refuses u a s t"
  shows "host_jobs t h = host_jobs s h"
  using assms by (cases "h = a") (simp_all add: drops_sub_def refuses_def host_jobs_def)

lemma make_job_simps [simp]:
  "j_task_id (make_job u r) = su_id u" "j_cancelled (make_job u r) = Some (su_flag u)"
  "j_reply (make_job u r) = r" "j_fn_name (make_job u r) = su_fn u" "j_args (make_job u r) = su_args u"
  by (simp_all add: make_job_def)

lemma tasks_sends:
  assumes "tasks_inv s" and "i < length (mg_subs s)" and "a < mg_nhosts s"
    and "su_tx (mg_subs s ! i) = Some a" and "mg_nflags t = mg_nflags s"
    and d: "drops_sub i a s t" and e: "sends (mg_subs s ! i) a s t"
  shows "tasks_inv t"
proof -
  let ?u = "mg_subs s ! i"
  have u: "key_ok s a (su_id ?u) (Some (su_flag ?u))"
    using assms(1,4) nth_mem [OF assms(2)] by (auto simp: tasks_inv_def)
  have g: "gather (\<lambda>j. {#j_task_id j#}) t = {#su_id ?u#} + gather (\<lambda>j. {#j_task_id j#}) s"
    using gather_add [OF assms(3) _ jobs_sends(2) [OF d e] jobs_sends(1) [OF d e],
        of "\<lambda>j. {#j_task_id j#}"] d
    by (simp add: drops_sub_def)
  have "all_tasks t = all_tasks s"
    using drops_sub_mset [OF d assms(2)] by (simp add: all_tasks_def g)
  moreover have "set (mg_subs t) \<subseteq> set (mg_subs s)"
    using drops_sub_mset [OF d assms(2)] by (metis set_mset_add_mset_insert set_mset_mset subset_insertI)
  moreover have "key_ok t h k c" if "h < mg_nhosts t" "(k, c) \<in># host_keys t h" for h k c
  proof -
    have "(k, c) \<in># host_keys s h \<or> h = a \<and> k = su_id ?u \<and> c = Some (su_flag ?u)"
      using that jobs_sends [OF d e] by (cases "h = a") (auto simp: host_keys_def job_key_def)
    then have "key_ok s h k c"
      using that(1) assms(1) u d by (auto simp: tasks_inv_def drops_sub_def)
    then show ?thesis using d e by (simp add: key_ok_def drops_sub_def sends_def)
  qed
  ultimately show ?thesis
    using assms(1,5) d e unfolding tasks_inv_def ids_ok_def key_ok_def drops_sub_def sends_def
    by auto
qed

lemma tasks_refuses:
  assumes "tasks_inv s" and "i < length (mg_subs s)" and "a < mg_nhosts s"
    and "su_tx (mg_subs s ! i) = Some a" and "mg_nflags t = mg_nflags s"
    and d: "drops_sub i a s t" and e: "refuses (mg_subs s ! i) a s t"
  shows "tasks_inv t"
proof -
  let ?k = "su_id (mg_subs s ! i)"
  note m = drops_sub_mset [OF d assms(2)]
  have "gather f t = gather f s" for f :: "job \<Rightarrow> 64 word multiset"
    by (rule gather_same) (use d jobs_refuses [OF d e] in \<open>simp_all add: drops_sub_def\<close>)
  then have all: "all_tasks s = add_mset ?k (all_tasks t)"
    using m by (simp add: all_tasks_def)
  have cnt: "count (all_tasks s) k = (if mg_cancels s k = None then 0 else 1)" for k
    using assms(1) by (simp add: tasks_inv_def)
  have gone: "?k \<notin># all_tasks t"
  proof -
    have "count (all_tasks t) ?k = 0" using cnt [of ?k] all by (auto split: if_splits)
    then show ?thesis by (simp add: count_eq_zero_iff)
  qed
  have keep: "key_ok t h k c" if "key_ok s h k c" "k \<noteq> ?k" for h k c
    using that d e by (simp add: key_ok_def drops_sub_def refuses_def)
  have "key_ok t h k c" if "h < mg_nhosts t" "(k, c) \<in># host_keys t h" for h k c
  proof (rule keep)
    have "h < mg_nhosts s" "(k, c) \<in># host_keys s h"
      using that d jobs_refuses [OF d e] by (simp_all add: drops_sub_def host_keys_def)
    then show "key_ok s h k c" using assms(1) unfolding tasks_inv_def by blast
    show "k \<noteq> ?k" using key_in_tasks [OF that] gone by auto
  qed
  moreover have "\<exists>h. su_tx v = Some h \<and> key_ok t h (su_id v) (Some (su_flag v))"
    if v: "v \<in> set (mg_subs t)" for v
  proof -
    have "su_id v \<in># all_tasks t" using v by (simp add: all_tasks_def)
    then have "su_id v \<noteq> ?k" using gone by metis
    moreover have "v \<in> set (mg_subs s)"
      using m v by (metis insertCI set_mset_add_mset_insert set_mset_mset)
    ultimately show ?thesis using assms(1) keep by (fastforce simp: tasks_inv_def)
  qed
  moreover have "count (all_tasks t) k = (if mg_cancels t k = None then 0 else 1)" for k
    using cnt [of k] all e gone by (auto simp: refuses_def count_eq_zero_iff split: if_splits)
  moreover have "ids_ok t"
    using assms(1,5) d e
    by (auto simp: tasks_inv_def ids_ok_def drops_sub_def refuses_def split: if_splits)
  ultimately show ?thesis by (auto simp: tasks_inv_def)
qed

lemma nflags_send [simp]: "mg_nflags (snd (submit_send i s)) = mg_nflags s"
  by (auto simp: submit_send_def Let_def split: prod.splits)

lemma tasks_send:
  assumes "tasks_ok s" and "layout_ok s" and "i < length (mg_subs s)"
  shows "tasks_ok (snd (submit_send i s))"
proof -
  let ?t = "snd (submit_send i s)"
  obtain a where a: "a < mg_nhosts s" "su_tx (mg_subs s ! i) = Some a" and d: "drops_sub i a s ?t"
    and e: "if mg_open s a then sends (mg_subs s ! i) a s ?t else refuses (mg_subs s ! i) a s ?t"
    using submit_send_effect [OF assms(2,3)] by (auto split: if_splits)
  then show ?thesis
    using tasks_sends [OF _ assms(3) a _ d] tasks_refuses [OF _ assms(3) a _ d] assms(1)
    by (auto simp: tasks_ok_def drops_sub_def split: if_splits)
qed

lemma tasks_step:
  assumes "layout_ok s" and "tasks_ok s" and "mgr_step J l s = Some t"
  shows "tasks_ok t"
proof (cases l)
  case (L_create uuid opts ok1 ok2 heap)
  then show ?thesis
    using create_adds_host [OF assms(1), of uuid opts ok1 ok2 heap] tasks_create [OF assms(2)]
      assms(2,3) by auto
next
  case (L_lock host_id fn a)
  then show ?thesis using tasks_lock [OF assms(2,1), of host_id fn a] assms(3)
    by (metis mgr_step.simps(2) option.inject prod.collapse)
next
  case L_send
  then show ?thesis using assms tasks_send by (auto split: if_splits)
next
  case L_cancel
  then show ?thesis using assms tasks_cancel by fastforce
next
  case L_unlist
  then show ?thesis using assms tasks_unlist by fastforce
next
  case L_close
  then show ?thesis using assms tasks_close by fastforce
next
  case L_recv
  then show ?thesis using assms tasks_recv by (auto split: if_splits)
next
  case L_dispatch
  then show ?thesis using assms tasks_dispatch by (auto split: if_splits)
next
  case L_start
  then show ?thesis using assms by (auto intro: tasks_start split: if_splits)
next
  case L_settle
  then show ?thesis using assms by (auto intro: tasks_settle split: if_splits)
next
  case L_finish
  then show ?thesis using assms by (auto intro: tasks_finish split: if_splits)
next
  case L_host
  then show ?thesis using assms by (auto intro: tasks_host split: if_splits)
next
  case L_teardown
  then show ?thesis using assms by (auto intro: tasks_teardown split: if_splits)
qed (use assms in \<open>auto intro: tasks_replies split: if_splits\<close>)

lemma tasks_init: "tasks_ok (mgr_init heap)"
  by (simp add: tasks_ok_def tasks_inv_def ids_ok_def all_tasks_def gather_def mgr_init_def)

end
