(* ===== verification/HostReplies.thy ===== *)
theory HostReplies
  imports HostAccounts
begin

text \<open>
  The reply cells: every accepted submission is answered exactly once.  \<open>replies_ok\<close> says that
  the cells carried by jobs are exactly the accepted ones not yet sent, each carried once; then
  the theorems about the manager that need the accounts.
\<close>

definition reply_cells :: "job \<Rightarrow> nat multiset" where
  "reply_cells j = (case j_reply j of None \<Rightarrow> {#} | Some a \<Rightarrow> {#a#})"

definition stages_ok :: "job list \<Rightarrow> worker \<Rightarrow> (job \<times> stage) list \<Rightarrow> bool" where
  "stages_ok q w rs \<longleftrightarrow>
     (\<forall>j \<in> set q. j_reply j \<noteq> None) \<and> (\<forall>j \<in> set (held_jobs w). j_reply j \<noteq> None) \<and>
     (\<forall>(j, st) \<in> set rs. if st = St_replied then j_reply j = None else j_reply j \<noteq> None)"

definition host_stages :: "'h mgr \<Rightarrow> nat \<Rightarrow> bool" where
  "host_stages s h \<longleftrightarrow>
     stages_ok (mq_queue (mm_cells (mg_queues s) h)) (hr_worker (mg_rt s h)) (hr_running (mg_rt s h))"

definition unsent :: "'h mgr \<Rightarrow> nat \<Rightarrow> bool" where
  "unsent s a \<longleftrightarrow> a \<in> mg_accepted s \<and> \<not> os_sent (om_cells (mg_replies s) a)"

definition replies_ok :: "'h mgr \<Rightarrow> bool" where
  "replies_ok s \<longleftrightarrow>
     (\<forall>a. count (gather reply_cells s) a = (if unsent s a then 1 else 0)) \<and>
     (\<forall>a \<in> mg_accepted s. a < om_brk (mg_replies s) \<and> \<not> os_closed (om_cells (mg_replies s) a)) \<and>
     (\<forall>h < mg_nhosts s. host_stages s h) \<and>
     (\<forall>h < mg_nhosts s. \<forall>j \<in># host_jobs s h. \<forall>a. j_reply j = Some a \<longrightarrow>
        mg_cell_task s a = j_task_id j)"

definition same_cells :: "'h mgr \<Rightarrow> 'h mgr \<Rightarrow> bool" where
  "same_cells s t \<longleftrightarrow>
     mg_accepted t = mg_accepted s \<and> mg_cell_task t = mg_cell_task s \<and>
     mg_nhosts t = mg_nhosts s \<and> om_brk (mg_replies t) = om_brk (mg_replies s) \<and>
     (\<forall>a. os_sent (om_cells (mg_replies t) a) = os_sent (om_cells (mg_replies s) a) \<and>
          os_closed (om_cells (mg_replies t) a) = os_closed (om_cells (mg_replies s) a))"

lemma same_cellsI:
  "same_tables s t \<Longrightarrow> mg_nhosts t = mg_nhosts s \<Longrightarrow> mg_replies t = mg_replies s \<Longrightarrow> same_cells s t"
  by (simp add: same_cells_def same_tables_def)

lemma replies_frame:
  assumes "replies_ok s" and "same_cells s t" and "\<And>h. host_jobs t h = host_jobs s h"
    and "\<And>h. h < mg_nhosts s \<Longrightarrow> host_stages s h \<Longrightarrow> host_stages t h"
  shows "replies_ok t"
proof -
  have "gather f t = gather f s" for f :: "job \<Rightarrow> nat multiset"
    using assms(2,3) by (intro gather_same) (simp_all add: same_cells_def)
  then show ?thesis
    using assms by (simp add: replies_ok_def same_cells_def unsent_def)
qed

lemma replies_recv:
  assumes "replies_ok s" and "layout_ok s" and "h < mg_nhosts s" and "worker_recv h s = Some t"
  shows "replies_ok t"
proof (rule replies_frame [OF assms(1)])
  note j = jobs_recv [OF assms(2,3,4)]
  show "same_cells s t" by (rule same_cellsI) (use j in auto)
  show "host_jobs t h' = host_jobs s h'" for h' by (rule j)
  show "host_stages t h'" if "h' < mg_nhosts s" "host_stages s h'" for h'
    using assms(2,3,4)
    by (cases rule: worker_recv_cases) (use that in \<open>auto simp: host_stages_def stages_ok_def\<close>)
qed

lemma replies_dispatch:
  assumes "replies_ok s" and "worker_dispatch h s = Some t"
  shows "replies_ok t"
proof (rule replies_frame [OF assms(1)])
  note j = jobs_dispatch [OF assms(2)]
  show "same_cells s t" by (rule same_cellsI) (use j in auto)
  show "host_jobs t h' = host_jobs s h'" for h' by (rule j)
  show "host_stages t h'" if "h' < mg_nhosts s" "host_stages s h'" for h'
    using assms(2) that
    by (auto simp: worker_dispatch_def host_stages_def stages_ok_def split: worker.splits if_splits)
qed

lemma replies_host:
  assumes "replies_ok s"
  shows "replies_ok (host_runs h heap n http s)"
proof (rule replies_frame [OF assms])
  show "same_cells s (host_runs h heap n http s)"
    by (rule same_cellsI) (use jobs_host in \<open>auto simp: host_runs_def\<close>)
  show "host_jobs (host_runs h heap n http s) h' = host_jobs s h'" for h' by (rule jobs_host)
  show "host_stages (host_runs h heap n http s) h'" if "h' < mg_nhosts s" "host_stages s h'" for h'
    using that by (auto simp: host_runs_def host_stages_def)
qed

lemma replies_teardown:
  assumes "replies_ok s" and "teardown late h s = Some t"
  shows "replies_ok t"
proof (rule replies_frame [OF assms(1)])
  note j = jobs_teardown [OF assms(2)]
  show "same_cells s t" by (rule same_cellsI) (use j in auto)
  show "host_jobs t h' = host_jobs s h'" for h' by (rule j)
  show "host_stages t h'" if "h' < mg_nhosts s" "host_stages s h'" for h'
    using assms(2) that by (auto simp: teardown_def host_stages_def split: if_splits)
qed

lemma replies_unlist:
  assumes "replies_ok s"
  shows "replies_ok (snd (destroy_unlist host_id s))"
proof (rule replies_frame [OF assms(1)])
  show "same_cells s (snd (destroy_unlist host_id s))" by (rule same_cellsI) (simp_all add: jobs_unlist)
  show "host_stages (snd (destroy_unlist host_id s)) h" if "host_stages s h" for h
    using that by (simp add: host_stages_def jobs_unlist)
qed (rule jobs_unlist)

lemma replies_close:
  assumes "replies_ok s" and "destroy_close g s = Some t"
  shows "replies_ok t"
proof (rule replies_frame [OF assms(1)])
  note j = jobs_close [OF assms(2)]
  show "same_cells s t" by (rule same_cellsI) (use j in auto)
  show "host_stages t h" if "host_stages s h" for h
    using that by (simp add: host_stages_def queue_close [OF assms(2)] j)
  show "host_jobs t h = host_jobs s h" for h by (rule j)
qed

lemma replies_cancel: "replies_ok s \<Longrightarrow> replies_ok (snd (cancel k s))"
  by (erule replies_frame) (auto simp: cancel_def same_cells_def host_stages_def split: option.splits)

lemma replies_client:
  assumes "replies_ok s"
  shows "replies_ok (s\<lparr>mg_replies := om_put a (snd (oneshot_await_suspend w ex
      (om_cells (mg_replies s) a))) (mg_replies s)\<rparr>)" (is "replies_ok ?t")
    and "replies_ok (s\<lparr>mg_replies := om_put a (snd (oneshot_await_resume
      (om_cells (mg_replies s) a))) (mg_replies s)\<rparr>)"
  by (rule replies_frame [OF assms]; auto simp: same_cells_def host_stages_def
      oneshot_await_suspend_def oneshot_await_resume_def split: option.splits)+

lemma replies_create:
  assumes "replies_ok s" and "adds_host s t"
  shows "replies_ok t"
proof -
  have n: "mg_nhosts t = Suc (mg_nhosts s)" using assms(2) by (simp add: adds_host_def Let_def)
  have "mg_replies t = mg_replies s" "mg_accepted t = mg_accepted s" "mg_cell_task t = mg_cell_task s"
    using assms(2) by (simp_all add: adds_host_def Let_def same_tables_def)
  moreover have "host_stages t h" if "h < Suc (mg_nhosts s)" for h
  proof (cases "h = mg_nhosts s")
    case True
    then show ?thesis
      using assms(2) by (simp add: host_stages_def adds_host_def fresh_host_def Let_def stages_ok_def)
  next
    case False
    then have "host_stages s h" using that assms(1) by (simp add: replies_ok_def)
    then show ?thesis using False assms(2) by (simp add: host_stages_def adds_host_def Let_def)
  qed
  moreover have "host_jobs t h = (if h = mg_nhosts s then {#} else host_jobs s h)"
    if "h < Suc (mg_nhosts s)" for h
    using jobs_adds_host [OF assms(2), of h] that n by simp
  ultimately show ?thesis
    using assms(1)
    by (auto simp: replies_ok_def unsent_def gather_adds_host [OF assms(2)] n less_Suc_eq)
qed

lemma replies_lock:
  assumes "replies_ok s" and "layout_ok s" and "submit_lock host_id fn a s = (r, t)"
  shows "replies_ok t"
proof (rule replies_frame [OF assms(1)])
  note e = submit_lock_effect [OF assms(2,3)]
  show "same_cells s t"
    using e by (auto simp: same_cells_def lock_frame_def locks_def same_tables_def split: option.splits)
  show "host_jobs t h = host_jobs s h" for h using e(1) by (simp add: lock_frame_def)
  show "host_stages t h" if "host_stages s h" for h
  proof -
    have "mg_rt t = mg_rt s" using assms(3) rt_submit_lock(1) [of host_id fn a s] by simp
    moreover have "mq_queue (mm_cells (mg_queues t) h) = mq_queue (mm_cells (mg_queues s) h)"
      using assms(3) by (auto simp: submit_lock_def sender_copy_def sender_count_def Let_def
          split: option.splits if_splits)
    ultimately show ?thesis using that by (simp add: host_stages_def)
  qed
qed

lemma reply_in_accepted:
  assumes "replies_ok s" and "h < mg_nhosts s" and "j \<in># host_jobs s h" and "j_reply j = Some a"
  shows "unsent s a" and "a < om_brk (mg_replies s)" and "\<not> os_closed (om_cells (mg_replies s) a)"
proof -
  have "a \<in># gather reply_cells s"
    by (rule gather_mem [OF assms(2,3)]) (simp add: reply_cells_def assms(4))
  then have "count (gather reply_cells s) a \<noteq> 0" by (simp add: count_eq_zero_iff)
  then show u: "unsent s a" using assms(1) by (auto simp: replies_ok_def split: if_splits)
  then show "a < om_brk (mg_replies s)" and "\<not> os_closed (om_cells (mg_replies s) a)"
    using assms(1) by (auto simp: replies_ok_def unsent_def)
qed

lemma replies_sends:
  assumes "replies_ok s" and "a < mg_nhosts s"
    and d: "drops_sub i a s t" and e: "sends (mg_subs s ! i) a s t"
  shows "replies_ok t"
proof -
  let ?r = "om_brk (mg_replies s)" and ?j = "make_job (mg_subs s ! i) (Some (om_brk (mg_replies s)))"
  have n: "mg_nhosts t = mg_nhosts s" and acc: "mg_accepted t = insert ?r (mg_accepted s)"
    and cells: "om_cells (mg_replies t) = (om_cells (mg_replies s))(?r := oneshot_fresh)"
    and brk: "om_brk (mg_replies t) = Suc ?r"
    and ct: "mg_cell_task t = (mg_cell_task s)(?r := su_id (mg_subs s ! i))"
    using d e by (simp_all add: drops_sub_def sends_def)
  have g: "gather reply_cells t = add_mset ?r (gather reply_cells s)"
    using gather_add [OF assms(2) n jobs_sends(2) [OF d e] jobs_sends(1) [OF d e], of reply_cells]
    by (simp add: reply_cells_def)
  have new: "?r \<notin> mg_accepted s" using assms(1) by (auto simp: replies_ok_def)
  have "count (gather reply_cells t) x = (if unsent t x then 1 else 0)" for x
    using assms(1) new by (auto simp: g replies_ok_def unsent_def acc cells oneshot_fresh_def)
  moreover have "x < om_brk (mg_replies t) \<and> \<not> os_closed (om_cells (mg_replies t) x)"
    if "x \<in> mg_accepted t" for x
    using assms(1) that by (auto simp: replies_ok_def acc cells brk oneshot_fresh_def)
  moreover have "host_stages t h" if "h < mg_nhosts t" for h
    using that assms(1) d e n
    by (cases "h = a") (auto simp: replies_ok_def host_stages_def drops_sub_def sends_def stages_ok_def)
  moreover have "mg_cell_task t x = j_task_id j"
    if "h < mg_nhosts t" "j \<in># host_jobs t h" "j_reply j = Some x" for h j x
  proof (cases "j \<in># host_jobs s h")
    case True
    then show ?thesis
      using that n reply_in_accepted(2) [OF assms(1) _ True that(3)] assms(1)
      by (simp add: ct replies_ok_def)
  next
    case False
    then have "j = ?j" using that(2) jobs_sends [OF d e] by (cases "h = a") auto
    then show ?thesis using that(3) by (simp add: ct)
  qed
  ultimately show ?thesis by (simp add: replies_ok_def)
qed

lemma replies_refuses:
  assumes "replies_ok s" and d: "drops_sub i a s t" and e: "refuses (mg_subs s ! i) a s t"
  shows "replies_ok t"
proof -
  let ?r = "om_brk (mg_replies s)"
  have n: "mg_nhosts t = mg_nhosts s" and acc: "mg_accepted t = mg_accepted s"
    and cells: "om_cells (mg_replies t) =
      (om_cells (mg_replies s))(?r := oneshot_fresh\<lparr>os_closed := True\<rparr>)"
    and brk: "om_brk (mg_replies t) = Suc ?r"
    and ct: "mg_cell_task t = (mg_cell_task s)(?r := su_id (mg_subs s ! i))"
    using d e by (simp_all add: drops_sub_def refuses_def)
  have g: "gather reply_cells t = gather reply_cells s"
    by (rule gather_same) (simp_all add: n jobs_refuses [OF d e])
  have new: "?r \<notin> mg_accepted s" using assms(1) by (auto simp: replies_ok_def)
  then have u: "unsent t x = unsent s x" for x by (auto simp: unsent_def acc cells)
  have "x < om_brk (mg_replies t) \<and> \<not> os_closed (om_cells (mg_replies t) x)"
    if "x \<in> mg_accepted t" for x
    using assms(1) that new by (auto simp: replies_ok_def acc cells brk)
  moreover have "host_stages t h" if "h < mg_nhosts t" for h
    using that assms(1) d e n
    by (cases "h = a") (auto simp: replies_ok_def host_stages_def drops_sub_def refuses_def)
  moreover have "mg_cell_task t x = j_task_id j"
    if "h < mg_nhosts t" "j \<in># host_jobs t h" "j_reply j = Some x" for h j x
  proof -
    have j: "h < mg_nhosts s" "j \<in># host_jobs s h" using that n jobs_refuses [OF d e] by simp_all
    then show ?thesis
      using reply_in_accepted(2) [OF assms(1) j that(3)] assms(1) that(3) by (simp add: ct replies_ok_def)
  qed
  ultimately show ?thesis using assms(1) g u by (simp add: replies_ok_def)
qed

lemma replies_send:
  assumes "replies_ok s" and "layout_ok s" and "i < length (mg_subs s)"
  shows "replies_ok (snd (submit_send i s))"
proof -
  let ?t = "snd (submit_send i s)"
  obtain a where a: "a < mg_nhosts s" and d: "drops_sub i a s ?t"
    and e: "if mg_open s a then sends (mg_subs s ! i) a s ?t else refuses (mg_subs s ! i) a s ?t"
    using submit_send_effect [OF assms(2,3)] by (auto split: if_splits)
  then show ?thesis
    using replies_sends [OF assms(1) a d] replies_refuses [OF assms(1) d] by (auto split: if_splits)
qed

lemma stages_update:
  assumes "stages_ok q w rs" and "if st = St_replied then j_reply j = None else j_reply j \<noteq> None"
  shows "stages_ok q w (rs[i := (j, st)])"
  using assms set_update_subset_insert [of rs i "(j, st)"] by (fastforce simp: stages_ok_def)

lemma stages_drop: "stages_ok q w rs \<Longrightarrow> stages_ok q w (take i rs @ drop (Suc i) rs)"
  unfolding stages_ok_def by (fastforce dest: in_set_takeD in_set_dropD)

lemma running_stage:
  assumes "replies_ok s" and "h < mg_nhosts s" and "i < length (hr_running (mg_rt s h))"
  shows "if snd (hr_running (mg_rt s h) ! i) = St_replied
         then j_reply (fst (hr_running (mg_rt s h) ! i)) = None
         else j_reply (fst (hr_running (mg_rt s h) ! i)) \<noteq> None"
    and "fst (hr_running (mg_rt s h) ! i) \<in># host_jobs s h"
proof -
  have "\<forall>(j, st) \<in> set (hr_running (mg_rt s h)).
      if st = St_replied then j_reply j = None else j_reply j \<noteq> None"
    using assms(1,2) by (simp add: replies_ok_def host_stages_def stages_ok_def)
  then show "if snd (hr_running (mg_rt s h) ! i) = St_replied
         then j_reply (fst (hr_running (mg_rt s h) ! i)) = None
         else j_reply (fst (hr_running (mg_rt s h) ! i)) \<noteq> None"
    using nth_mem [OF assms(3)] by (simp add: case_prod_beta)
  show "fst (hr_running (mg_rt s h) ! i) \<in># host_jobs s h"
    using nth_mem [OF assms(3)] by (simp add: host_jobs_def)
qed

lemma reply_job_sends:
  assumes "j_reply j = Some a" and "\<not> os_sent (om_cells m a)" and "\<not> os_closed (om_cells m a)"
  obtains st ws where "reply_job j r m = (j\<lparr>j_reply := None\<rparr>, om_put a st m, ws)"
    and "os_sent st" and "\<not> os_closed st" and "os_value st = Some r"
  using assms by (simp add: reply_job_def os_sender_send_def oneshot_send_def)

lemma replies_reply:
  assumes "replies_ok s" and "h < mg_nhosts s" and i: "i < length (hr_running (mg_rt s h))"
    and "snd (hr_running (mg_rt s h) ! i) \<noteq> St_replied"
  shows "replies_ok (job_reply h i (fst (hr_running (mg_rt s h) ! i)) r heap s)" (is "replies_ok ?t")
proof -
  define j where "j = fst (hr_running (mg_rt s h) ! i)"
  note run = running_stage [OF assms(1,2) i, folded j_def]
  obtain a where a: "j_reply j = Some a" using run(1) assms(4) by (auto split: if_splits)
  note cell = reply_in_accepted [OF assms(1,2) run(2) a]
  then have open_cell: "\<not> os_sent (om_cells (mg_replies s) a)" by (simp add: unsent_def)
  obtain st ws where rj: "reply_job j r (mg_replies s) = (j\<lparr>j_reply := None\<rparr>, om_put a st (mg_replies s), ws)"
    and st: "os_sent st" "\<not> os_closed st"
    using reply_job_sends [OF a open_cell cell(3)] by metis
  let ?s = "s\<lparr>mg_replies := om_put a st (mg_replies s)\<rparr>"
  have t: "?t = set_running h i (j\<lparr>j_reply := None\<rparr>) St_replied heap ?s"
    by (simp add: job_reply_def rj flip: j_def)
  note js = jobs_set_running(1) [of i ?s h "j\<lparr>j_reply := None\<rparr>" St_replied heap]
  have jobs: "add_mset j (host_jobs ?t h) = add_mset (j\<lparr>j_reply := None\<rparr>) (host_jobs s h)"
    using js i unfolding t j_def by simp
  have other: "host_jobs ?t h' = host_jobs s h'" if "h' \<noteq> h" for h'
    using jobs_set_running(2) [of i ?s h h'] i that unfolding t by simp
  have n: "mg_nhosts ?t = mg_nhosts s" by (simp add: same_tables_running)
  have "\<Sum>\<^sub># (image_mset reply_cells (add_mset j (host_jobs ?t h))) =
      \<Sum>\<^sub># (image_mset reply_cells (add_mset (j\<lparr>j_reply := None\<rparr>) (host_jobs s h)))"
    by (simp only: jobs)
  then have "\<Sum>\<^sub># (image_mset reply_cells (host_jobs s h)) =
      add_mset a (\<Sum>\<^sub># (image_mset reply_cells (host_jobs ?t h)))"
    by (simp add: reply_cells_def a)
  then have g: "gather reply_cells s = add_mset a (gather reply_cells ?t)"
    using gather_upd [OF assms(2) n, of reply_cells] other by simp
  have rep: "mg_accepted ?t = mg_accepted s" "mg_cell_task ?t = mg_cell_task s"
    "mg_replies ?t = om_put a st (mg_replies s)"
    unfolding t by (simp_all add: set_running_def)
  have "count (gather reply_cells ?t) x = (if unsent ?t x then 1 else 0)" for x
  proof -
    have "count (gather reply_cells s) x = (if unsent s x then 1 else 0)"
      using assms(1) by (simp add: replies_ok_def)
    then show ?thesis using g cell(1) st by (auto simp: unsent_def rep split: if_splits)
  qed
  moreover have "x < om_brk (mg_replies ?t) \<and> \<not> os_closed (om_cells (mg_replies ?t) x)"
    if "x \<in> mg_accepted ?t" for x
    using that assms(1) st by (simp add: rep replies_ok_def)
  moreover have "host_stages ?t h'" if "h' < mg_nhosts ?t" for h'
    using that assms(1) n
    by (cases "h' = h") (auto simp: t set_running_def host_stages_def replies_ok_def intro: stages_update)
  moreover have "mg_cell_task ?t x = j_task_id j'"
    if "h' < mg_nhosts ?t" "j' \<in># host_jobs ?t h'" "j_reply j' = Some x" for h' j' x
  proof -
    have "j' \<in># host_jobs s h'"
    proof (cases "h' = h")
      case True
      then have "j' \<in># add_mset (j\<lparr>j_reply := None\<rparr>) (host_jobs s h)"
        using that(2) jobs by (metis union_iff add_mset_add_single)
      then show ?thesis using that(3) True by auto
    qed (use that(2) other in simp)
    then show ?thesis using assms(1) that n by (simp add: rep replies_ok_def)
  qed
  ultimately show ?thesis by (simp add: replies_ok_def)
qed

lemma replies_bridges: "replies_ok s \<Longrightarrow> replies_ok (s\<lparr>mg_bridges := b\<rparr>)"
  by (erule replies_frame) (simp_all add: same_cells_def host_stages_def)

lemma replies_wait:
  assumes "replies_ok s" and "h < mg_nhosts s" and i: "i < length (hr_running (mg_rt s h))"
    and "snd (hr_running (mg_rt s h) ! i) \<noteq> St_replied"
  shows "replies_ok (set_running h i (fst (hr_running (mg_rt s h) ! i)) (St_waiting w) heap s)"
proof (rule replies_frame [OF assms(1)])
  let ?j = "fst (hr_running (mg_rt s h) ! i)"
  let ?t = "set_running h i ?j (St_waiting w) heap s"
  note run = running_stage [OF assms(1-3)]
  show "same_cells s ?t" by (simp add: same_cells_def set_running_def)
  show "host_jobs ?t h' = host_jobs s h'" for h'
    using jobs_set_running(1) [OF i, of ?j "St_waiting w" heap] jobs_set_running(2) [OF i]
    by (cases "h' = h") simp_all
  show "host_stages ?t h'" if "host_stages s h'" for h'
    using that run(1) assms(4)
    by (cases "h' = h") (auto simp: set_running_def host_stages_def intro: stages_update)
qed

lemma replies_start:
  assumes "replies_ok s" and "h < mg_nhosts s" and "job_start J h i s = Some t"
  shows "replies_ok t"
  using job_start_cases [OF assms(3)] replies_reply [of "s\<lparr>mg_bridges := b\<rparr>" h i for b]
    replies_wait [of "s\<lparr>mg_bridges := b\<rparr>" h i for b] replies_bridges [OF assms(1)] assms(2)
  by auto

lemma replies_settle:
  assumes "replies_ok s" and "h < mg_nhosts s" and "job_settle J h i magic argv s = Some t"
  shows "replies_ok t"
  using job_settle_cases [OF assms(3)] replies_reply [of "s\<lparr>mg_bridges := b\<rparr>" h i for b]
    replies_bridges [OF assms(1)] assms(2)
  by auto

lemma replies_finish:
  assumes "replies_ok s" and "h < mg_nhosts s" and "job_finish h i s = Some t"
  shows "replies_ok t"
proof -
  note fin = jobs_finish [OF assms(3)]
  let ?j = "fst (hr_running (mg_rt s h) ! i)"
  have none: "j_reply ?j = None" using running_stage(1) [OF assms(1,2) fin(3)] fin(4) by simp
  have "gather reply_cells s = reply_cells ?j + gather reply_cells t"
    by (rule gather_add) (use fin assms(2) in auto)
  then have g: "gather reply_cells t = gather reply_cells s" by (simp add: none reply_cells_def)
  have acc: "mg_accepted t = mg_accepted s" "mg_cell_task t = mg_cell_task s"
    using fin(7) by (simp_all add: same_tables_def)
  have "host_stages t h'" if "h' < mg_nhosts s" for h'
  proof -
    have "host_stages s h'" using assms(1) that by (simp add: replies_ok_def)
    then show ?thesis
      using assms(3) by (cases "h' = h")
        (auto simp: job_finish_def forget_task_def host_stages_def stages_drop split: if_splits)
  qed
  moreover have "j' \<in># host_jobs s h'" if "j' \<in># host_jobs t h'" for j' h'
    using that fin(1,2) by (cases "h' = h") auto
  ultimately show ?thesis
    using assms(1) fin(5,6) by (simp add: replies_ok_def unsent_def acc g)
qed

lemma replies_step:
  assumes "layout_ok s" and "replies_ok s" and "mgr_step J l s = Some t"
  shows "replies_ok t"
proof (cases l)
  case (L_create uuid opts ok1 ok2 heap)
  then show ?thesis
    using create_adds_host [OF assms(1), of uuid opts ok1 ok2 heap] replies_create [OF assms(2)]
      assms(2,3) by auto
next
  case (L_lock host_id fn a)
  then show ?thesis using replies_lock [OF assms(2,1), of host_id fn a] assms(3)
    by (metis mgr_step.simps(2) option.inject prod.collapse)
next
  case L_send
  then show ?thesis using assms replies_send by (auto split: if_splits)
next
  case L_cancel
  then show ?thesis using assms replies_cancel by fastforce
next
  case L_unlist
  then show ?thesis using assms replies_unlist by fastforce
next
  case L_close
  then show ?thesis using assms by (auto intro: replies_close)
next
  case L_recv
  then show ?thesis using assms replies_recv by (auto split: if_splits)
next
  case L_dispatch
  then show ?thesis using assms by (auto intro: replies_dispatch split: if_splits)
next
  case L_start
  then show ?thesis using assms by (auto intro: replies_start split: if_splits)
next
  case L_settle
  then show ?thesis using assms by (auto intro: replies_settle split: if_splits)
next
  case L_finish
  then show ?thesis using assms by (auto intro: replies_finish split: if_splits)
next
  case L_host
  then show ?thesis using assms by (auto intro: replies_host split: if_splits)
next
  case L_teardown
  then show ?thesis using assms by (auto intro: replies_teardown split: if_splits)
qed (use assms in \<open>auto intro: replies_client split: if_splits\<close>)

lemma replies_init: "replies_ok (mgr_init heap)"
  by (simp add: replies_ok_def unsent_def gather_def mgr_init_def)

section \<open>The manager's invariant\<close>

definition mgr_inv :: "'h mgr \<Rightarrow> bool" where
  "mgr_inv s \<longleftrightarrow> all_counters_ok s \<and> layout_ok s \<and> tasks_ok s \<and> replies_ok s"

interpretation mgr: machine "mgr_step J" "mgr_init heap" mgr_inv
  by unfold_locales
    (auto simp: mgr_inv_def intro: counters_init layout_init tasks_init replies_init
      counters_step layout_step tasks_step replies_step)

lemmas mgr_parts = mgr.reachable_inv [unfolded mgr_inv_def]

section \<open>Hosts in service\<close>

text \<open>
  A host is in service while its slot is in the table or waits to be closed by \<open>destroy_host\<close>: exactly as
  long as its queue is open.
\<close>

definition in_service :: "nat \<Rightarrow> 'h mgr \<Rightarrow> bool" where
  "in_service h s \<longleftrightarrow>
     (\<exists>host_id sl. mg_hosts s host_id = Some sl \<and> sl_host sl = h) \<or> mg_closing s h \<noteq> None"

definition open_served :: "'h mgr \<Rightarrow> bool" where
  "open_served s \<longleftrightarrow> (\<forall>h. mg_open s h \<longrightarrow> in_service h s)"

definition same_slots :: "'h mgr \<Rightarrow> 'h mgr \<Rightarrow> bool" where
  "same_slots s t \<longleftrightarrow> mg_hosts t = mg_hosts s \<and> mg_open t = mg_open s \<and> mg_closing t = mg_closing s"

lemma same_slots_rest:
  "job_start J h i s = Some t \<Longrightarrow> same_slots s t"
  "job_settle J h i magic argv s = Some t \<Longrightarrow> same_slots s t"
  "job_finish h i s = Some t \<Longrightarrow> same_slots s t"
  "worker_recv h s = Some t \<Longrightarrow> same_slots s t"
  "worker_dispatch h s = Some t \<Longrightarrow> same_slots s t"
  "teardown late h s = Some t \<Longrightarrow> same_slots s t"
  "same_slots s (snd (submit_lock host_id fn a s))" "same_slots s (snd (submit_send i s))"
  "same_slots s (snd (cancel k s))" "same_slots s (s\<lparr>mg_replies := m\<rparr>)"
  "same_slots s (host_runs h heap n http s)"
  by (auto dest!: job_start_cases job_settle_cases simp: same_slots_def set_running_def job_reply_def
      job_finish_def forget_task_def worker_recv_def worker_dispatch_def teardown_def submit_lock_def
      submit_send_def cancel_def host_runs_def Let_def split: worker.splits option.splits prod.splits if_splits)

lemma same_slots_step:
  assumes "mgr_step J l s = Some t"
    and "case l of L_create _ _ _ _ _ \<Rightarrow> False | L_unlist _ \<Rightarrow> False | L_close _ \<Rightarrow> False | _ \<Rightarrow> True"
  shows "same_slots s t"
  using assms
  by (cases l) (auto intro: same_slots_rest(1-6) simp: same_slots_rest(7-11) split: if_splits)

lemma open_served_step:
  assumes "layout_ok s" and "open_served s" and "mgr_step J l s = Some t"
  shows "open_served t"
proof -
  have same: ?thesis if "same_slots s t"
    using that assms(2) by (simp add: same_slots_def open_served_def in_service_def)
  show ?thesis
  proof (cases l)
    case (L_create uuid opts ok1 ok2 heap)
    then have t: "t = s \<or> adds_host s t"
      using create_adds_host [OF assms(1), of uuid opts ok1 ok2 heap] assms(3) by auto
    have "in_service h t" if a: "adds_host s t" and h: "mg_open t h" for h
    proof (cases "h = mg_nhosts s")
      case True
      then have "\<exists>i. mg_hosts t = (mg_hosts s)(i := Some \<lparr>sl_host = h, sl_tx = Some h\<rparr>)"
        using a h by (auto simp: adds_host_def Let_def)
      then obtain i where "mg_hosts t i = Some \<lparr>sl_host = h, sl_tx = Some h\<rparr>" by (metis fun_upd_same)
      then show ?thesis unfolding in_service_def by (metis slot.select_convs(1))
    next
      case False
      then have "in_service h s" using a h assms(2) by (simp add: open_served_def adds_host_def Let_def)
      moreover have "mg_hosts t k = mg_hosts s k \<or> mg_hosts s k = None" for k
        using a by (auto simp: adds_host_def Let_def)
      moreover have "mg_closing t = mg_closing s" using a by (simp add: adds_host_def Let_def)
      ultimately show ?thesis unfolding in_service_def by (metis option.distinct(1))
    qed
    then show ?thesis using t assms(2) by (auto simp: open_served_def)
  next
    case (L_unlist host_id)
    have "in_service h t" if h: "in_service h s" for h
    proof (cases "mg_hosts s host_id")
      case None
      then show ?thesis using h assms(3) L_unlist by (simp add: destroy_unlist_def)
    next
      case (Some sl)
      then have t: "mg_hosts t = (mg_hosts s)(host_id := None)" "mg_closing t = (mg_closing s)(sl_host sl \<mapsto> sl)"
        using assms(3) L_unlist by (auto simp: destroy_unlist_def)
      show ?thesis
      proof (cases "h = sl_host sl")
        case False
        then show ?thesis using h Some t unfolding in_service_def by (metis fun_upd_other option.inject)
      qed (simp add: in_service_def t)
    qed
    moreover have "mg_open t = mg_open s"
      using assms(3) L_unlist by (auto simp: destroy_unlist_def split: option.splits)
    ultimately show ?thesis using assms(2) by (simp add: open_served_def)
  next
    case (L_close h)
    then have "mg_hosts t = mg_hosts s" "mg_closing t = (mg_closing s)(h := None)" "mg_open t = (mg_open s)(h := False)"
      using assms(3) by (auto simp: destroy_close_def split: option.splits prod.splits)
    then show ?thesis using assms(2) by (simp add: open_served_def in_service_def)
  qed (rule same, rule same_slots_step [OF assms(3)], simp)+
qed

lemma open_served_init: "open_served (mgr_init heap)"
  by (simp add: open_served_def mgr_init_def)

interpretation mgr_slots: machine "mgr_step J" "mgr_init heap" "\<lambda>s. layout_ok s \<and> open_served s"
  by unfold_locales (auto intro: layout_init layout_step open_served_init open_served_step)

lemma open_in_service:
  assumes "reachable (mgr_step J) (mgr_init heap) s"
  shows "mg_open s h = in_service h s"
  using mgr_slots.reachable_inv [OF assms] slot_ok_I(3) [of s] closing_ok_I(3) [of s h]
  by (auto simp: open_served_def in_service_def)

text \<open>A run used by the witnesses: one host, one job echoing its argument, then its removal.\<close>

definition demo_opts :: create_options where
  "demo_opts = \<lparr>co_id = ''a'', co_max_in_flight = 1\<rparr>"

definition demo_start :: "(toy, unit) mgr_event list" where
  "demo_start = [L_create [] demo_opts True True (), L_lock ''a'' ''echo'' (make_string ''hi''), L_send 0]"

definition demo_end :: "(toy, unit) mgr_event list" where
  "demo_end = [L_recv 0, L_dispatch 0, L_start 0 0, L_finish 0 0, L_unlist ''a'', L_close 0, L_recv 0]"

lemmas demo_simps =
  create_host_def demo_opts_def unbounded_def Let_def mgr_init_def start_job_worker_def upd_rt_def
  submit_lock_def submit_send_def oneshot_channel_def sender_send_def mpsc_send_def
  sender_release_def sender_count_def mpsc_close_def mpsc_close_locked_def sender_bool_def
  sender_copy_def mpsc_fresh_def oneshot_mem_empty_def mpsc_mem_empty_def fresh_rt_def

lemma demo_start_run:
  "\<exists>s. run (mgr_step toy_js) (mgr_init ()) demo_start = Some s \<and> mg_issued s = 1 \<and>
     mg_nhosts s = 1 \<and> mg_accepted s = {0} \<and> mg_cell_task s 0 = 1 \<and> mg_task_host s 1 = 0 \<and>
     mq_queue (mm_cells (mg_queues s) 0) =
       [\<lparr>j_task_id = 1, j_fn_name = ''echo'', j_args = make_string ''hi'', j_reply = Some 0,
         j_cancelled = Some 0\<rparr>]"
  by (simp add: demo_start_def demo_simps make_job_def)

section \<open>Properties\<close>

lemma demo_host_run:
  "\<exists>s. run (mgr_step toy_js) (mgr_init ()) (demo_start @ [L_host 0 () 3 True]) = Some s \<and> 0 < mg_nhosts s \<and>
     hr_worker (mg_rt s 0) = Wk_recv \<and> hr_running (mg_rt s 0) = [] \<and> hr_others (mg_rt s 0) = 3"
  by (simp add: demo_start_def demo_simps make_job_def host_runs_def)



lemma key_of_job:
  assumes "tasks_inv s" and "h < mg_nhosts s" and "j \<in># host_jobs s h"
  shows "key_ok s h (j_task_id j) (j_cancelled j)"
  using assms by (fastforce simp: tasks_inv_def host_keys_def job_key_def)

text \<open>
  C4: cancellation is exact.  As long as fewer than \<open>2 ^ 64 - 1\<close> task ids have been issued,
  \<open>cancel k\<close> reports success exactly when task \<open>k\<close> is in flight (between its \<open>submit\<close> and the end
  of its run), a task is in flight at most once, and the call raises the flag of that task's job
  and of no other.
\<close>

theorem cancel_exact:
  assumes "reachable (mgr_step J) (mgr_init heap) s" and "mg_issued s < 2 ^ 64 - 1"
    and "cancel k s = (hit, t)"
  shows "(if hit then count (all_tasks s) k = 1 else count (all_tasks s) k = 0) \<and>
    (\<forall>h < mg_nhosts s. \<forall>j \<in># host_jobs s h.
       job_flag j t = (job_flag j s \<or> j_task_id j = k))"
proof -
  have inv: "tasks_inv s" using mgr_parts [OF assms(1)] assms(2) by (simp add: tasks_ok_def)
  have cnt: "count (all_tasks s) k = (if mg_cancels s k = None then 0 else 1)"
    using inv by (simp add: tasks_inv_def)
  have "job_flag j t = (job_flag j s \<or> j_task_id j = k)"
    if hj: "h < mg_nhosts s" "j \<in># host_jobs s h" for h j
  proof -
    obtain f where f: "j_cancelled j = Some f" "mg_cancels s (j_task_id j) = Some f"
      using key_of_job [OF inv hj] by (auto simp: key_ok_def)
    show ?thesis
    proof (cases "mg_cancels s k")
      case None
      then have "t = s" using assms(3) by (simp add: cancel_def)
      then show ?thesis using None f by auto
    next
      case (Some g)
      then have t: "t = s\<lparr>mg_flags := (mg_flags s)(g := True)\<rparr>"
        using assms(3) by (auto simp: cancel_def)
      have "f = g \<Longrightarrow> j_task_id j = k"
        using inv f(2) Some unfolding tasks_inv_def ids_ok_def by blast
      then show ?thesis using f Some by (auto simp: job_flag_def t)
    qed
  qed
  then show ?thesis using cnt assms(3) by (auto simp: cancel_def split: option.splits)
qed

theorem cancel_exact_witness:
  "\<exists>s j. reachable (mgr_step toy_js) (mgr_init ()) s \<and> j \<in># host_jobs s 0 \<and>
     job_flag j (snd (cancel (j_task_id j) s))"
proof -
  obtain s j where s: "run (mgr_step toy_js) (mgr_init ()) demo_start = Some s"
    and n: "0 < mg_nhosts s" and i: "mg_issued s < 2 ^ 64 - 1"
    and q: "j \<in> set (mq_queue (mm_cells (mg_queues s) 0))"
    using demo_start_run by fastforce
  note r = run_reachable [OF s]
  have j: "j \<in># host_jobs s 0" using q by (simp add: host_jobs_def)
  then have "job_flag j (snd (cancel (j_task_id j) s))"
    using cancel_exact [OF r i, of "j_task_id j" "fst (cancel (j_task_id j) s)"
        "snd (cancel (j_task_id j) s)"] n by simp
  then show ?thesis using r j by blast
qed

lemma unanswered_carried:
  assumes "reachable (mgr_step J) (mgr_init heap) s" and "mg_issued s < 2 ^ 64 - 1"
    and "a \<in> mg_accepted s" and "\<not> os_sent (om_cells (mg_replies s) a)"
  defines "h \<equiv> mg_task_host s (mg_cell_task s a)"
  shows "\<exists>j \<in># host_jobs s h. j_reply j = Some a \<and> j_task_id j = mg_cell_task s a"
    and "\<not> join_returns J h s"
proof -
  note parts = mgr_parts [OF assms(1)]
  have inv: "tasks_inv s" using parts assms(2) by (simp add: tasks_ok_def)
  have rep: "replies_ok s" and lay: "layout_ok s" and cnt: "all_counters_ok s" using parts by simp_all
  have "unsent s a" using assms(3,4) by (simp add: unsent_def)
  then have "count (gather reply_cells s) a = 1" using rep by (simp add: replies_ok_def)
  then have "a \<in># gather reply_cells s" by (simp flip: count_greater_zero_iff)
  then obtain g j where g: "g < mg_nhosts s" "j \<in># host_jobs s g" "a \<in># reply_cells j"
    using gather_memD by metis
  have j: "j_reply j = Some a" using g(3) by (auto simp: reply_cells_def split: option.splits)
  then have id: "j_task_id j = mg_cell_task s a" using rep g by (auto simp: replies_ok_def)
  have h: "g = h" using key_of_job [OF inv g(1,2)] by (simp add: h_def key_ok_def id)
  then show "\<exists>j \<in># host_jobs s h. j_reply j = Some a \<and> j_task_id j = mg_cell_task s a" using g(2) j id by blast
  show "\<not> join_returns J h s"
  proof
    assume "join_returns J h s"
    then have "hr_worker (mg_rt s h) = Wk_done" "hr_running (mg_rt s h) = []"
      using cnt g(1) h by (simp_all add: all_counters_ok_def join_returns_def counters_zero)
    then have "host_jobs s h = {#}"
      using host_ok_I [OF lay g(1)] h by (auto simp: host_jobs_def host_ok_def rx_ok_def split: option.splits)
    then show False using g(2) h by simp
  qed
qed

text \<open>
  C1: no accepted job is lost.  The reply cell of an accepted submission has been answered, or a
  job of the task's own host still carries it; so when that host's \<open>join\<close> returns, every job it
  accepted has been answered.
\<close>

theorem accepted_jobs_answered:
  assumes "reachable (mgr_step J) (mgr_init heap) s" and "mg_issued s < 2 ^ 64 - 1"
    and "a \<in> mg_accepted s"
  defines "h \<equiv> mg_task_host s (mg_cell_task s a)"
  shows "(os_sent (om_cells (mg_replies s) a) \<or>
      (\<exists>j \<in># host_jobs s h. j_reply j = Some a \<and> j_task_id j = mg_cell_task s a)) \<and>
    (join_returns J h s \<longrightarrow> os_sent (om_cells (mg_replies s) a))"
  using unanswered_carried [OF assms(1-3)] unfolding h_def by blast

lemma demo_exec:
  "exec_start toy_js bridge_init ''echo'' (make_string ''hi'') False () =
     Some (Ex_reply (make_ok_string ''hi''), bridge_init, ())"
  using drain_jobs_idle [of toy_js "()"]
  by (simp add: exec_start_def toy_simps cstr_def nul_def decode_args_def q_call_def exec_await_def
      q_is_exception_def await_js_value_def encode_result_def q_is_undefined_def
      q_is_binary_view_def q_is_array_buffer_def q_is_uint8_array_def q_is_string_def q_to_std_string_def)

lemma demo_end_run:
  "\<exists>s. run (mgr_step toy_js) (mgr_init ()) (demo_start @ demo_end) = Some s \<and> mg_issued s = 1 \<and>
     0 \<in> mg_accepted s \<and> join_returns toy_js 0 s \<and> mg_task_host s (mg_cell_task s 0) = 0 \<and>
     os_value (om_cells (mg_replies s) 0) = Some (make_ok_string ''hi'')"
  by (simp add: demo_start_def demo_end_def demo_simps make_job_def worker_recv_def mpsc_await_ready_def
     mpsc_await_resume_def worker_dispatch_def job_start_def demo_exec job_flag_def job_reply_def reply_job_def
     os_sender_send_def oneshot_send_def oneshot_fresh_def set_running_def job_finish_def forget_task_def
     destroy_unlist_def destroy_close_def sender_close_def sender_move_assign_def receiver_close_rx_def join_returns_def
     toy_idle)

theorem accepted_jobs_answered_witness:
  "\<exists>s. reachable (mgr_step toy_js) (mgr_init ()) s \<and> 0 \<in> mg_accepted s \<and>
     os_sent (om_cells (mg_replies s) 0)"
proof -
  obtain s where s: "run (mgr_step toy_js) (mgr_init ()) (demo_start @ demo_end) = Some s"
    and i: "mg_issued s < 2 ^ 64 - 1" and a: "0 \<in> mg_accepted s"
    and jn: "join_returns toy_js (mg_task_host s (mg_cell_task s 0)) s"
    using demo_end_run by auto
  note r = run_reachable [OF s]
  show ?thesis using accepted_jobs_answered [OF r i a] jn r a by blast
qed

text \<open>
  C5: a submission that loses the race against \<open>destroy_host\<close> leaves nothing behind.  When the
  locked part of \<open>submit\<close> has run and its \<open>send\<close> then happens in any later state, the job is
  queued at the end of its host's queue if the host is still in service (in the table, or taken out by a
  \<open>destroy_host\<close> that has not closed it yet); otherwise the call reports failure, its reply cell is closed,
  and its task is in flight nowhere any more.
\<close>

theorem submit_send_race:
  assumes "reachable (mgr_step J) (mgr_init heap) s" and "mg_issued s < 2 ^ 64 - 1"
    and "i < length (mg_subs s)" and "submit_send i s = (r, t)"
  defines "u \<equiv> mg_subs s ! i" and "c \<equiv> om_brk (mg_replies s)"
  shows "\<exists>h < mg_nhosts s. su_tx u = Some h \<and>
    (if in_service h s
     then r = Some (su_id u, Some c) \<and>
          mq_queue (mm_cells (mg_queues t) h) =
            mq_queue (mm_cells (mg_queues s) h) @ [make_job u (Some c)]
     else r = None \<and> os_closed (om_cells (mg_replies t) c) \<and> mg_cancels t (su_id u) = None \<and>
          su_id u \<notin># all_tasks t)"
proof -
  note parts = mgr_parts [OF assms(1)]
  have t: "t = snd (submit_send i s)" and r: "r = fst (submit_send i s)" using assms(4) by simp_all
  obtain h where h: "h < mg_nhosts s" "su_tx u = Some h"
    and e: "if mg_open s h
     then fst (submit_send i s) = Some (su_id u, Some c) \<and> sends u h s t
     else fst (submit_send i s) = None \<and> refuses u h s t"
    and d: "drops_sub i h s t"
    using submit_send_effect [OF _ assms(3)] parts unfolding t u_def c_def by blast
  have "tasks_inv t"
    using tasks_send [OF _ _ assms(3)] parts assms(2) d by (simp add: t tasks_ok_def drops_sub_def)
  then have "count (all_tasks t) (su_id u) = (if mg_cancels t (su_id u) = None then 0 else 1)"
    by (simp add: tasks_inv_def)
  then show ?thesis
    using h e open_in_service [OF assms(1), of h]
    by (auto simp: sends_def refuses_def r c_def count_eq_zero_iff split: if_splits)
qed

lemma race_run:
  "\<exists>s. run (mgr_step toy_js) (mgr_init ()) (take 2 demo_start @ [L_unlist ''a'', L_close 0]) = Some s \<and>
     mg_issued s = 1 \<and> length (mg_subs s) = 1 \<and> (\<forall>h. \<not> in_service h s)"
  by (simp add: in_service_def demo_start_def demo_simps destroy_unlist_def destroy_close_def sender_close_def sender_move_assign_def)

theorem submit_send_race_witness:
  "\<exists>s. reachable (mgr_step toy_js) (mgr_init ()) s \<and> length (mg_subs s) = 1 \<and>
     fst (submit_send 0 s) = None \<and> su_id (mg_subs s ! 0) \<notin># all_tasks (snd (submit_send 0 s))"
proof -
  obtain s where s: "run (mgr_step toy_js) (mgr_init ()) (take 2 demo_start @ [L_unlist ''a'', L_close 0]) = Some s"
    and i: "mg_issued s < 2 ^ 64 - 1" and l: "length (mg_subs s) = 1" and n: "\<forall>h. \<not> in_service h s"
    using race_run by auto
  note r = run_reachable [OF s]
  have "0 < length (mg_subs s)" using l by simp
  from submit_send_race [OF r i this prod.collapse [symmetric]] n r l show ?thesis by auto
qed

subsection \<open>After destroy_host\<close>

definition drained :: "nat \<Rightarrow> job list \<Rightarrow> 'h mgr \<Rightarrow> bool" where
  "drained h q s \<longleftrightarrow> h < mg_nhosts s \<and> \<not> mg_open s h \<and> layout_ok s \<and>
     (\<exists>n. mq_queue (mm_cells (mg_queues s) h) = drop n q)"

lemma drained_frame:
  assumes "drained h q s" and "layout_ok t" and "mg_nhosts t = mg_nhosts s"
    and "mg_open t = mg_open s"
    and "mq_queue (mm_cells (mg_queues t) h) = mq_queue (mm_cells (mg_queues s) h)"
  shows "drained h q t"
  using assms by (simp add: drained_def)

definition same_queues :: "'h mgr \<Rightarrow> 'h mgr \<Rightarrow> bool" where
  "same_queues s t \<longleftrightarrow> mg_nhosts t = mg_nhosts s \<and> mg_open t = mg_open s \<and>
     (\<forall>h. mq_queue (mm_cells (mg_queues t) h) = mq_queue (mm_cells (mg_queues s) h))"

lemma same_queues_start: "job_start J g i s = Some t \<Longrightarrow> same_queues s t"
  by (auto dest!: job_start_cases simp: same_queues_def set_running_def job_reply_def split: prod.splits)

lemma same_queues_settle: "job_settle J g i magic argv s = Some t \<Longrightarrow> same_queues s t"
  by (auto dest!: job_settle_cases simp: same_queues_def set_running_def job_reply_def split: prod.splits)

lemma same_queues_lock: "same_queues s (snd (submit_lock host_id fn a s))"
  by (auto simp: same_queues_def submit_lock_def sender_copy_def sender_count_def Let_def
      split: option.splits)

lemma same_queues_unlist: "same_queues s (snd (destroy_unlist host_id s))"
  by (auto simp: same_queues_def destroy_unlist_def split: option.splits)

lemma same_queues_rest:
  "worker_dispatch g s = Some t \<Longrightarrow> same_queues s t"
  "teardown late g s = Some t \<Longrightarrow> same_queues s t"
  "job_finish g i s = Some t \<Longrightarrow> same_queues s t"
  "same_queues s (snd (cancel k s))" "same_queues s (s\<lparr>mg_replies := m\<rparr>)"
  "same_queues s (host_runs h heap n http s)"
  by (auto simp: same_queues_def worker_dispatch_def teardown_def job_finish_def forget_task_def
      cancel_def host_runs_def split: worker.splits option.splits if_splits)

lemma same_queues_step:
  assumes "mgr_step J l s = Some t"
    and "case l of L_create _ _ _ _ _ \<Rightarrow> False | L_send _ \<Rightarrow> False | L_recv _ \<Rightarrow> False
           | L_close _ \<Rightarrow> False | _ \<Rightarrow> True"
  shows "same_queues s t"
  using assms
  by (cases l) (auto intro: same_queues_start same_queues_settle same_queues_rest
      simp: same_queues_lock same_queues_unlist same_queues_rest(4-6) split: if_splits)

lemma drained_step:
  assumes "drained h q s" and "mgr_step J l s = Some t"
  shows "drained h q t"
  using assms
proof (cases l)
  case (L_create uuid opts ok1 ok2 heap)
  have lay: "layout_ok s" using assms(1) by (simp add: drained_def)
  then show ?thesis
    using create_adds_host [OF lay, of uuid opts ok1 ok2 heap] layout_step [OF lay assms(2)] assms L_create
    by (auto simp: drained_def adds_host_def Let_def)
next
  case (L_send i)
  then have i: "i < length (mg_subs s)" and t: "t = snd (submit_send i s)"
    using assms(2) by (auto split: if_splits)
  have lay: "layout_ok s" using assms(1) by (simp add: drained_def)
  obtain a where d: "drops_sub i a s t"
    and e: "if mg_open s a then sends (mg_subs s ! i) a s t else refuses (mg_subs s ! i) a s t"
    using submit_send_effect [OF lay i] unfolding t by (auto split: if_splits)
  show ?thesis
    using assms(1) layout_step [OF lay assms(2)] d e
    by (cases "a = h") (auto simp: drained_def drops_sub_def refuses_def split: if_splits)
next
  case (L_recv g)
  have lay: "layout_ok s" using assms(1) by (simp add: drained_def)
  have g: "g < mg_nhosts s" "worker_recv g s = Some t" using assms(2) L_recv by (auto split: if_splits)
  have "mg_open t = mg_open s \<and> mg_nhosts t = mg_nhosts s \<and>
    (\<exists>n. mq_queue (mm_cells (mg_queues t) h) = drop n (mq_queue (mm_cells (mg_queues s) h)))"
    using lay g
  proof (cases rule: worker_recv_cases)
    case (job j js)
    then have "mq_queue (mm_cells (mg_queues t) h) =
      drop (if g = h then 1 else 0) (mq_queue (mm_cells (mg_queues s) h))"
      by (cases "g = h") simp_all
    moreover have "mg_open t = mg_open s" "mg_nhosts t = mg_nhosts s" using job(4) by simp_all
    ultimately show ?thesis by blast
  next
    case (leave q)
    then have "mq_queue (mm_cells (mg_queues t) h) = drop 0 (mq_queue (mm_cells (mg_queues s) h))"
      by simp
    moreover have "mg_open t = mg_open s" "mg_nhosts t = mg_nhosts s" using leave by simp_all
    ultimately show ?thesis by blast
  qed
  then show ?thesis
    using assms(1) layout_step [OF lay assms(2)] by (auto simp: drained_def)
next
  case (L_close i)
  have lay: "layout_ok s" using assms(1) by (simp add: drained_def)
  have "mg_open t h \<Longrightarrow> mg_open s h" "mg_nhosts t = mg_nhosts s"
    using assms(2) L_close by (auto simp: destroy_close_def split: option.splits prod.splits if_splits)
  moreover have "mq_queue (mm_cells (mg_queues t) h) = mq_queue (mm_cells (mg_queues s) h)"
    using assms(2) L_close queue_close by simp
  ultimately show ?thesis using assms(1) layout_step [OF lay assms(2)] by (auto simp: drained_def)
qed (use layout_step [OF _ assms(2)] same_queues_step [OF assms(2)]
    in \<open>auto simp: drained_def same_queues_def\<close>)

lemma drained_run:
  "drained h q s \<Longrightarrow> run (mgr_step J) s evs = Some t \<Longrightarrow> drained h q t"
  by (induction evs arbitrary: s) (auto split: option.splits intro: drained_step)

text \<open>
  A destroyed host takes no more work.  Once \<open>destroy_host\<close> has closed the queue of the host, no later
  sequence of events adds a job to it: what it holds is always a suffix of what it held at that moment,
  whatever submissions, re-creations under the same name or jobs come after.
\<close>

theorem destroyed_host_only_drains:
  assumes "reachable (mgr_step J) (mgr_init heap) s"
    and "destroy_close h s = Some t" and "run (mgr_step J) t evs = Some u"
  shows "\<not> mg_open u h \<and>
    (\<exists>n. mq_queue (mm_cells (mg_queues u) h) = drop n (mq_queue (mm_cells (mg_queues s) h)))"
proof -
  have lay: "layout_ok s" using mgr_parts [OF assms(1)] by simp
  obtain sl where c: "mg_closing s h = Some sl" and nl: "\<not> mg_open t h"
    using assms(2) by (auto simp: destroy_close_def split: option.splits prod.splits)
  have "mq_queue (mm_cells (mg_queues t) h) = drop 0 (mq_queue (mm_cells (mg_queues s) h))"
    by (simp add: queue_close [OF assms(2)])
  then have "drained h (mq_queue (mm_cells (mg_queues s) h)) t"
    using nl closing_ok_I(1) [OF lay c] jobs_close(5) [OF assms(2)] layout_close [OF lay assms(2)]
    unfolding drained_def by metis
  from drained_run [OF this assms(3)] show ?thesis by (simp add: drained_def)
qed

text \<open>
  Between the two parts of the call the host is in no table, so \<open>submit\<close> refuses its name and its id is free
  again, but a submission that had found it before is still accepted.
\<close>

lemma unlisted_still_open:
  assumes "reachable (mgr_step J) (mgr_init heap) s" and "mg_hosts s host_id = Some sl"
    and "destroy_unlist host_id s = (r, t)"
  shows "r = Some sl \<and> fst (submit_lock host_id fn a t) = None \<and> \<not> has_host host_id t \<and>
    mg_open t (sl_host sl) \<and> destroy_close (sl_host sl) t \<noteq> None"
proof -
  have "layout_ok s" using mgr_parts [OF assms(1)] by simp
  note listed = slot_ok_I(3) [OF this assms(2)]
  have "r = Some sl" and t: "t = s\<lparr>mg_hosts := (mg_hosts s)(host_id := None),
      mg_closing := (mg_closing s)(sl_host sl \<mapsto> sl)\<rparr>"
    using assms(2,3) by (auto simp: destroy_unlist_def)
  then show ?thesis using listed
    by (simp add: submit_lock_def Let_def has_host_def destroy_close_def split: prod.splits)
qed

end
