(* ===== verification/HostSpec.thy ===== *)
theory HostSpec
  imports HostReplies
begin

text \<open>
  What the host manager (\<open>src/host_manager.cpp\<close>) promises, without channels, handles, coroutines, bridges
  and cancellation flags: every host is a server with a queue of tasks, at most \<open>max_in_flight\<close> of which
  run at a time.  The machine of the theory \<open>HostManager\<close> refines it.
\<close>

section \<open>The abstract service\<close>

text \<open>A task is its id, the function called and the arguments; a running one is marked once it is answered.\<close>

type_synonym task = "64 word \<times> string \<times> args"

record service =
  se_hosts :: nat
  se_waiting :: "nat \<Rightarrow> task list"
  se_running :: "nat \<Rightarrow> (task \<times> bool) list"
  se_open :: "nat \<Rightarrow> bool"
  se_limit :: "nat \<Rightarrow> int"

datatype service_op =
    So_open int bool
  | So_accept nat task
  | So_refuse nat
  | So_close nat
  | So_start nat task
  | So_answer nat nat
  | So_finish nat nat
  | So_skip

fun service_step :: "service_op \<Rightarrow> service \<Rightarrow> service option" where
  "service_step (So_open mx opened) c =
     (if 1 \<le> mx
      then Some (c\<lparr>se_hosts := Suc (se_hosts c), se_open := (se_open c)(se_hosts c := opened),
                   se_limit := (se_limit c)(se_hosts c := mx)\<rparr>)
      else None)"
| "service_step (So_accept h k) c =
     (if se_open c h then Some (c\<lparr>se_waiting := (se_waiting c)(h := se_waiting c h @ [k])\<rparr>) else None)"
| "service_step (So_refuse h) c = (if se_open c h then None else Some c)"
| "service_step (So_close h) c =
     (if se_open c h then Some (c\<lparr>se_open := (se_open c)(h := False)\<rparr>) else None)"
| "service_step (So_start h k) c =
     (case se_waiting c h of
        [] \<Rightarrow> None
      | x # xs \<Rightarrow>
          if x = k \<and> int (length (se_running c h)) < se_limit c h
          then Some (c\<lparr>se_waiting := (se_waiting c)(h := xs),
                       se_running := (se_running c)(h := se_running c h @ [(k, False)])\<rparr>)
          else None)"
| "service_step (So_answer h i) c =
     (if i < length (se_running c h) \<and> \<not> snd (se_running c h ! i)
      then Some (c\<lparr>se_running := (se_running c)(h := (se_running c h)[i := (fst (se_running c h ! i), True)])\<rparr>)
      else None)"
| "service_step (So_finish h i) c =
     (if i < length (se_running c h) \<and> snd (se_running c h ! i)
      then Some (c\<lparr>se_running := (se_running c)(h := take i (se_running c h) @ drop (Suc i) (se_running c h))\<rparr>)
      else None)"
| "service_step So_skip c = Some c"

definition service_init :: service where
  "service_init = \<lparr>se_hosts = 0, se_waiting = (\<lambda>_. []), se_running = (\<lambda>_. []), se_open = (\<lambda>_. False),
     se_limit = (\<lambda>_. 0)\<rparr>"

section \<open>The simulation\<close>

definition task_of :: "job \<Rightarrow> task" where
  "task_of j = (j_task_id j, j_fn_name j, j_args j)"

definition frame_of :: "job \<times> stage \<Rightarrow> task \<times> bool" where
  "frame_of f = (task_of (fst f), snd f = St_replied)"

definition waiting_jobs :: "nat \<Rightarrow> 'h mgr \<Rightarrow> job list" where
  "waiting_jobs h s =
     held_jobs (hr_worker (mg_rt s h)) @ mq_queue (mm_cells (mg_queues s) h)"

definition service_of :: "'h mgr \<Rightarrow> service" where
  "service_of s =
     \<lparr>se_hosts = mg_nhosts s,
      se_waiting = (\<lambda>h. if h < mg_nhosts s then map task_of (waiting_jobs h s) else []),
      se_running = (\<lambda>h. if h < mg_nhosts s then map frame_of (hr_running (mg_rt s h)) else []),
      se_open = mg_open s,
      se_limit = (\<lambda>h. if h < mg_nhosts s then hr_max (mg_rt s h) else 0)\<rparr>"

text \<open>The operation a step of the manager stands for; the others are invisible.\<close>

definition answer_op :: "nat \<Rightarrow> nat \<Rightarrow> 'h mgr \<Rightarrow> service_op" where
  "answer_op h i t = (if snd (hr_running (mg_rt t h) ! i) = St_replied then So_answer h i else So_skip)"

definition service_op_of :: "('v, 'h, 'x) js_scheme \<Rightarrow> ('v, 'h) mgr_event \<Rightarrow> 'h mgr \<Rightarrow> service_op" where
  "service_op_of J e s =
     (case mgr_step J e s of
        None \<Rightarrow> So_skip
      | Some t \<Rightarrow>
          (case e of
             L_create uuid opts ok1 ok2 heap \<Rightarrow>
               if mg_nhosts t = mg_nhosts s then So_skip
               else So_open (hr_max (mg_rt t (mg_nhosts s))) (mg_open t (mg_nhosts s))
           | L_send i \<Rightarrow>
               (case su_tx (mg_subs s ! i) of
                  None \<Rightarrow> So_skip
                | Some h \<Rightarrow>
                    if fst (submit_send i s) = None then So_refuse h
                    else So_accept h (su_id (mg_subs s ! i), su_fn (mg_subs s ! i), su_args (mg_subs s ! i)))
           | L_close h \<Rightarrow> So_close h
           | L_dispatch h \<Rightarrow>
               (case hr_worker (mg_rt s h) of Wk_hold j \<Rightarrow> So_start h (task_of j) | _ \<Rightarrow> So_skip)
           | L_start h i \<Rightarrow> answer_op h i t
           | L_settle h i magic argv \<Rightarrow> answer_op h i t
           | L_finish h i \<Rightarrow> So_finish h i
           | _ \<Rightarrow> So_skip))"

lemma service_of_frame:
  assumes "mg_nhosts t = mg_nhosts s" and "mg_open t = mg_open s"
    and "\<And>h. h < mg_nhosts s \<Longrightarrow> map task_of (waiting_jobs h t) = map task_of (waiting_jobs h s)"
    and "\<And>h. h < mg_nhosts s \<Longrightarrow> map frame_of (hr_running (mg_rt t h)) = map frame_of (hr_running (mg_rt s h))"
    and "\<And>h. h < mg_nhosts s \<Longrightarrow> hr_max (mg_rt t h) = hr_max (mg_rt s h)"
  shows "service_of t = service_of s"
  using assms by (simp add: service_of_def fun_eq_iff)

lemma service_skip:
  assumes "service_of t = service_of s"
  shows "service_step So_skip (service_of s) = Some (service_of t)"
  using assms by simp

lemma reply_job_task: "reply_job j r m = (j', m', ws) \<Longrightarrow> task_of j' = task_of j"
  by (auto simp: reply_job_def task_of_def split: if_splits prod.splits)

lemma answer_refines:
  assumes "h < mg_nhosts s" and "i < length (hr_running (mg_rt s h))"
    and "snd (hr_running (mg_rt s h) ! i) \<noteq> St_replied"
    and "(\<exists>b heap. (\<exists>r. t = job_reply h i (fst (hr_running (mg_rt s h) ! i)) r heap (s\<lparr>mg_bridges := b\<rparr>)) \<or>
       (\<exists>w. t = set_running h i (fst (hr_running (mg_rt s h) ! i)) (St_waiting w) heap
                  (s\<lparr>mg_bridges := b\<rparr>)) \<or> t = s\<lparr>mg_bridges := b\<rparr>)"
  shows "service_step (answer_op h i t) (service_of s) = Some (service_of t)"
proof -
  let ?j = "fst (hr_running (mg_rt s h) ! i)"
  consider (reply) b heap r where "t = job_reply h i ?j r heap (s\<lparr>mg_bridges := b\<rparr>)"
    | (await) b heap w where "t = set_running h i ?j (St_waiting w) heap (s\<lparr>mg_bridges := b\<rparr>)"
    | (stay) b where "t = s\<lparr>mg_bridges := b\<rparr>"
    using assms(4) by blast
  then show ?thesis
  proof cases
    case reply
    obtain j' m ws where j: "reply_job ?j r (mg_replies s) = (j', m, ws)" by (cases "reply_job ?j r (mg_replies s)")
    then have t: "t = set_running h i j' St_replied heap (s\<lparr>mg_bridges := b, mg_replies := m\<rparr>)"
      using reply by (simp add: job_reply_def)
    show ?thesis using assms(1-3) reply_job_task [OF j]
      by (auto simp: t answer_op_def set_running_def service_of_def waiting_jobs_def frame_of_def map_update fun_eq_iff)
  next
    case await
    have "answer_op h i t = So_skip" using assms(2) by (simp add: await answer_op_def set_running_def)
    moreover have "service_of t = service_of s"
      by (rule service_of_frame)
        (use assms(2,3) in \<open>auto simp: await set_running_def waiting_jobs_def frame_of_def map_update
           list_update_same_conv\<close>)
    ultimately show ?thesis by simp
  next
    case stay
    have "answer_op h i t = So_skip" using assms(3) by (simp add: stay answer_op_def)
    moreover have "service_of t = service_of s"
      by (rule service_of_frame) (simp_all add: stay waiting_jobs_def)
    ultimately show ?thesis by simp
  qed
qed

lemma create_limit:
  "mg_nhosts (snd (create_host uuid opts ok1 ok2 heap s)) \<noteq> mg_nhosts s \<Longrightarrow>
     1 \<le> hr_max (mg_rt (snd (create_host uuid opts ok1 ok2 heap s)) (mg_nhosts s))"
  by (auto simp: create_host_def start_job_worker_def fresh_rt_def Let_def split: prod.splits if_splits)

lemma create_refines:
  assumes "adds_host s t" and "layout_ok s" and "1 \<le> hr_max (mg_rt t (mg_nhosts s))"
  shows "service_step (So_open (hr_max (mg_rt t (mg_nhosts s))) (mg_open t (mg_nhosts s))) (service_of s) =
    Some (service_of t)"
proof -
  have a: "mg_nhosts t = Suc (mg_nhosts s)" "fresh_host (mg_nhosts s) t"
    "\<And>h. h \<noteq> mg_nhosts s \<Longrightarrow> mg_rt t h = mg_rt s h \<and> mg_open t h = mg_open s h \<and>
           mm_cells (mg_queues t) h = mm_cells (mg_queues s) h"
    using assms(1) by (simp_all add: adds_host_def Let_def)
  show ?thesis
    using assms(3) a by (auto simp: service_of_def fun_eq_iff less_Suc_eq waiting_jobs_def fresh_host_def)
qed

lemma send_refines:
  assumes "layout_ok s" and "i < length (mg_subs s)"
    and "mgr_step J (L_send i) s = Some t"
  shows "service_step (service_op_of J (L_send i) s) (service_of s) = Some (service_of t)"
proof -
  have t: "t = snd (submit_send i s)" using assms(2,3) by simp
  obtain a where a: "a < mg_nhosts s" "su_tx (mg_subs s ! i) = Some a" and d: "drops_sub i a s t"
    and e: "if mg_open s a
     then fst (submit_send i s) = Some (su_id (mg_subs s ! i), Some (om_brk (mg_replies s))) \<and>
          sends (mg_subs s ! i) a s t
     else fst (submit_send i s) = None \<and> refuses (mg_subs s ! i) a s t"
    using submit_send_effect [OF assms(1,2)] unfolding t by blast
  have k: "mg_nhosts t = mg_nhosts s" "mg_open t = mg_open s" "mg_rt t = mg_rt s"
    "\<And>h. h \<noteq> a \<Longrightarrow> mm_cells (mg_queues t) h = mm_cells (mg_queues s) h"
    using d by (simp_all add: drops_sub_def)
  show ?thesis
  proof (cases "mg_open s a")
    case True
    have "mq_queue (mm_cells (mg_queues t) a) =
        mq_queue (mm_cells (mg_queues s) a) @ [make_job (mg_subs s ! i) (Some (om_brk (mg_replies s)))]"
      using True e by (simp add: sends_def)
    then have "service_of t = (service_of s)\<lparr>se_waiting := (se_waiting (service_of s))(a :=
        se_waiting (service_of s) a @ [(su_id (mg_subs s ! i), su_fn (mg_subs s ! i), su_args (mg_subs s ! i))])\<rparr>"
      using a k by (auto simp: service_of_def fun_eq_iff waiting_jobs_def task_of_def make_job_def)
    then show ?thesis using True e a assms(3) t by (simp add: service_op_of_def) (simp add: service_of_def)
  next
    case False
    have "mq_queue (mm_cells (mg_queues t) h) = mq_queue (mm_cells (mg_queues s) h)" for h
      using False e k(4) by (cases "h = a") (simp_all add: refuses_def)
    then have "service_of t = service_of s" using k by (intro service_of_frame) (simp_all add: waiting_jobs_def)
    then show ?thesis using False e a assms(3) t by (simp add: service_op_of_def) (simp add: service_of_def)
  qed
qed

lemma recv_refines:
  assumes "layout_ok s" and "h < mg_nhosts s" and "worker_recv h s = Some t"
  shows "service_of t = service_of s"
  using assms
proof (cases rule: worker_recv_cases)
  case (job j js)
  then show ?thesis by (intro service_of_frame) (auto simp: waiting_jobs_def)
next
  case (leave q)
  then show ?thesis by (intro service_of_frame) (auto simp: waiting_jobs_def)
qed

lemma dispatch_refines:
  assumes "all_counters_ok s" and "h < mg_nhosts s" and "worker_dispatch h s = Some t"
  shows "service_step (service_op_of J (L_dispatch h) s) (service_of s) = Some (service_of t)"
proof -
  have c: "hr_in_flight (mg_rt s h) = int (length (hr_running (mg_rt s h)))"
    using assms(1,2) by (simp add: all_counters_ok_def counters_ok_def)
  obtain j where j: "hr_worker (mg_rt s h) = Wk_hold j" "hr_in_flight (mg_rt s h) < hr_max (mg_rt s h)"
    and t: "t = upd_rt h (\<lambda>r. r\<lparr>hr_worker := Wk_recv, hr_in_flight := hr_in_flight r + 1,
          hr_pending_ops := hr_pending_ops r + 1, hr_running := hr_running r @ [(j, St_spawned)]\<rparr>) s"
    using assms(3) by (auto simp: worker_dispatch_def split: worker.splits if_splits)
  have "service_op_of J (L_dispatch h) s = So_start h (task_of j)"
    using assms(2,3) j by (simp add: service_op_of_def)
  then show ?thesis using j c assms(2) unfolding t
    by (auto simp: service_of_def waiting_jobs_def frame_of_def fun_eq_iff)
qed

lemma finish_refines:
  assumes "h < mg_nhosts s" and "job_finish h i s = Some t"
  shows "service_step (So_finish h i) (service_of s) = Some (service_of t)"
  using assms
  by (auto simp: job_finish_def forget_task_def service_of_def waiting_jobs_def frame_of_def fun_eq_iff
      take_map drop_map split: if_splits)

lemma close_refines:
  assumes "layout_ok s" and "destroy_close h s = Some t"
  shows "service_step (So_close h) (service_of s) = Some (service_of t)"
proof -
  obtain sl where c: "mg_closing s h = Some sl" and o: "mg_open t = (mg_open s)(h := False)"
    using assms(2) by (auto simp: destroy_close_def split: option.splits prod.splits)
  have "mg_open s h" using closing_ok_I(3) [OF assms(1) c] .
  moreover have "service_of t = (service_of s)\<lparr>se_open := (se_open (service_of s))(h := False)\<rparr>"
    using jobs_close(4,5) [OF assms(2)] queue_close [OF assms(2)] o
    by (simp add: service_of_def fun_eq_iff waiting_jobs_def)
  moreover have "se_open (service_of s) h = mg_open s h" by (simp add: service_of_def)
  ultimately show ?thesis by simp
qed

lemma service_refines:
  assumes "mgr_inv s" and "mgr_step J e s = Some t"
  shows "service_step (service_op_of J e s) (service_of s) = Some (service_of t)"
proof -
  have lay: "layout_ok s" and cnt: "all_counters_ok s" using assms(1) by (simp_all add: mgr_inv_def)
  have skip: ?thesis if "service_op_of J e s = So_skip" "service_of t = service_of s" using that by simp
  show ?thesis
  proof (cases e)
    case (L_create uuid opts ok1 ok2 heap)
    then have t: "t = snd (create_host uuid opts ok1 ok2 heap s)" using assms(2) by simp
    consider "t = s" | "adds_host s t" using create_adds_host [OF lay] t by blast
    then show ?thesis
    proof cases
      case 1
      then show ?thesis using assms(2) L_create by (simp add: service_op_of_def)
    next
      case 2
      then have n: "mg_nhosts t = Suc (mg_nhosts s)" by (simp add: adds_host_def Let_def)
      then have "1 \<le> hr_max (mg_rt t (mg_nhosts s))" using create_limit [of uuid opts ok1 ok2 heap s] t by simp
      moreover have "service_op_of J e s = So_open (hr_max (mg_rt t (mg_nhosts s))) (mg_open t (mg_nhosts s))"
        using assms(2) L_create n by (simp add: service_op_of_def t)
      ultimately show ?thesis using create_refines [OF 2 lay] by simp
    qed
  next
    case (L_lock host_id fn a)
    have "service_of (snd (submit_lock host_id fn a s)) = service_of s"
      using same_slots_rest(7) [of s host_id fn a] same_queues_lock [of s host_id fn a]
      by (intro service_of_frame) (simp_all add: same_slots_def same_queues_def waiting_jobs_def)
    then show ?thesis using assms(2) L_lock by (intro skip) (auto simp: service_op_of_def)
  next
    case (L_send i)
    then have "i < length (mg_subs s)" using assms(2) by (simp split: if_splits)
    then show ?thesis using send_refines [OF lay] assms(2) L_send by simp
  next
    case (L_cancel k)
    have "service_of (snd (cancel k s)) = service_of s"
      by (intro service_of_frame) (auto simp: cancel_def waiting_jobs_def split: option.splits)
    then show ?thesis using assms(2) L_cancel by (intro skip) (auto simp: service_op_of_def)
  next
    case (L_unlist host_id)
    have "service_of (snd (destroy_unlist host_id s)) = service_of s"
      by (intro service_of_frame) (auto simp: destroy_unlist_def waiting_jobs_def split: option.splits)
    then show ?thesis using assms(2) L_unlist by (intro skip) (auto simp: service_op_of_def)
  next
    case (L_close h)
    then show ?thesis using close_refines [OF lay] assms(2) by (simp add: service_op_of_def)
  next
    case (L_teardown late h)
    then have "service_of t = service_of s" using assms(2)
      by (intro service_of_frame) (auto simp: teardown_def waiting_jobs_def split: if_splits)
    then show ?thesis using assms(2) L_teardown by (intro skip) (auto simp: service_op_of_def)
  next
    case (L_host h heap n http)
    have "service_of (host_runs h heap n http s) = service_of s"
      by (intro service_of_frame) (auto simp: host_runs_def waiting_jobs_def)
    then show ?thesis using assms(2) L_host by (intro skip) (auto simp: service_op_of_def split: if_splits)
  next
    case (L_recv h)
    then have "service_of t = service_of s" using assms(2) recv_refines [OF lay] by (auto split: if_splits)
    then show ?thesis using assms(2) L_recv by (intro skip) (auto simp: service_op_of_def)
  next
    case (L_dispatch h)
    then show ?thesis using dispatch_refines [OF cnt] assms(2) by (auto split: if_splits)
  next
    case (L_start h i)
    then have h: "h < mg_nhosts s" "job_start J h i s = Some t" using assms(2) by (auto split: if_splits)
    have "service_op_of J e s = answer_op h i t" using assms(2) L_start by (simp add: service_op_of_def)
    then show ?thesis using answer_refines [OF h(1), of i t] job_start_cases [OF h(2)] by auto
  next
    case (L_settle h i magic argv)
    then have h: "h < mg_nhosts s" "job_settle J h i magic argv s = Some t" using assms(2) by (auto split: if_splits)
    have "service_op_of J e s = answer_op h i t" using assms(2) L_settle by (simp add: service_op_of_def)
    moreover have "service_step (answer_op h i t) (service_of s) = Some (service_of t)"
      by (rule answer_refines [OF h(1)]) (use job_settle_cases [OF h(2)] in \<open>auto, blast?\<close>)
    ultimately show ?thesis by simp
  next
    case (L_finish h i)
    then have h: "h < mg_nhosts s" "job_finish h i s = Some t" using assms(2) by (auto split: if_splits)
    moreover have "service_op_of J e s = So_finish h i" using assms(2) L_finish by (simp add: service_op_of_def)
    ultimately show ?thesis using finish_refines by metis
  next
    case (L_await a w ex)
    then have "service_of t = service_of s" using assms(2)
      by (intro service_of_frame) (auto simp: waiting_jobs_def split: if_splits)
    then show ?thesis using assms(2) L_await by (intro skip) (auto simp: service_op_of_def)
  next
    case (L_take a)
    then have "service_of t = service_of s" using assms(2)
      by (intro service_of_frame) (auto simp: waiting_jobs_def split: if_splits)
    then show ?thesis using assms(2) L_take by (intro skip) (auto simp: service_op_of_def)
  qed
qed

text \<open>The order of service, read off the operations.\<close>

fun accepted_at :: "nat \<Rightarrow> service_op list \<Rightarrow> task list" where
  "accepted_at h [] = []"
| "accepted_at h (So_accept g k # ops) = (if g = h then [k] else []) @ accepted_at h ops"
| "accepted_at h (_ # ops) = accepted_at h ops"

fun started_at :: "nat \<Rightarrow> service_op list \<Rightarrow> task list" where
  "started_at h [] = []"
| "started_at h (So_start g k # ops) = (if g = h then [k] else []) @ started_at h ops"
| "started_at h (_ # ops) = started_at h ops"

lemma service_fifo_from:
  "run service_step c ops = Some d \<Longrightarrow>
     se_waiting c h @ accepted_at h ops = started_at h ops @ se_waiting d h"
proof (induction ops arbitrary: c)
  case (Cons p ops)
  obtain e where e: "service_step p c = Some e" "run service_step e ops = Some d"
    using Cons.prems by (auto split: option.splits)
  from Cons.IH [OF e(2)] e(1) show ?case
    by (cases p) (auto split: if_splits list.splits)
qed simp

section \<open>Runs\<close>

definition service_ops ::
  "('v, 'h, 'x) js_scheme \<Rightarrow> ('v, 'h) mgr_event list \<Rightarrow> 'h mgr \<Rightarrow> service_op list" where
  "service_ops J = ops_along (mgr_step J) (service_op_of J)"

lemma service_of_init: "service_of (mgr_init heap) = service_init"
  by (simp add: service_of_def service_init_def mgr_init_def fun_eq_iff)

interpretation fifo: refinement "mgr_step J" "mgr_init heap" mgr_inv service_step service_init service_of
  "service_op_of J"
  by unfold_locales (auto intro: service_refines simp: service_of_init)

text \<open>
  C7: the host manager implements a service of bounded FIFO servers.  Whatever its callers, the dispatchers
  and the frames of \<open>run_one_job\<close> do, in whatever interleaving, every event is an operation of the service:
  a job is accepted exactly while its host is open, a job starts only when it is the oldest one waiting at
  its host and fewer than the limit run there, runs with the arguments it was submitted with, is answered
  once and leaves only after its answer.  So the jobs of a host start in the order of their acceptance, and
  those not started yet are the ones waiting.
\<close>

theorem manager_is_fifo_service:
  assumes "run (mgr_step J) (mgr_init heap) es = Some t"
  defines "ops \<equiv> service_ops J es (mgr_init heap)"
  shows "run service_step service_init ops = Some (service_of t) \<and>
    accepted_at h ops = started_at h ops @ se_waiting (service_of t) h"
proof -
  have "run service_step service_init ops = Some (service_of t)"
    unfolding ops_def service_ops_def by (rule fifo.run_refines [OF assms(1)])
  from service_fifo_from [OF this, of h] this show ?thesis by (simp add: service_init_def)
qed

lemma demo_service_ops:
  "service_ops toy_js (demo_start @ demo_end) (mgr_init ()) =
     [So_open 1 True, So_skip, So_accept 0 (1, ''echo'', make_string ''hi''), So_skip,
      So_start 0 (1, ''echo'', make_string ''hi''), So_answer 0 0, So_finish 0 0, So_skip, So_close 0, So_skip]"
  by (simp add: service_ops_def service_op_of_def answer_op_def task_of_def
     demo_start_def demo_end_def demo_simps make_job_def worker_recv_def mpsc_await_ready_def
     mpsc_await_resume_def worker_dispatch_def job_start_def demo_exec job_flag_def job_reply_def reply_job_def
     os_sender_send_def oneshot_send_def oneshot_fresh_def set_running_def job_finish_def forget_task_def
     destroy_unlist_def destroy_close_def sender_close_def sender_move_assign_def receiver_close_rx_def)

theorem manager_is_fifo_service_witness:
  "\<exists>t :: unit mgr. run service_step service_init
     [So_open 1 True, So_skip, So_accept 0 (1, ''echo'', make_string ''hi''), So_skip,
      So_start 0 (1, ''echo'', make_string ''hi''), So_answer 0 0, So_finish 0 0, So_skip, So_close 0, So_skip]
       = Some (service_of t) \<and> se_waiting (service_of t) 0 = []"
proof -
  obtain t where t: "run (mgr_step toy_js) (mgr_init ()) (demo_start @ demo_end) = Some t"
    using demo_end_run by blast
  show ?thesis
    using manager_is_fifo_service [OF t, of 0, unfolded demo_service_ops]
    by (intro exI [of _ t]) auto
qed

end
