(* ===== verification/BinaryStore.thy ===== *)
theory BinaryStore
  imports JsApi
begin

text \<open>
  The process-wide blob store of \<open>src/binary_store.cpp\<close>: \<open>put\<close> keeps bytes under a fresh id,
  \<open>take\<close> hands them out once, and entries older than the TTL are dropped by the collection that
  every \<open>put\<close> and \<open>take\<close> runs first.  The \<open>unordered_map\<close> is an association list (its order plays
  no role); clock readings are nanoseconds, the TTL is milliseconds as in the code.  The id a
  \<open>put\<close> draws from the random generator is an argument.
\<close>

record entry =
  en_data :: bytes
  en_last_used :: int

record store =
  st_map :: "(string \<times> entry) list"
  st_ttl :: int

definition store_init :: store where
  "store_init = \<lparr>st_map = [], st_ttl = 15 * 60 * 1000\<rparr>"

fun gc_loop :: "int \<Rightarrow> int \<Rightarrow> (string \<times> entry) list \<Rightarrow> (string \<times> entry) list" where
  "gc_loop now ttl [] = []"
| "gc_loop now ttl ((k, e) # m) =
     (if now - en_last_used e \<ge> ttl * 1000000 then gc_loop now ttl m
      else (k, e) # gc_loop now ttl m)"

definition gc_locked :: "store \<Rightarrow> int \<Rightarrow> store" where
  "gc_locked s now = s\<lparr>st_map := gc_loop now (st_ttl s) (st_map s)\<rparr>"

text \<open>\<open>emplace\<close> keeps an entry that is already there.\<close>

definition emplace :: "string \<Rightarrow> entry \<Rightarrow> (string \<times> entry) list \<Rightarrow> (string \<times> entry) list" where
  "emplace k e m = (if map_of m k = None then (k, e) # m else m)"

definition bs_put :: "string \<Rightarrow> int \<Rightarrow> bytes \<Rightarrow> store \<Rightarrow> string \<times> store" where
  "bs_put uuid now data s =
     (let s1 = gc_locked s now
      in (uuid, s1\<lparr>st_map := emplace uuid \<lparr>en_data = data, en_last_used = now\<rparr> (st_map s1)\<rparr>))"

definition bs_take :: "string \<Rightarrow> int \<Rightarrow> store \<Rightarrow> bytes option \<times> store" where
  "bs_take k now s =
     (let s1 = gc_locked s now
      in case map_of (st_map s1) k of
           None \<Rightarrow> (None, s1)
         | Some e \<Rightarrow> (Some (en_data e),
                      s1\<lparr>st_map := filter (\<lambda>(k', _). k' \<noteq> k) (st_map s1)\<rparr>))"

definition bs_gc :: "int \<Rightarrow> store \<Rightarrow> store" where
  "bs_gc now s = gc_locked s now"

definition bs_clear :: "store \<Rightarrow> store" where
  "bs_clear s = s\<lparr>st_map := []\<rparr>"

definition bs_set_ttl :: "int \<Rightarrow> store \<Rightarrow> store" where
  "bs_set_ttl t s = s\<lparr>st_ttl := t\<rparr>"

definition bs_ttl :: "store \<Rightarrow> int" where
  "bs_ttl s = st_ttl s"

definition bs_size :: "store \<Rightarrow> nat" where
  "bs_size s = length (st_map s)"

text \<open>The functions installed as \<open>binaryStore.put\<close> and \<open>binaryStore.take\<close>.\<close>

definition put_fn ::
  "('v, 'h, 'x) js_scheme \<Rightarrow> string \<Rightarrow> int \<Rightarrow> bytes \<Rightarrow> store \<Rightarrow> 'h \<Rightarrow> 'v qvalue \<times> store \<times> 'h" where
  "put_fn J uuid now data s h =
     (case bs_put uuid now data s of (k, s') \<Rightarrow>
        (case js_new_string J k h of (v, h') \<Rightarrow> (Some v, s', h')))"

definition take_fn ::
  "('v, 'h, 'x) js_scheme \<Rightarrow> string \<Rightarrow> int \<Rightarrow> store \<Rightarrow> 'h \<Rightarrow> 'v qvalue \<times> store \<times> 'h" where
  "take_fn J k now s h =
     (case bs_take k now s of
        (None, s') \<Rightarrow> (Some (js_undefined J), s', h)
      | (Some data, s') \<Rightarrow> (case js_new_uint8_array J data h of (v, h') \<Rightarrow> (Some v, s', h')))"

section \<open>The machine of all callers\<close>

datatype bs_event =
    Bs_put string int bytes
  | Bs_take string int
  | Bs_gc int
  | Bs_clear
  | Bs_set_ttl int

fun bs_step :: "bs_event \<Rightarrow> store \<Rightarrow> store option" where
  "bs_step (Bs_put k now d) s = Some (snd (bs_put k now d s))"
| "bs_step (Bs_take k now) s = Some (snd (bs_take k now s))"
| "bs_step (Bs_gc now) s = Some (bs_gc now s)"
| "bs_step Bs_clear s = Some (bs_clear s)"
| "bs_step (Bs_set_ttl t) s = Some (bs_set_ttl t s)"

definition bs_inv :: "store \<Rightarrow> bool" where
  "bs_inv s \<longleftrightarrow> distinct (map fst (st_map s))"

lemma gc_loop_filter:
  "gc_loop now ttl m = filter (\<lambda>(k, e). now - en_last_used e < ttl * 1000000) m"
  by (induction m) auto

lemma distinct_filter_keys: "distinct (map fst m) \<Longrightarrow> distinct (map fst (filter P m))"
  by (induction m) (auto simp: image_iff)

lemma map_of_filter_keys:
  "distinct (map fst m) \<Longrightarrow>
    map_of (filter P m) k = (case map_of m k of None \<Rightarrow> None | Some e \<Rightarrow> if P (k, e) then Some e else None)"
  by (induction m) (auto simp: map_of_eq_None_iff image_iff split: option.splits)

lemma map_of_gc:
  "bs_inv s \<Longrightarrow> map_of (st_map (gc_locked s now)) k =
    (case map_of (st_map s) k of
       None \<Rightarrow> None
     | Some e \<Rightarrow> if now - en_last_used e < st_ttl s * 1000000 then Some e else None)"
  by (simp add: gc_locked_def gc_loop_filter map_of_filter_keys bs_inv_def split: option.splits)

lemma bs_inv_gc: "bs_inv s \<Longrightarrow> bs_inv (gc_locked s now)"
  by (simp add: bs_inv_def gc_locked_def gc_loop_filter distinct_filter_keys)

lemma bs_inv_step: "bs_inv s \<Longrightarrow> bs_step l s = Some t \<Longrightarrow> bs_inv t"
  using bs_inv_gc [of s]
  by (cases l) (auto simp: bs_put_def bs_take_def bs_gc_def bs_clear_def bs_set_ttl_def Let_def
      emplace_def bs_inv_def map_of_eq_None_iff distinct_filter_keys split: option.splits)

interpretation blobs: machine bs_step store_init bs_inv
  by unfold_locales (simp add: bs_inv_def store_init_def, rule bs_inv_step)

lemma map_of_removed: "map_of (filter (\<lambda>(k', _). k' \<noteq> k) m) k = None"
  by (induction m) auto

section \<open>Kept until taken, then gone\<close>

text \<open>An event that leaves the entry of \<open>k\<close>, stored at \<open>t0\<close>, alone: not its own \<open>take\<close>, no change of
  the TTL, no \<open>clear\<close>, and before the entry expires.\<close>

fun spares :: "string \<Rightarrow> int \<Rightarrow> int \<Rightarrow> bs_event \<Rightarrow> bool" where
  "spares k t0 ttl (Bs_put k' now d) = (now - t0 < ttl * 1000000)"
| "spares k t0 ttl (Bs_take k' now) = (k' \<noteq> k \<and> now - t0 < ttl * 1000000)"
| "spares k t0 ttl (Bs_gc now) = (now - t0 < ttl * 1000000)"
| "spares k t0 ttl Bs_clear = False"
| "spares k t0 ttl (Bs_set_ttl t) = False"

definition holds_entry :: "string \<Rightarrow> int \<Rightarrow> bytes \<Rightarrow> int \<Rightarrow> store \<Rightarrow> bool" where
  "holds_entry k t0 d ttl s \<longleftrightarrow> bs_inv s \<and> st_ttl s = ttl \<and>
     map_of (st_map s) k = Some \<lparr>en_data = d, en_last_used = t0\<rparr>"

lemma holds_gc:
  assumes "holds_entry k t0 d ttl s" and "now - t0 < ttl * 1000000"
  shows "holds_entry k t0 d ttl (gc_locked s now)"
  using assms bs_inv_gc [of s now] map_of_gc [of s now k]
  by (simp add: holds_entry_def) (simp add: gc_locked_def)

lemma holds_step:
  assumes "holds_entry k t0 d ttl s" and "spares k t0 ttl l" and "bs_step l s = Some t"
  shows "holds_entry k t0 d ttl t"
proof -
  have "bs_inv t" using assms(1,3) unfolding holds_entry_def by (blast intro: bs_inv_step)
  with assms show ?thesis
  proof (cases l)
    case (Bs_put k' now d')
    with assms \<open>bs_inv t\<close> holds_gc [OF assms(1), of now] show ?thesis
      by (auto simp: holds_entry_def bs_put_def Let_def emplace_def
          simp del: map_of_eq_Some_iff Some_eq_map_of_iff)
  next
    case (Bs_take k' now)
    with assms \<open>bs_inv t\<close> holds_gc [OF assms(1), of now] show ?thesis
      by (auto simp: holds_entry_def bs_take_def Let_def map_of_filter_keys bs_inv_def
          simp del: map_of_eq_Some_iff Some_eq_map_of_iff split: option.splits)
  next
    case (Bs_gc now)
    with assms holds_gc [OF assms(1), of now] show ?thesis by (auto simp: bs_gc_def)
  qed auto
qed

lemma holds_run:
  "holds_entry k t0 d ttl s \<Longrightarrow> list_all (spares k t0 ttl) evs \<Longrightarrow> run bs_step s evs = Some t \<Longrightarrow>
    holds_entry k t0 d ttl t"
proof (induction evs arbitrary: s)
  case Nil
  then show ?case by simp
next
  case (Cons l evs)
  then obtain u where u: "bs_step l s = Some u" "run bs_step u evs = Some t"
    by (auto split: option.splits)
  show ?case by (rule Cons.IH [OF _ _ u(2)]) (use Cons.prems holds_step u(1) in auto)
qed

text \<open>
  C32: what is put comes back exactly once.  After \<open>put\<close> stored bytes under a fresh id, any sequence
  of other callers' operations before the TTL has passed keeps them: the first \<open>take\<close> of the id
  returns exactly those bytes, and a second one, at any time, returns nothing.
\<close>

theorem put_take_once:
  assumes "reachable bs_step store_init s" and "map_of (st_map s) uuid = None"
    and "bs_put uuid t0 data s = (k, s1)" and "0 < st_ttl s"
    and "list_all (spares uuid t0 (st_ttl s)) evs" and "run bs_step s1 evs = Some s2"
    and "t1 - t0 < st_ttl s * 1000000" and "bs_take k t1 s2 = (r, s3)"
  shows "k = uuid \<and> r = Some data \<and> fst (bs_take k t2 s3) = None"
proof -
  have inv: "bs_inv s" by (rule blobs.reachable_inv [OF assms(1)])
  have s1: "s1 = snd (bs_put uuid t0 data s)" and k: "k = uuid"
    using assms(3) by (auto simp: bs_put_def Let_def)
  have "bs_step (Bs_put uuid t0 data) s = Some s1" by (simp add: s1)
  then have inv1: "bs_inv s1" using inv bs_inv_step by blast
  have "holds_entry uuid t0 data (st_ttl s) s1"
    using inv1 assms(2) map_of_gc [OF inv, of t0 uuid]
    by (simp add: holds_entry_def s1 bs_put_def Let_def emplace_def gc_locked_def)
  then have h: "holds_entry uuid t0 data (st_ttl s) s2" using holds_run assms(5,6) by blast
  then have inv2: "bs_inv s2" by (simp add: holds_entry_def)
  have found: "map_of (st_map (gc_locked s2 t1)) uuid = Some \<lparr>en_data = data, en_last_used = t0\<rparr>"
    using h assms(7) map_of_gc [OF inv2, of t1 uuid] by (simp add: holds_entry_def)
  have "bs_step (Bs_take uuid t1) s2 = Some s3" using assms(8) k by simp
  then have inv3: "bs_inv s3" using inv2 bs_inv_step by blast
  have "r = Some data" "map_of (st_map s3) uuid = None"
    using assms(8) found k by (auto simp: bs_take_def Let_def map_of_eq_None_iff)
  then show ?thesis
    using k map_of_gc [OF inv3, of t2 uuid] by (simp add: bs_take_def Let_def)
qed

theorem put_take_once_witness:
  "\<exists>s3. bs_take ''x'' 10 (snd (bs_put ''y'' 7 [9] (snd (bs_put ''x'' 5 [1, 2] store_init)))) =
     (Some [1, 2], s3) \<and> fst (bs_take ''x'' 11 s3) = None"
proof -
  let ?s1 = "snd (bs_put ''x'' 5 [1, 2] store_init)"
  let ?s2 = "snd (bs_put ''y'' 7 [9] ?s1)"
  have p: "bs_put ''x'' 5 [1, 2] store_init = (''x'', ?s1)" by (simp add: bs_put_def Let_def)
  have t: "bs_take ''x'' 10 ?s2 = (fst (bs_take ''x'' 10 ?s2), snd (bs_take ''x'' 10 ?s2))" by simp
  have e: "map_of (st_map store_init) ''x'' = None" "0 < st_ttl store_init"
    by (simp_all add: store_init_def)
  have l: "list_all (spares ''x'' 5 (st_ttl store_init)) [Bs_put ''y'' 7 [9]]"
    by (simp add: store_init_def)
  have r: "run bs_step ?s1 [Bs_put ''y'' 7 [9]] = Some ?s2" by simp
  have d: "10 - 5 < st_ttl store_init * 1000000" by (simp add: store_init_def)
  from put_take_once [OF reach_init e(1) p e(2) l r d t, of 11] t show ?thesis by metis
qed

text \<open>
  Expired data is never handed out, and every collection removes it.  A \<open>take\<close> returns bytes
  only of an entry younger than the TTL; after a \<open>put\<close>, \<open>take\<close> or \<open>gc\<close> at time \<open>now\<close> no entry that
  was as old as the TTL is left, and the entries that are left are old ones or the new one.
\<close>

theorem take_respects_ttl:
  assumes "reachable bs_step store_init s" and "bs_take k now s = (r, t)"
  shows "(case map_of (st_map s) k of
      None \<Rightarrow> r = None
    | Some e \<Rightarrow> r = (if now - en_last_used e < st_ttl s * 1000000 then Some (en_data e) else None)) \<and>
    map_of (st_map t) k = None \<and>
    (\<forall>(k', e) \<in> set (st_map t). now - en_last_used e < st_ttl s * 1000000 \<and>
       map_of (st_map s) k' = Some e)"
proof -
  have inv: "bs_inv s" by (rule blobs.reachable_inv [OF assms(1)])
  have sub: "(k', e) \<in> set (st_map (gc_locked s now)) \<Longrightarrow>
      now - en_last_used e < st_ttl s * 1000000 \<and> map_of (st_map s) k' = Some e" for k' e
    using inv by (auto simp: gc_locked_def gc_loop_filter bs_inv_def)
  show ?thesis
    using assms(2) map_of_gc [OF inv, of now k] sub
    by (auto simp: bs_take_def Let_def map_of_removed
        simp del: map_of_eq_Some_iff Some_eq_map_of_iff split: option.splits if_splits)
qed

theorem take_respects_ttl_witness:
  "fst (bs_take ''x'' (5 + 15 * 60 * 1000 * 1000000) (snd (bs_put ''x'' 5 [1] store_init))) = None"
proof -
  have "run bs_step store_init [Bs_put ''x'' 5 [1]] = Some (snd (bs_put ''x'' 5 [1] store_init))"
    by simp
  note r = run_reachable [OF this]
  have m: "map_of (st_map (snd (bs_put ''x'' 5 [1] store_init))) ''x'' =
      Some \<lparr>en_data = [1], en_last_used = 5\<rparr>"
    and t: "st_ttl (snd (bs_put ''x'' 5 [1] store_init)) = 15 * 60 * 1000"
    by (simp_all add: bs_put_def store_init_def gc_locked_def emplace_def Let_def)
  from take_respects_ttl [OF r prod.collapse [symmetric], of "''x''" "5 + 15 * 60 * 1000 * 1000000"]
  show ?thesis by (simp add: m t)
qed

end
