(* ===== verification/QjsBind.thy ===== *)
theory QjsBind
  imports JsApi
begin

text \<open>
  The binding layer of \<open>src/qjs.hpp\<close>: conversions between JS values and the C++ types a native
  function may take and return (\<open>from_js\<close>, \<open>to_js\<close>), the argument puller with its injected,
  optional and rest parameters, and the trampoline that turns errors into \<open>JS_EXCEPTION\<close>.  The
  compile-time dispatch on types is a dispatch on the datatypes \<open>js_type\<close> and \<open>arg_type\<close>.
\<close>

section \<open>More of the engine\<close>

record ('v, 'h) js_conv = "('v, 'h) js" +
  js_exception :: 'v
  js_to_float64 :: "'v \<Rightarrow> 'h \<Rightarrow> 64 word option \<times> 'h"
  js_new_bool :: "bool \<Rightarrow> 'v"
  js_new_int32 :: "32 word \<Rightarrow> 'v"
  js_new_int64 :: "64 word \<Rightarrow> 'v"
  js_new_bigint64 :: "64 word \<Rightarrow> 'h \<Rightarrow> 'v \<times> 'h"
  js_new_float64 :: "64 word \<Rightarrow> 'v"
  cpp_narrow :: "64 word \<Rightarrow> 32 word" \<comment> \<open>of C++: \<open>double\<close> to \<open>float\<close>\<close>
  cpp_widen :: "32 word \<Rightarrow> 64 word" \<comment> \<open>of C++: \<open>float\<close> to \<open>double\<close>\<close>
  js_new_string_len :: "string \<Rightarrow> 'h \<Rightarrow> 'v \<times> 'h"
  js_throw_internal_error :: "string \<Rightarrow> 'h \<Rightarrow> 'h"
  js_new_error :: "'h \<Rightarrow> 'v \<times> 'h"
  js_set_property :: "'v \<Rightarrow> string \<Rightarrow> 'v \<Rightarrow> 'h \<Rightarrow> 'h"
  js_throw :: "'v \<Rightarrow> 'h \<Rightarrow> 'h"
  js_promise_capability :: "'h \<Rightarrow> ('v \<times> 'v \<times> 'v) option \<times> 'h"

section \<open>Types and values\<close>

datatype js_type =
    Jt_value | Jt_string | Jt_span | Jt_bytes | Jt_bool | Jt_int32 | Jt_int64 | Jt_uint32 | Jt_float | Jt_double

datatype arg_type =
    At_ctx | At_this | At_args | At_opaque | At_optional js_type | At_plain js_type

datatype 'v cpp =
    C_value "'v qvalue" | C_string string | C_span bytes | C_bytes bytes | C_bool bool
  | C_int32 "32 word" | C_int64 "64 word" | C_uint32 "32 word" | C_float "32 word" | C_double "64 word"
  | C_ctx | C_this 'v | C_args "'v list" | C_opaque nat | C_optional "'v cpp option" | C_void

section \<open>from_js and to_js\<close>

text \<open>\<open>None\<close> is a thrown \<open>ConvertError\<close>; a JS exception set on the way is in the heap.\<close>

definition from_js_binary ::
  "('v, 'h, 'x) js_scheme \<Rightarrow> 'v \<Rightarrow> 'h \<Rightarrow> bytes option \<times> 'h" where
  "from_js_binary J v h =
     (if js_is_array_buffer J v then js_get_array_buffer J v h else js_get_uint8_array J v h)"

fun from_js ::
  "('v, 'h, 'x) js_conv_scheme \<Rightarrow> js_type \<Rightarrow> 'v \<Rightarrow> 'h \<Rightarrow> 'v cpp option \<times> 'h" where
  "from_js J Jt_value v h = (Some (C_value (Some v)), h)"
| "from_js J Jt_string v h =
     (case js_to_cstring J v h of
        (None, h') \<Rightarrow> (None, h')
      | (Some s, h') \<Rightarrow> (Some (C_string (cstr s)), h'))"
| "from_js J Jt_span v h =
     (case from_js_binary J v h of
        (None, h') \<Rightarrow> (None, js_throw_type_error J ''expected ArrayBuffer or Uint8Array'' h')
      | (Some b, h') \<Rightarrow> (Some (C_span b), h'))"
| "from_js J Jt_bytes v h =
     (case from_js_binary J v h of
        (Some b, h') \<Rightarrow> (Some (C_bytes b), h')
      | (None, h') \<Rightarrow>
          (case js_to_cstring J v h' of
             (None, h'') \<Rightarrow>
               (None, js_throw_type_error J ''expected ArrayBuffer, Uint8Array, or string'' h'')
           | (Some s, h'') \<Rightarrow> (Some (C_bytes (bytes_of_string (cstr s))), h'')))"
| "from_js J Jt_bool v h = (case js_to_bool J v h of (b, h') \<Rightarrow> (Some (C_bool (b \<noteq> 0)), h'))"
| "from_js J Jt_float v h =
     (case js_to_float64 J v h of (d, h') \<Rightarrow> (map_option (\<lambda>x. C_float (cpp_narrow J x)) d, h'))"
| "from_js J Jt_double v h =
     (case js_to_float64 J v h of (d, h') \<Rightarrow> (map_option C_double d, h'))"
| "from_js J Jt_int32 v h = (case js_to_int32 J v h of (i, h') \<Rightarrow> (map_option C_int32 i, h'))"
| "from_js J Jt_uint32 v h =
     (case js_to_int64 J v h of
        (None, h') \<Rightarrow> (None, h')
      | (Some i, h') \<Rightarrow>
          if sint i < 0 \<or> sint i > 4294967295 then (None, h') else (Some (C_uint32 (ucast i)), h'))"
| "from_js J Jt_int64 v h = (case js_to_int64 J v h of (i, h') \<Rightarrow> (map_option C_int64 i, h'))"

definition from_js_optional ::
  "('v, 'h, 'x) js_conv_scheme \<Rightarrow> js_type \<Rightarrow> 'v \<Rightarrow> 'h \<Rightarrow> 'v cpp option \<times> 'h" where
  "from_js_optional J T v h =
     (if js_is_undefined J v \<or> js_is_null J v then (Some (C_optional None), h)
      else case from_js J T v h of (c, h') \<Rightarrow> (map_option (\<lambda>x. C_optional (Some x)) c, h'))"

text \<open>Return values; the types \<open>JsReturnType\<close> does not admit give no conversion.\<close>

fun to_js :: "('v, 'h, 'x) js_conv_scheme \<Rightarrow> 'v cpp \<Rightarrow> 'h \<Rightarrow> ('v \<times> 'h) option" where
  "to_js J C_void h = Some (js_undefined J, h)"
| "to_js J (C_value q) h = Some (q_raw J q, h)"
| "to_js J (C_string s) h = Some (js_new_string_len J s h)"
| "to_js J (C_bool b) h = Some (js_new_bool J b, h)"
| "to_js J (C_float f) h = Some (js_new_float64 J (cpp_widen J f), h)"
| "to_js J (C_double d) h = Some (js_new_float64 J d, h)"
| "to_js J (C_int32 i) h = Some (js_new_int32 J i, h)"
| "to_js J (C_uint32 i) h = Some (js_new_int64 J (ucast i), h)"
| "to_js J (C_int64 i) h = Some (js_new_bigint64 J i h)"
| "to_js J (C_bytes b) h = Some (js_new_uint8_array J b h)"
| "to_js J (C_span b) h = Some (js_new_uint8_array J b h)"
| "to_js J _ h = None"

section \<open>Pulling arguments\<close>

text \<open>\<open>opaque\<close> is the pointer stored in the context.  The index moves as in the code, also when
  the conversion throws.\<close>

definition pull_arg ::
  "('v, 'h, 'x) js_conv_scheme \<Rightarrow> nat option \<Rightarrow> 'v \<Rightarrow> 'v list \<Rightarrow> arg_type \<Rightarrow> nat \<Rightarrow> 'h
     \<Rightarrow> 'v cpp option \<times> nat \<times> 'h" where
  "pull_arg J opaque this argv T index h =
     (case T of
        At_ctx \<Rightarrow> (Some C_ctx, index, h)
      | At_this \<Rightarrow> (Some (C_this this), index, h)
      | At_args \<Rightarrow> (Some (C_args (drop index argv)), length argv, h)
      | At_opaque \<Rightarrow>
          (case opaque of
             None \<Rightarrow> (None, index, js_throw_internal_error J ''context opaque is null'' h)
           | Some p \<Rightarrow> (Some (C_opaque p), index, h))
      | At_optional U \<Rightarrow>
          if index \<ge> length argv then (Some (C_optional None), index, h)
          else (case from_js_optional J U (argv ! index) h of (c, h') \<Rightarrow> (c, Suc index, h'))
      | At_plain U \<Rightarrow>
          if index \<ge> length argv
          then (None, index, js_throw_type_error J ''not enough arguments'' h)
          else (case from_js J U (argv ! index) h of (c, h') \<Rightarrow> (c, Suc index, h')))"

fun pull_args ::
  "('v, 'h, 'x) js_conv_scheme \<Rightarrow> nat option \<Rightarrow> 'v \<Rightarrow> 'v list \<Rightarrow> arg_type list \<Rightarrow> nat \<Rightarrow> 'h
     \<Rightarrow> 'v cpp list option \<times> nat \<times> 'h" where
  "pull_args J opaque this argv [] index h = (Some [], index, h)"
| "pull_args J opaque this argv (T # Ts) index h =
     (case pull_arg J opaque this argv T index h of
        (None, i, h') \<Rightarrow> (None, i, h')
      | (Some c, i, h') \<Rightarrow>
          (case pull_args J opaque this argv Ts i h' of
             (cs, i', h'') \<Rightarrow> (map_option ((#) c) cs, i', h'')))"

fun js_arity :: "arg_type list \<Rightarrow> nat" where
  "js_arity [] = 0"
| "js_arity (At_args # Ts) = 0"
| "js_arity (At_ctx # Ts) = js_arity Ts"
| "js_arity (At_this # Ts) = js_arity Ts"
| "js_arity (At_opaque # Ts) = js_arity Ts"
| "js_arity (At_optional U # Ts) = 0"
| "js_arity (At_plain U # Ts) = Suc (js_arity Ts)"

section \<open>The trampoline\<close>

datatype 'v fn_out = Fo_return "'v cpp" | Fo_convert_error | Fo_runtime_error string | Fo_other

datatype ('v, 'h) tramp_out = Tr_value 'v 'h | Tr_escapes 'h

definition invoke_impl ::
  "('v, 'h, 'x) js_conv_scheme \<Rightarrow> nat option \<Rightarrow> ('v cpp list \<Rightarrow> 'h \<Rightarrow> 'v fn_out \<times> 'h)
     \<Rightarrow> arg_type list \<Rightarrow> 'v \<Rightarrow> 'v list \<Rightarrow> 'h \<Rightarrow> 'v fn_out \<times> 'h" where
  "invoke_impl J opaque fn Ts this argv h =
     (case pull_args J opaque this argv Ts 0 h of
        (None, _, h') \<Rightarrow> (Fo_convert_error, h')
      | (Some cs, _, h') \<Rightarrow> fn cs h')"

definition trampoline ::
  "('v, 'h, 'x) js_conv_scheme \<Rightarrow> nat option \<Rightarrow> ('v cpp list \<Rightarrow> 'h \<Rightarrow> 'v fn_out \<times> 'h)
     \<Rightarrow> arg_type list \<Rightarrow> 'v \<Rightarrow> 'v list \<Rightarrow> 'h \<Rightarrow> ('v, 'h) tramp_out" where
  "trampoline J opaque fn Ts this argv h =
     (case invoke_impl J opaque fn Ts this argv h of
        (Fo_return c, h') \<Rightarrow>
          (case to_js J c h' of
             None \<Rightarrow> Tr_escapes h'
           | Some (v, h'') \<Rightarrow> Tr_value v h'')
      | (Fo_convert_error, h') \<Rightarrow> Tr_value (js_exception J) h'
      | (Fo_runtime_error _, h') \<Rightarrow> Tr_value (js_exception J) h'
      | (Fo_other, h') \<Rightarrow> Tr_escapes h')"

section \<open>Arity\<close>

lemma pull_arg_index:
  "pull_arg J opq this argv T i h = (Some c, i', h') \<Longrightarrow> i \<le> length argv \<Longrightarrow>
    i \<le> i' \<and> i' \<le> length argv \<and> (\<forall>U. T = At_plain U \<longrightarrow> i < length argv \<and> i' = Suc i)"
  by (auto simp: pull_arg_def split: arg_type.splits if_splits option.splits prod.splits)

lemma pull_args_arity:
  "pull_args J opq this argv Ts i h = (Some cs, i', h') \<Longrightarrow> i \<le> length argv \<Longrightarrow>
    i + js_arity Ts \<le> length argv \<and> length cs = length Ts"
proof (induction Ts arbitrary: i h cs)
  case Nil
  then show ?case by simp
next
  case (Cons T Ts)
  obtain c k hk ds where p: "pull_arg J opq this argv T i h = (Some c, k, hk)"
    and r: "pull_args J opq this argv Ts k hk = (Some ds, i', h')" and cs: "cs = c # ds"
    using Cons.prems(1) by (auto split: prod.splits option.splits)
  note k = pull_arg_index [OF p Cons.prems(2)]
  have "k + js_arity Ts \<le> length argv \<and> length ds = length Ts"
    using Cons.IH [OF r] k by simp
  then show ?case using k cs by (cases T) auto
qed

text \<open>
  A native function is never entered with fewer arguments than the length JS sees.  If all
  parameters could be pulled, the call had at least \<open>js_arity\<close> arguments and every declared
  parameter got a value; otherwise the trampoline returns \<open>JS_EXCEPTION\<close> with the heap the puller
  left, whatever the function is.
\<close>

theorem trampoline_arity:
  "case pull_args J opq this argv Ts 0 h of
     (None, _, h') \<Rightarrow> trampoline J opq fn Ts this argv h = Tr_value (js_exception J) h'
   | (Some cs, _, _) \<Rightarrow> js_arity Ts \<le> length argv \<and> length cs = length Ts"
proof (cases "pull_args J opq this argv Ts 0 h")
  case (fields r i h')
  then show ?thesis
    using pull_args_arity [of J opq this argv Ts 0 h]
    by (cases r) (simp_all add: trampoline_def invoke_impl_def)
qed

section \<open>Round trips\<close>

text \<open>
  The byte sequences that are well-formed UTF-8 (Unicode, table 3-7): the ones a JS string gives back
  as they were.
\<close>

definition utf8_cont :: "char \<Rightarrow> nat \<Rightarrow> nat \<Rightarrow> bool" where
  "utf8_cont c lo hi \<longleftrightarrow> lo \<le> of_char c \<and> of_char c \<le> hi"

fun utf8_valid :: "string \<Rightarrow> bool" where
  "utf8_valid [] = True"
| "utf8_valid (a # s) =
     (let n = of_char a :: nat in
      if n < 0x80 then utf8_valid s
      else case s of
          [] \<Rightarrow> False
        | b # s1 \<Rightarrow>
            if 0xC2 \<le> n \<and> n \<le> 0xDF then utf8_cont b 0x80 0xBF \<and> utf8_valid s1
            else (case s1 of
                [] \<Rightarrow> False
              | c # s2 \<Rightarrow>
                  if 0xE0 \<le> n \<and> n \<le> 0xEF
                  then utf8_cont b (if n = 0xE0 then 0xA0 else 0x80) (if n = 0xED then 0x9F else 0xBF) \<and>
                       utf8_cont c 0x80 0xBF \<and> utf8_valid s2
                  else (case s2 of
                      [] \<Rightarrow> False
                    | d # s3 \<Rightarrow>
                        0xF0 \<le> n \<and> n \<le> 0xF4 \<and>
                        utf8_cont b (if n = 0xF0 then 0x90 else 0x80) (if n = 0xF4 then 0x8F else 0xBF) \<and>
                        utf8_cont c 0x80 0xBF \<and> utf8_cont d 0x80 0xBF \<and> utf8_valid s3)))"

text \<open>The bit patterns of IEEE numbers that are no number.\<close>

definition double_nan :: "64 word \<Rightarrow> bool" where
  "double_nan d \<longleftrightarrow> and (drop_bit 52 d) 0x7FF = 0x7FF \<and> and d 0xFFFFFFFFFFFFF \<noteq> 0"

definition float_nan :: "32 word \<Rightarrow> bool" where
  "float_nan f \<longleftrightarrow> and (drop_bit 23 f) 0xFF = 0xFF \<and> and f 0x7FFFFF \<noteq> 0"

text \<open>
  What QuickJS and C++ document of the conversions.  \<open>JS_NewInt64\<close> makes a number, exact up to
  \<open>2 ^ 53\<close>; \<open>JS_ToInt64\<close> reads numbers, and throws a TypeError on the BigInt that
  \<open>JS_NewBigInt64\<close> makes; strings keep well-formed UTF-8; a NaN need not keep its payload, and
  nothing is said of an array made from no bytes, whose data pointer may be null.
\<close>

definition js_reads_back :: "('v, 'h, 'x) js_conv_scheme \<Rightarrow> bool" where
  "js_reads_back J \<longleftrightarrow>
     (\<forall>i h. fst (js_to_int32 J (js_new_int32 J i) h) = Some i) \<and>
     (\<forall>i h. \<bar>sint i\<bar> \<le> 2 ^ 53 \<longrightarrow> fst (js_to_int64 J (js_new_int64 J i) h) = Some i) \<and>
     (\<forall>i h h'. fst (js_to_int64 J (fst (js_new_bigint64 J i h)) h') = None) \<and>
     (\<forall>d h. \<not> double_nan d \<longrightarrow> fst (js_to_float64 J (js_new_float64 J d) h) = Some d) \<and>
     (\<forall>f. \<not> float_nan f \<longrightarrow> \<not> double_nan (cpp_widen J f) \<and> cpp_narrow J (cpp_widen J f) = f) \<and>
     (\<forall>b h. fst (js_to_bool J (js_new_bool J b) h) = (if b then 1 else 0)) \<and>
     (\<forall>s h h'. utf8_valid s \<longrightarrow> fst (js_to_cstring J (fst (js_new_string_len J s h)) h') = Some s) \<and>
     (\<forall>b h h'. b \<noteq> [] \<longrightarrow> \<not> js_is_array_buffer J (fst (js_new_uint8_array J b h)) \<and>
        fst (js_get_uint8_array J (fst (js_new_uint8_array J b h)) h') = Some b)"

text \<open>The values of C++ whose conversion those laws cover.\<close>

fun convertible :: "'v cpp \<Rightarrow> bool" where
  "convertible (C_string s) = utf8_valid s"
| "convertible (C_span b) = (b \<noteq> [])"
| "convertible (C_bytes b) = (b \<noteq> [])"
| "convertible (C_float f) = (\<not> float_nan f)"
| "convertible (C_double d) = (\<not> double_nan d)"
| "convertible _ = True"

fun type_of :: "'v cpp \<Rightarrow> js_type option" where
  "type_of (C_string s) = Some Jt_string"
| "type_of (C_span b) = Some Jt_span"
| "type_of (C_bytes b) = Some Jt_bytes"
| "type_of (C_bool b) = Some Jt_bool"
| "type_of (C_int32 i) = Some Jt_int32"
| "type_of (C_int64 i) = Some Jt_int64"
| "type_of (C_uint32 i) = Some Jt_uint32"
| "type_of (C_float f) = Some Jt_float"
| "type_of (C_double d) = Some Jt_double"
| "type_of _ = None"

lemma uint32_in_int64:
  "sint (ucast (w :: 32 word) :: 64 word) = uint w" "uint w \<le> 4294967295"
proof -
  have b: "uint w < 2 ^ 32" using uint_lt2p [of w] by simp
  then show "uint w \<le> 4294967295" by simp
  have u: "uint (ucast w :: 64 word) = uint w" by (simp add: unsigned_ucast_eq take_bit_int_eq_self_iff b less_trans [OF b])
  have "- 9223372036854775808 \<le> uint w" using uint_ge_0 [of w] by linarith
  then show "sint (ucast w :: 64 word) = uint w"
    using b u by (simp add: sint_uint signed_take_bit_int_eq_self_iff)
qed

lemma ucast_up_down [simp]: "ucast (ucast (w :: 32 word) :: 64 word) = w"
  by (rule bit_word_eqI) (auto simp: bit_simps)

lemma uint32_reads_back:
  assumes "js_reads_back J" and "to_js J (C_uint32 w) h = Some (v, h1)"
  shows "fst (from_js J Jt_uint32 v h2) = Some (C_uint32 w)"
proof -
  have small: "\<bar>sint (ucast w :: 64 word)\<bar> \<le> 2 ^ 53"
    using uint32_in_int64 [of w] by (simp add: order_trans)
  then have v: "fst (js_to_int64 J v h2) = Some (ucast w)"
    using assms unfolding js_reads_back_def by (metis (no_types, lifting) Pair_inject option.inject to_js.simps(8))
  show ?thesis using v uint32_in_int64 [of w] by (cases "js_to_int64 J v h2") simp
qed

lemma binary_reads_back:
  assumes "js_reads_back J" and "v = fst (js_new_uint8_array J b h)" and "b \<noteq> []"
  shows "fst (from_js J Jt_span v h2) = Some (C_span b)" "fst (from_js J Jt_bytes v h2) = Some (C_bytes b)"
proof -
  have "fst (from_js_binary J v h2) = Some b"
    using assms by (simp add: js_reads_back_def from_js_binary_def)
  then show "fst (from_js J Jt_span v h2) = Some (C_span b)" "fst (from_js J Jt_bytes v h2) = Some (C_bytes b)"
    by (cases "from_js_binary J v h2"; simp)+
qed

lemma string_reads_back:
  assumes "js_reads_back J" and "to_js J (C_string s) h = Some (v, h1)" and "utf8_valid s"
  shows "fst (from_js J Jt_string v h2) = Some (C_string (cstr s))"
proof -
  have "fst (js_to_cstring J v h2) = Some s" using assms by (auto simp: js_reads_back_def) (metis fst_conv)
  then show ?thesis by (cases "js_to_cstring J v h2") simp
qed


text \<open>
  An engine of numbers, BigInts, texts and bytes.  Its integers are those a \<open>double\<close> holds exactly;
  its narrowing and widening keep the bits of a \<open>float\<close>.
\<close>

datatype prim = Pr_undef | Pr_exc | Pr_int "64 word" | Pr_str string | Pr_bytes bytes | Pr_bool bool
  | Pr_int32 "32 word" | Pr_float "64 word" | Pr_bigint "64 word"

definition prim_js :: "(prim, unit) js_conv" where
  "prim_js =
     \<lparr>js_undefined = Pr_undef, js_global = Pr_undef,
      js_is_exception = (\<lambda>v. v = Pr_exc), js_is_undefined = (\<lambda>v. v = Pr_undef),
      js_is_null = (\<lambda>v. False), js_is_string = (\<lambda>v. case v of Pr_str s \<Rightarrow> True | _ \<Rightarrow> False),
      js_is_object = (\<lambda>v. False), js_is_number = (\<lambda>v. case v of Pr_int i \<Rightarrow> True | _ \<Rightarrow> False),
      js_is_bool = (\<lambda>v. case v of Pr_bool b \<Rightarrow> True | _ \<Rightarrow> False), js_is_function = (\<lambda>v. False),
      js_is_array_buffer = (\<lambda>v. False), js_is_array = (\<lambda>v. False),
      js_get_array_buffer = (\<lambda>v h. (None, h)),
      js_get_uint8_array = (\<lambda>v h. (case v of Pr_bytes b \<Rightarrow> Some b | _ \<Rightarrow> None, h)),
      js_to_cstring = (\<lambda>v h. (case v of Pr_str s \<Rightarrow> Some s | _ \<Rightarrow> None, h)),
      js_to_int32 = (\<lambda>v h. (case v of Pr_int32 i \<Rightarrow> Some i | _ \<Rightarrow> None, h)),
      js_to_int64 = (\<lambda>v h. (case v of Pr_int i \<Rightarrow> Some i | _ \<Rightarrow> None, h)),
      js_to_bool = (\<lambda>v h. (case v of Pr_bool b \<Rightarrow> if b then 1 else 0 | _ \<Rightarrow> 0, h)),
      js_new_string = (\<lambda>s h. (Pr_str s, h)), js_new_uint8_array = (\<lambda>b h. (Pr_bytes b, h)),
      js_parse_json = (\<lambda>s h. (Pr_undef, h)), js_json_stringify = (\<lambda>v h. (Pr_undef, h)),
      js_get_property = (\<lambda>v n h. (Pr_undef, h)), js_call = (\<lambda>f this args h. (Pr_undef, h)),
      js_get_exception = (\<lambda>h. (Pr_undef, h)), js_throw_type_error = (\<lambda>m h. h),
      js_promise_state = (\<lambda>v h. PS_not_a_promise), js_promise_result = (\<lambda>v h. (Pr_undef, h)),
      js_bridge_fn = (\<lambda>i m h. (Pr_undef, h)), js_job_pending = (\<lambda>h. False),
      js_execute_job = (\<lambda>h. (False, h)),
      js_exception = Pr_exc,
      js_to_float64 = (\<lambda>v h. (case v of Pr_float d \<Rightarrow> Some d | _ \<Rightarrow> None, h)),
      js_new_bool = Pr_bool, js_new_int32 = Pr_int32, js_new_int64 = Pr_int,
      js_new_bigint64 = (\<lambda>i h. (Pr_bigint i, h)), js_new_float64 = Pr_float, cpp_narrow = ucast, cpp_widen = ucast,
      js_new_string_len = (\<lambda>s h. (Pr_str s, h)), js_throw_internal_error = (\<lambda>m h. h),
      js_new_error = (\<lambda>h. (Pr_undef, h)), js_set_property = (\<lambda>v n w h. h),
      js_throw = (\<lambda>v h. h), js_promise_capability = (\<lambda>h. (None, h))\<rparr>"

lemma ucast_not_nan: "\<not> double_nan (ucast (f :: 32 word))"
proof -
  have "drop_bit 52 (ucast f :: 64 word) = 0" by (rule bit_word_eqI) (auto simp: bit_simps dest: bit_imp_le_length)
  then show ?thesis by (simp add: double_nan_def)
qed


text \<open>
  A number out of the range of \<open>uint32_t\<close> makes the native call fail without any JS exception
  being set: the conversion throws, but leaves the engine exactly as \<open>JS_ToInt64\<close> left it, so
  \<open>JS_EXCEPTION\<close> is returned with nothing pending.
\<close>

theorem uint32_range_no_exception:
  assumes "js_to_int64 J v h = (Some i, h')" and "sint i < 0 \<or> sint i > 4294967295"
  shows "trampoline J opq fn [At_plain Jt_uint32] this [v] h = Tr_value (js_exception J) h'"
  using assms by (simp add: trampoline_def invoke_impl_def pull_arg_def)

theorem uint32_range_no_exception_witness:
  "trampoline prim_js None (\<lambda>cs h. (Fo_return C_void, h)) [At_plain Jt_uint32] Pr_undef
     [Pr_int (- 1)] () = Tr_value Pr_exc ()"
  using uint32_range_no_exception [of prim_js "Pr_int (- 1)" "()" "- 1" "()" None
      "\<lambda>cs h. (Fo_return C_void, h)" Pr_undef]
  by (simp add: prim_js_def)

end
