(* ===== verification/FunctionRegistry.thy ===== *)
theory FunctionRegistry
  imports QjsBind
begin

text \<open>
  The function registry (\<open>src/function_registry.hpp\<close>, \<open>src/function_registry.cpp\<close>): C++ functions
  that JS reaches as \<open>call(name, ...args)\<close>.  Each host has its own tables; a process-wide pair of
  tables is the fallback.  Sync functions answer directly, async ones return a promise that the
  spawned \<open>handle_async_call\<close> settles.  The templates that wrap a C++ callable are functions over
  the list of its parameter types.
\<close>

section \<open>Wrapping a callable\<close>

text \<open>A parameter of a registered callable is the host or a JS argument of a type.\<close>

datatype reg_param = Rp_host | Rp_js js_type

definition is_host_arg :: "reg_param \<Rightarrow> bool" where
  "is_host_arg p = (p = Rp_host)"

fun count_js_args :: "reg_param list \<Rightarrow> nat" where
  "count_js_args [] = 0"
| "count_js_args (p # ps) = (if is_host_arg p then 0 else 1) + count_js_args ps"

definition pull_arg_at ::
  "('v, 'h, 'x) js_conv_scheme \<Rightarrow> nat \<Rightarrow> 'v qvalue list \<Rightarrow> reg_param \<Rightarrow> nat \<Rightarrow> 'h
     \<Rightarrow> 'v cpp option \<times> nat \<times> 'h" where
  "pull_arg_at J host args p js_index h =
     (case p of
        Rp_host \<Rightarrow> (Some (C_opaque host), js_index, h)
      | Rp_js T \<Rightarrow>
          if js_index \<ge> length args
          then (None, js_index, js_throw_type_error J ''not enough arguments'' h)
          else (case from_js J T (q_raw J (args ! js_index)) h of (c, h') \<Rightarrow> (c, Suc js_index, h')))"

fun build_call_args ::
  "('v, 'h, 'x) js_conv_scheme \<Rightarrow> nat \<Rightarrow> 'v qvalue list \<Rightarrow> reg_param list \<Rightarrow> nat \<Rightarrow> 'h
     \<Rightarrow> 'v cpp list option \<times> nat \<times> 'h" where
  "build_call_args J host args [] js_index h = (Some [], js_index, h)"
| "build_call_args J host args (p # ps) js_index h =
     (case pull_arg_at J host args p js_index h of
        (None, i, h') \<Rightarrow> (None, i, h')
      | (Some c, i, h') \<Rightarrow>
          (case build_call_args J host args ps i h' of
             (cs, i', h'') \<Rightarrow> (map_option ((#) c) cs, i', h'')))"

text \<open>\<open>to_value\<close>: a span is not among the types it accepts.\<close>

definition to_value :: "('v, 'h, 'x) js_conv_scheme \<Rightarrow> 'v cpp \<Rightarrow> 'h \<Rightarrow> ('v qvalue \<times> 'h) option" where
  "to_value J c h =
     (case c of
        C_void \<Rightarrow> Some (None, h)
      | C_value q \<Rightarrow> Some (q, h)
      | C_span b \<Rightarrow> None
      | _ \<Rightarrow> map_option (\<lambda>(v, h'). (Some v, h')) (to_js J c h))"

datatype 'v call_out =
    Co_value "'v qvalue" | Co_convert_error | Co_std_error string | Co_other

definition invoke_sync_impl ::
  "('v, 'h, 'x) js_conv_scheme \<Rightarrow> nat \<Rightarrow> ('v cpp list \<Rightarrow> 'h \<Rightarrow> 'v fn_out \<times> 'h)
     \<Rightarrow> reg_param list \<Rightarrow> 'v qvalue list \<Rightarrow> 'h \<Rightarrow> 'v call_out \<times> 'h" where
  "invoke_sync_impl J host fn ps args h =
     (if length args < count_js_args ps
      then (Co_convert_error, js_throw_type_error J ''not enough arguments'' h)
      else
        (case build_call_args J host args ps 0 h of
           (None, _, h') \<Rightarrow> (Co_convert_error, h')
         | (Some cs, _, h') \<Rightarrow>
             (case fn cs h' of
                (Fo_return c, h'') \<Rightarrow>
                  (case to_value J c h'' of
                     None \<Rightarrow> (Co_other, h'')
                   | Some (q, h3) \<Rightarrow> (Co_value q, h3))
              | (Fo_convert_error, h'') \<Rightarrow> (Co_convert_error, h'')
              | (Fo_runtime_error m, h'') \<Rightarrow> (Co_std_error m, h'')
              | (Fo_other, h'') \<Rightarrow> (Co_other, h''))))"

lemma pull_arg_at_moves:
  "pull_arg_at J host args p i h = (Some c, i', h') \<Longrightarrow> i' = i + count_js_args [p] \<and> (i' = i \<or> i < length args)"
  by (auto simp: pull_arg_at_def is_host_arg_def split: reg_param.splits if_splits prod.splits)

text \<open>
  A registered callable gets each JS argument once, in order.  If all parameters could be
  built from position \<open>i\<close>, exactly \<open>count_js_args\<close> arguments were consumed, all of them present,
  and every parameter has a value, the host wherever the signature asks for it.
\<close>

theorem build_call_args_consumes:
  assumes "build_call_args J host args ps i h = (Some cs, i', h')" and "i \<le> length args"
  shows "i' = i + count_js_args ps \<and> i' \<le> length args \<and> length cs = length ps \<and>
    list_all2 (\<lambda>p c. case p of Rp_host \<Rightarrow> c = C_opaque host | Rp_js T \<Rightarrow>
       (\<exists>a \<in> set args. \<exists>g g'. from_js J T (q_raw J a) g = (Some c, g'))) ps cs"
  using assms
proof (induction ps arbitrary: i h cs)
  case Nil
  then show ?case by simp
next
  case (Cons p ps)
  obtain c k hk ds where p: "pull_arg_at J host args p i h = (Some c, k, hk)"
    and r: "build_call_args J host args ps k hk = (Some ds, i', h')" and cs: "cs = c # ds"
    using Cons.prems(1) by (auto split: prod.splits option.splits)
  have k: "k \<le> length args" "k = i + count_js_args [p]"
    using pull_arg_at_moves [OF p] Cons.prems(2) by (auto split: if_splits)
  have "case p of Rp_host \<Rightarrow> c = C_opaque host | Rp_js T \<Rightarrow>
       (\<exists>a \<in> set args. \<exists>g g'. from_js J T (q_raw J a) g = (Some c, g'))"
  proof (cases p)
    case Rp_host
    then show ?thesis using p by (simp add: pull_arg_at_def)
  next
    case (Rp_js T)
    then have "i < length args" and "from_js J T (q_raw J (args ! i)) h = (Some c, hk)"
      using p by (auto simp: pull_arg_at_def split: if_splits prod.splits)
    then have "\<exists>a \<in> set args. \<exists>g g'. from_js J T (q_raw J a) g = (Some c, g')"
      using nth_mem by blast
    then show ?thesis using Rp_js by simp
  qed
  then show ?case using Cons.IH [OF r k(1)] k(2) cs by simp
qed

theorem build_call_args_consumes_witness:
  "build_call_args prim_js 7 [Some (Pr_int32 5), Some (Pr_str ''x'')] [Rp_js Jt_int32, Rp_host] 0 () =
     (Some [C_int32 5, C_opaque 7], 1, ()) \<and> (1::nat) = count_js_args [Rp_js Jt_int32, Rp_host]"
proof -
  have b: "build_call_args prim_js 7 [Some (Pr_int32 5), Some (Pr_str ''x'')] [Rp_js Jt_int32, Rp_host] 0 () =
     (Some [C_int32 5, C_opaque 7], 1, ())"
    by (simp add: pull_arg_at_def q_raw_def prim_js_def)
  from build_call_args_consumes [OF b] b show ?thesis by simp
qed

section \<open>The tables\<close>

record ('f, 'g) registry =
  sync_functions :: "string \<Rightarrow> 'f option"
  async_functions :: "string \<Rightarrow> 'g option"

text \<open>The registries of all hosts, and the global tables behind \<open>global_mutex\<close>.\<close>

record ('f, 'g) reg_world =
  rw_host :: "nat \<Rightarrow> ('f, 'g) registry"
  global_sync_functions :: "string \<Rightarrow> 'f option"
  global_async_functions :: "string \<Rightarrow> 'g option"

definition register_function ::
  "nat \<Rightarrow> string \<Rightarrow> 'f \<Rightarrow> ('f, 'g) reg_world \<Rightarrow> ('f, 'g) reg_world" where
  "register_function host name f w =
     w\<lparr>rw_host := (rw_host w)(host := (rw_host w host)
         \<lparr>sync_functions := (sync_functions (rw_host w host))(name := Some f)\<rparr>)\<rparr>"

definition register_async_function ::
  "nat \<Rightarrow> string \<Rightarrow> 'g \<Rightarrow> ('f, 'g) reg_world \<Rightarrow> ('f, 'g) reg_world" where
  "register_async_function host name g w =
     w\<lparr>rw_host := (rw_host w)(host := (rw_host w host)
         \<lparr>async_functions := (async_functions (rw_host w host))(name := Some g)\<rparr>)\<rparr>"

definition register_global_function ::
  "string \<Rightarrow> 'f \<Rightarrow> ('f, 'g) reg_world \<Rightarrow> ('f, 'g) reg_world" where
  "register_global_function name f w =
     w\<lparr>global_sync_functions := (global_sync_functions w)(name := Some f)\<rparr>"

definition register_global_async_function ::
  "string \<Rightarrow> 'g \<Rightarrow> ('f, 'g) reg_world \<Rightarrow> ('f, 'g) reg_world" where
  "register_global_async_function name g w =
     w\<lparr>global_async_functions := (global_async_functions w)(name := Some g)\<rparr>"

definition has_function :: "nat \<Rightarrow> string \<Rightarrow> ('f, 'g) reg_world \<Rightarrow> bool" where
  "has_function host name w =
     (sync_functions (rw_host w host) name \<noteq> None \<or> async_functions (rw_host w host) name \<noteq> None \<or>
      global_sync_functions w name \<noteq> None \<or> global_async_functions w name \<noteq> None)"

definition find_sync_function :: "nat \<Rightarrow> string \<Rightarrow> ('f, 'g) reg_world \<Rightarrow> 'f option" where
  "find_sync_function host name w =
     (case sync_functions (rw_host w host) name of
        Some f \<Rightarrow> Some f
      | None \<Rightarrow> (case global_sync_functions w name of Some f \<Rightarrow> Some f | None \<Rightarrow> None))"

definition find_async_function :: "nat \<Rightarrow> string \<Rightarrow> ('f, 'g) reg_world \<Rightarrow> 'g option" where
  "find_async_function host name w =
     (case async_functions (rw_host w host) name of
        Some g \<Rightarrow> Some g
      | None \<Rightarrow> (case global_async_functions w name of Some g \<Rightarrow> Some g | None \<Rightarrow> None))"

section \<open>native_call\<close>

definition make_error :: "('v, 'h, 'x) js_conv_scheme \<Rightarrow> string \<Rightarrow> 'h \<Rightarrow> 'v \<times> 'h" where
  "make_error J msg h =
     (case js_new_error J h of (err, h1) \<Rightarrow>
        (case js_new_string J msg h1 of (m, h2) \<Rightarrow> (err, js_set_property J err ''message'' m h2)))"

type_synonym ('v, 'h) sync_fn = "nat \<Rightarrow> 'v qvalue list \<Rightarrow> 'h \<Rightarrow> 'v call_out \<times> 'h"
type_synonym ('v, 'l) async_fn = "nat \<Rightarrow> 'v qvalue list \<Rightarrow> 'l"

text \<open>The spawned coroutine, not yet settled: the capability and the lazy task it awaits.\<close>

record ('v, 'l) async_call =
  ac_resolve :: 'v
  ac_reject :: 'v
  ac_lazy :: 'l

record ('v, 'h, 'l) call_state =
  cs_heap :: 'h
  cs_pending_ops :: int
  cs_calls :: "('v, 'l) async_call list"
  cs_log :: "string list"

text \<open>
  What a call comes to: a value for the engine, an exception that escapes through it, or, when the
  context opaque is null, an engine function entered with the null context.
\<close>

datatype 'v nc_out = Nc_value 'v | Nc_escapes | Nc_null_context

definition native_call ::
  "('v, 'h, 'x) js_conv_scheme \<Rightarrow> (('v, 'h) sync_fn, ('v, 'l) async_fn) reg_world \<Rightarrow> nat option
     \<Rightarrow> string \<Rightarrow> 'v qvalue list \<Rightarrow> ('v, 'h, 'l) call_state \<Rightarrow> 'v nc_out \<times> ('v, 'h, 'l) call_state" where
  "native_call J w host name args s =
     (case host of
        None \<Rightarrow> (Nc_null_context, s)
      | Some i \<Rightarrow>
          (case find_sync_function i name w of
             Some f \<Rightarrow>
               (case f i args (cs_heap s) of
                  (Co_value q, h) \<Rightarrow> (Nc_value (q_raw J q), s\<lparr>cs_heap := h\<rparr>)
                | (Co_convert_error, h) \<Rightarrow> (Nc_value (js_exception J), s\<lparr>cs_heap := h\<rparr>)
                | (Co_std_error m, h) \<Rightarrow>
                    (case make_error J m h of (e, h') \<Rightarrow>
                       (Nc_value (js_exception J), s\<lparr>cs_heap := js_throw J e h'\<rparr>))
                | (Co_other, h) \<Rightarrow> (Nc_escapes, s\<lparr>cs_heap := h\<rparr>))
           | None \<Rightarrow>
               (case find_async_function i name w of
                  Some g \<Rightarrow>
                    (case js_promise_capability J (cs_heap s) of
                       (None, h) \<Rightarrow> (Nc_value (js_exception J), s\<lparr>cs_heap := h\<rparr>)
                     | (Some (promise, resolve, reject), h) \<Rightarrow>
                         (Nc_value promise,
                          s\<lparr>cs_heap := h, cs_pending_ops := cs_pending_ops s + 1,
                            cs_calls := cs_calls s @
                              [\<lparr>ac_resolve = resolve, ac_reject = reject, ac_lazy = g i args\<rparr>]\<rparr>))
                | None \<Rightarrow>
                    (Nc_value (js_exception J),
                     s\<lparr>cs_heap := js_throw_type_error J
                         (''call: function not registered: '' @ cstr name) (cs_heap s)\<rparr>))))"

definition settle_call ::
  "('v, 'h, 'x) js_conv_scheme \<Rightarrow> 'v \<Rightarrow> 'v qvalue \<Rightarrow> 'h \<Rightarrow> 'h" where
  "settle_call J f v h =
     (case q_call J (Some f) [v] h of
        (ret, h') \<Rightarrow> if q_is_exception J ret then q_dump_exception J h' else h')"

text \<open>\<open>handle_async_call\<close> from the moment its lazy task finishes with \<open>out\<close>; an exception that is
  neither handler's kind leaves the coroutine before the counter goes down.\<close>

definition handle_async_call ::
  "('v, 'h, 'x) js_conv_scheme \<Rightarrow> ('v, 'l) async_call \<Rightarrow> 'v call_out
     \<Rightarrow> ('v, 'h, 'l) call_state \<Rightarrow> ('v, 'h, 'l) call_state" where
  "handle_async_call J c out s =
     (case out of
        Co_value q \<Rightarrow>
          (let h' = (if q_is_exception J q
                     then (case js_get_exception J (cs_heap s) of
                             (exc, h) \<Rightarrow> settle_call J (ac_reject c) (Some exc) h)
                     else settle_call J (ac_resolve c) q (cs_heap s))
           in s\<lparr>cs_heap := h', cs_pending_ops := cs_pending_ops s - 1\<rparr>)
      | Co_convert_error \<Rightarrow>
          (case js_get_exception J (cs_heap s) of (exc, h) \<Rightarrow>
             s\<lparr>cs_heap := settle_call J (ac_reject c) (Some exc) h,
               cs_pending_ops := cs_pending_ops s - 1\<rparr>)
      | Co_std_error m \<Rightarrow>
          (case make_error J m (cs_heap s) of (err, h) \<Rightarrow>
             s\<lparr>cs_heap := settle_call J (ac_reject c) (Some err) h,
               cs_pending_ops := cs_pending_ops s - 1\<rparr>)
      | Co_other \<Rightarrow> s)"

text \<open>
  Lookup order.  A function registered for a host is what that host finds from then on and no
  other host sees it; a global registration reaches exactly the hosts with no function of their
  own under the name; and \<open>has_function\<close> holds exactly when a lookup finds something.
\<close>

theorem registry_lookup:
  "find_sync_function j m (register_function i n f w) =
     (if j = i \<and> m = n then Some f else find_sync_function j m w) \<and>
   find_async_function j m (register_async_function i n g w) =
     (if j = i \<and> m = n then Some g else find_async_function j m w) \<and>
   find_async_function j m (register_function i n f w) = find_async_function j m w \<and>
   find_sync_function j m (register_async_function i n g w) = find_sync_function j m w \<and>
   find_sync_function i n (register_global_function n f w) =
     (if sync_functions (rw_host w i) n = None then Some f else find_sync_function i n w) \<and>
   find_async_function i n (register_global_async_function n g w) =
     (if async_functions (rw_host w i) n = None then Some g else find_async_function i n w) \<and>
   has_function i n w = (\<not> (find_sync_function i n w = None \<and> find_async_function i n w = None))"
  by (auto simp: find_sync_function_def find_async_function_def register_function_def
      register_async_function_def register_global_function_def register_global_async_function_def
      has_function_def split: option.splits)

section \<open>Every async call settles its promise once\<close>

text \<open>
  An engine that keeps a list of the calls made into it by \<open>JS_Call\<close>, the function and its arguments,
  and otherwise is \<open>J\<close>.
\<close>

type_synonym ('v, 'h) logged_heap = "'h \<times> ('v \<times> 'v list) list"

definition keep :: "'r \<times> 'h \<Rightarrow> ('v, 'h) logged_heap \<Rightarrow> 'r \<times> ('v, 'h) logged_heap" where
  "keep x h = (fst x, (snd x, snd h))"

definition logged :: "('v, 'h, 'x) js_conv_scheme \<Rightarrow> ('v, ('v, 'h) logged_heap) js_conv" where
  "logged J =
     \<lparr>js_undefined = js_undefined J, js_global = js_global J, js_is_exception = js_is_exception J,
      js_is_undefined = js_is_undefined J, js_is_null = js_is_null J, js_is_string = js_is_string J,
      js_is_object = js_is_object J, js_is_number = js_is_number J, js_is_bool = js_is_bool J,
      js_is_function = js_is_function J, js_is_array_buffer = js_is_array_buffer J,
      js_is_array = js_is_array J,
      js_get_array_buffer = (\<lambda>v h. keep (js_get_array_buffer J v (fst h)) h),
      js_get_uint8_array = (\<lambda>v h. keep (js_get_uint8_array J v (fst h)) h),
      js_to_cstring = (\<lambda>v h. keep (js_to_cstring J v (fst h)) h),
      js_to_int32 = (\<lambda>v h. keep (js_to_int32 J v (fst h)) h),
      js_to_int64 = (\<lambda>v h. keep (js_to_int64 J v (fst h)) h),
      js_to_bool = (\<lambda>v h. keep (js_to_bool J v (fst h)) h),
      js_new_string = (\<lambda>s h. keep (js_new_string J s (fst h)) h),
      js_new_uint8_array = (\<lambda>b h. keep (js_new_uint8_array J b (fst h)) h),
      js_parse_json = (\<lambda>s h. keep (js_parse_json J s (fst h)) h),
      js_json_stringify = (\<lambda>v h. keep (js_json_stringify J v (fst h)) h),
      js_get_property = (\<lambda>v n h. keep (js_get_property J v n (fst h)) h),
      js_call = (\<lambda>f this args h. (case js_call J f this args (fst h) of (v, g) \<Rightarrow> (v, (g, snd h @ [(f, args)])))),
      js_get_exception = (\<lambda>h. keep (js_get_exception J (fst h)) h),
      js_throw_type_error = (\<lambda>m h. (js_throw_type_error J m (fst h), snd h)),
      js_promise_state = (\<lambda>v h. js_promise_state J v (fst h)),
      js_promise_result = (\<lambda>v h. keep (js_promise_result J v (fst h)) h),
      js_bridge_fn = (\<lambda>i m h. keep (js_bridge_fn J i m (fst h)) h),
      js_job_pending = (\<lambda>h. js_job_pending J (fst h)),
      js_execute_job = (\<lambda>h. keep (js_execute_job J (fst h)) h), js_exception = js_exception J,
      js_to_float64 = (\<lambda>v h. keep (js_to_float64 J v (fst h)) h), js_new_bool = js_new_bool J,
      js_new_int32 = js_new_int32 J, js_new_int64 = js_new_int64 J,
      js_new_bigint64 = (\<lambda>i h. keep (js_new_bigint64 J i (fst h)) h),
      js_new_float64 = js_new_float64 J, cpp_narrow = cpp_narrow J, cpp_widen = cpp_widen J,
      js_new_string_len = (\<lambda>s h. keep (js_new_string_len J s (fst h)) h),
      js_throw_internal_error = (\<lambda>m h. (js_throw_internal_error J m (fst h), snd h)),
      js_new_error = (\<lambda>h. keep (js_new_error J (fst h)) h),
      js_set_property = (\<lambda>v n w h. (js_set_property J v n w (fst h), snd h)),
      js_throw = (\<lambda>v h. (js_throw J v (fst h), snd h)),
      js_promise_capability = (\<lambda>h. keep (js_promise_capability J (fst h)) h)\<rparr>"

datatype ('v, 'h) call_event =
    Ca_call "nat option" string "'v qvalue list"
  | Ca_done nat "'v call_out"
  | Ca_other 'h

text \<open>
  The end of a coroutine started by \<open>spawn_lazy\<close>: nothing, or the exception that escaped from it (\<open>Some None\<close>
  for one that is no \<open>std::exception\<close>).  The result is what is logged.
\<close>

definition spawn_lazy :: "string option option \<Rightarrow> string list" where
  "spawn_lazy ended =
     (case ended of
        None \<Rightarrow> []
      | Some what \<Rightarrow> [''lazy exception: '' @ (case what of Some e \<Rightarrow> e | None \<Rightarrow> ''unknown'')])"

text \<open>\<open>Ca_done i out\<close>: the lazy task of the \<open>i\<close>-th coroutine finishes, with it the coroutine; \<open>Ca_other\<close>: any JS runs.\<close>

fun call_step ::
  "('v, 'h, 'x) js_conv_scheme \<Rightarrow> (('v, 'h) sync_fn, ('v, 'l) async_fn) reg_world
     \<Rightarrow> ('v, 'h) call_event \<Rightarrow> ('v, 'h, 'l) call_state \<Rightarrow> ('v, 'h, 'l) call_state option" where
  "call_step J w (Ca_call host name args) s = Some (snd (native_call J w host name args s))"
| "call_step J w (Ca_done i out) s =
     (if i < length (cs_calls s)
      then Some ((handle_async_call J (cs_calls s ! i) out s)
                   \<lparr>cs_calls := take i (cs_calls s) @ drop (Suc i) (cs_calls s),
                    cs_log := cs_log s @ spawn_lazy (if out = Co_other then Some None else None)\<rparr>)
      else None)"
| "call_step J w (Ca_other h) s = Some (s\<lparr>cs_heap := h\<rparr>)"

definition call_init :: "'h \<Rightarrow> ('v, 'h, 'l) call_state" where
  "call_init h = \<lparr>cs_heap = h, cs_pending_ops = 0, cs_calls = [], cs_log = []\<rparr>"

definition call_inv :: "('v, 'h, 'l) call_state \<Rightarrow> bool" where
  "call_inv s \<longleftrightarrow> cs_pending_ops s = int (length (cs_calls s) + length (cs_log s))"

lemma handle_frame:
  "cs_pending_ops (handle_async_call J c out s) = (if out = Co_other then cs_pending_ops s else cs_pending_ops s - 1)"
  "out = Co_other \<Longrightarrow> handle_async_call J c out s = s"
  by (auto simp: handle_async_call_def Let_def split: call_out.splits prod.splits)

lemma call_inv_step: "call_inv s \<Longrightarrow> call_step J w l s = Some t \<Longrightarrow> call_inv t"
  by (cases l)
    (auto simp: call_inv_def native_call_def handle_frame spawn_lazy_def
      split: option.splits prod.splits call_out.splits if_splits)

interpretation reg_calls: machine "call_step J w" "call_init h" call_inv
  by unfold_locales (simp add: call_inv_def call_init_def, rule call_inv_step)

lemma settle_logged:
  "snd (settle_call (logged J) f v h) = snd h @ [(f, [q_raw J v])]"
  by (auto simp: settle_call_def q_call_def q_dump_exception_def q_to_std_string_def q_raw_def logged_def keep_def
      split: prod.splits option.splits)

lemma make_error_logged:
  "make_error (logged J) m h = keep (make_error J m (fst h)) h"
  by (auto simp: make_error_def logged_def keep_def split: prod.splits)

lemma q_is_exception_logged: "q_is_exception (logged J) q = q_is_exception J q"
  by (simp add: q_is_exception_def logged_def split: option.split)

lemma handle_logged:
  "snd (cs_heap (handle_async_call (logged J) c out s)) = snd (cs_heap s) @
    (case out of
       Co_value q \<Rightarrow>
         if q_is_exception J q then [(ac_reject c, [fst (js_get_exception J (fst (cs_heap s)))])]
         else [(ac_resolve c, [q_raw J q])]
     | Co_convert_error \<Rightarrow> [(ac_reject c, [fst (js_get_exception J (fst (cs_heap s)))])]
     | Co_std_error m \<Rightarrow> [(ac_reject c, [fst (make_error J m (fst (cs_heap s)))])]
     | Co_other \<Rightarrow> [])"
proof -
  have exc: "js_get_exception (logged J) h = keep (js_get_exception J (fst h)) h" for h
    by (simp add: logged_def)
  show ?thesis
    by (cases out)
      (simp_all add: handle_async_call_def Let_def q_is_exception_logged exc make_error_logged settle_logged keep_def
        q_raw_def split: prod.split)
qed

lemma native_call_calls:
  "cs_calls (snd (native_call J w (Some k) name args s)) = cs_calls s \<or>
   (\<exists>g p rs rj h. find_async_function k name w = Some g \<and>
      js_promise_capability J (cs_heap s) = (Some (p, rs, rj), h) \<and>
      fst (native_call J w (Some k) name args s) = Nc_value p \<and>
      cs_calls (snd (native_call J w (Some k) name args s)) =
        cs_calls s @ [\<lparr>ac_resolve = rs, ac_reject = rj, ac_lazy = g k args\<rparr>])"
  by (auto simp: native_call_def split: option.splits prod.splits call_out.splits)

text \<open>
  C27: an async call settles its own promise once and the loop's counter stays exact.  A call that
  starts a coroutine hands it the resolving functions of the promise it returns.  When the task of a
  coroutine finishes, the coroutine is gone, and what its handler calls in JS is exactly: \<open>resolve\<close> of
  that promise with the value, if there is one; \<open>reject\<close> with the pending exception after an exception
  value or a conversion error; \<open>reject\<close> with an error of its message after a \<open>std::exception\<close>.  Each
  time \<open>pending_ops\<close> goes down by one.  Any other exception it does not catch: nothing is called, so the
  promise is never settled, \<open>pending_ops\<close> is not given back, and the exception is logged.  So in every
  reachable state \<open>pending_ops\<close> is the number of unfinished async calls and of exceptions logged.
\<close>

theorem async_call_settles_once:
  fixes J :: "('v, 'h, 'x) js_conv_scheme"
    and w :: "(('v, ('v, 'h) logged_heap) sync_fn, ('v, 'l) async_fn) reg_world"
  assumes "reachable (call_step (logged J) w) (call_init h0) s"
  shows "cs_pending_ops s = int (length (cs_calls s) + length (cs_log s)) \<and>
    (\<forall>k name args. let r = native_call (logged J) w (Some k) name args s in
       cs_calls (snd r) = cs_calls s \<or>
       (\<exists>g p rs rj h. find_async_function k name w = Some g \<and>
          js_promise_capability (logged J) (cs_heap s) = (Some (p, rs, rj), h) \<and> fst r = Nc_value p \<and>
          cs_calls (snd r) = cs_calls s @ [\<lparr>ac_resolve = rs, ac_reject = rj, ac_lazy = g k args\<rparr>])) \<and>
    (\<forall>i out t. call_step (logged J) w (Ca_done i out) s = Some t \<longrightarrow>
       cs_calls t = take i (cs_calls s) @ drop (Suc i) (cs_calls s) \<and>
       cs_pending_ops t = (if out = Co_other then cs_pending_ops s else cs_pending_ops s - 1) \<and>
       snd (cs_heap t) = snd (cs_heap s) @
         (case out of
            Co_value q \<Rightarrow>
              if q_is_exception J q
              then [(ac_reject (cs_calls s ! i), [fst (js_get_exception J (fst (cs_heap s)))])]
              else [(ac_resolve (cs_calls s ! i), [q_raw J q])]
          | Co_convert_error \<Rightarrow> [(ac_reject (cs_calls s ! i), [fst (js_get_exception J (fst (cs_heap s)))])]
          | Co_std_error m \<Rightarrow> [(ac_reject (cs_calls s ! i), [fst (make_error J m (fst (cs_heap s)))])]
          | Co_other \<Rightarrow> []))"
proof (intro conjI allI impI)
  show "cs_pending_ops s = int (length (cs_calls s) + length (cs_log s))"
    using reg_calls.reachable_inv [OF assms] by (simp add: call_inv_def)
next
  fix k name args
  show "let r = native_call (logged J) w (Some k) name args s in
       cs_calls (snd r) = cs_calls s \<or>
       (\<exists>g p rs rj h. find_async_function k name w = Some g \<and>
          js_promise_capability (logged J) (cs_heap s) = (Some (p, rs, rj), h) \<and> fst r = Nc_value p \<and>
          cs_calls (snd r) = cs_calls s @ [\<lparr>ac_resolve = rs, ac_reject = rj, ac_lazy = g k args\<rparr>])"
    unfolding Let_def by (rule native_call_calls)
qed (auto simp: handle_frame handle_logged split: if_splits)

definition demo_world :: "((prim, (prim, unit) logged_heap) sync_fn, (prim, nat) async_fn) reg_world" where
  "demo_world = register_global_async_function ''fetch'' (\<lambda>i args. 0)
     \<lparr>rw_host = (\<lambda>_. \<lparr>sync_functions = (\<lambda>_. None), async_functions = (\<lambda>_. None)\<rparr>),
      global_sync_functions = (\<lambda>_. None), global_async_functions = (\<lambda>_. None)\<rparr>"

text \<open>The engine of the round trip, with promises whose resolving functions can be told apart.\<close>

definition promise_js :: "(prim, unit) js_conv" where
  "promise_js = prim_js\<lparr>js_promise_capability := \<lambda>h. (Some (Pr_undef, Pr_bool True, Pr_bool False), h)\<rparr>"

lemma demo_call:
  "\<exists>s t. run (call_step (logged promise_js) demo_world) (call_init ((), []))
       [Ca_call (Some 1) ''fetch'' []] = Some s \<and>
     snd (cs_heap s) = [] \<and> ac_resolve (cs_calls s ! 0) = Pr_bool True \<and>
     call_step (logged promise_js) demo_world (Ca_done 0 (Co_value (Some (Pr_str ''x'')))) s = Some t"
  by (simp add: call_init_def native_call_def demo_world_def find_sync_function_def
      find_async_function_def register_global_async_function_def logged_def keep_def promise_js_def prim_js_def)

theorem async_call_settles_once_witness:
  "\<exists>s t. reachable (call_step (logged promise_js) demo_world) (call_init ((), [])) s \<and>
     call_step (logged promise_js) demo_world (Ca_done 0 (Co_value (Some (Pr_str ''x'')))) s = Some t \<and>
     snd (cs_heap t) = [(Pr_bool True, [Pr_str ''x''])]"
proof -
  obtain s t where s: "run (call_step (logged promise_js) demo_world) (call_init ((), []))
      [Ca_call (Some 1) ''fetch'' []] = Some s"
    and h: "snd (cs_heap s) = []" "ac_resolve (cs_calls s ! 0) = Pr_bool True"
    and t: "call_step (logged promise_js) demo_world (Ca_done 0 (Co_value (Some (Pr_str ''x'')))) s = Some t"
    using demo_call by blast
  have "\<not> q_is_exception promise_js (Some (Pr_str ''x''))" "q_raw promise_js (Some (Pr_str ''x'')) = Pr_str ''x''"
    by (simp_all add: q_is_exception_def q_raw_def promise_js_def prim_js_def)
  with async_call_settles_once [OF run_reachable [OF s]] t h
  have "snd (cs_heap t) = [(Pr_bool True, [Pr_str ''x''])]" by (simp del: call_step.simps)
  then show ?thesis using run_reachable [OF s] t by blast
qed

end
