(* ===== verification/CurlClient.thy ===== *)
theory CurlClient
  imports Prelude
begin

text \<open>
  The event-loop side of libcurl (\<open>src/curl_runtime.cpp\<close>): \<open>CurlWatch\<close> objects that wait for a
  socket to become readable or writable, the socket and timer callbacks libcurl calls, and
  \<open>Client::shutdown\<close>.  Watches live at addresses of the client state; \<open>cl_outstanding\<close> are the waits
  asio holds a handler for.  The callbacks libcurl makes from inside \<open>curl_multi_socket_action\<close>
  are an argument of the operations that call it, so every nesting is covered.
\<close>

unbundle bit_operations_syntax

section \<open>State\<close>

datatype dir = Dir_in | Dir_out

fun poll_bit :: "dir \<Rightarrow> 32 word" where
  "poll_bit Dir_in = 1"
| "poll_bit Dir_out = 2"

definition curl_poll_remove :: "32 word" where
  "curl_poll_remove = 4"

record watch =
  wa_fd :: int
  wa_action :: "32 word"
  wa_read_armed :: bool
  wa_write_armed :: bool

record client =
  cl_heap :: "nat \<Rightarrow> watch"
  cl_brk :: nat
  cl_watches :: "int \<Rightarrow> nat option"
  cl_assigned :: "int \<Rightarrow> nat option"
  cl_outstanding :: "(nat \<times> dir) list"
  cl_multi :: bool
  cl_stopping :: bool
  cl_timer :: "int option"

definition new_watch :: "int \<Rightarrow> watch" where
  "new_watch s = \<lparr>wa_fd = s, wa_action = 0, wa_read_armed = False, wa_write_armed = False\<rparr>"

definition client_init :: client where
  "client_init =
     \<lparr>cl_heap = (\<lambda>_. new_watch 0), cl_brk = 0, cl_watches = (\<lambda>_. None), cl_assigned = (\<lambda>_. None),
      cl_outstanding = [], cl_multi = True, cl_stopping = False, cl_timer = None\<rparr>"

definition wants :: "dir \<Rightarrow> watch \<Rightarrow> bool" where
  "wants d w = (wa_action w AND poll_bit d \<noteq> 0)"

definition armed :: "dir \<Rightarrow> watch \<Rightarrow> bool" where
  "armed d w = (case d of Dir_in \<Rightarrow> wa_read_armed w | Dir_out \<Rightarrow> wa_write_armed w)"

definition set_armed :: "dir \<Rightarrow> bool \<Rightarrow> watch \<Rightarrow> watch" where
  "set_armed d b w =
     (case d of Dir_in \<Rightarrow> w\<lparr>wa_read_armed := b\<rparr> | Dir_out \<Rightarrow> w\<lparr>wa_write_armed := b\<rparr>)"

definition upd_watch :: "nat \<Rightarrow> (watch \<Rightarrow> watch) \<Rightarrow> client \<Rightarrow> client" where
  "upd_watch a f c = c\<lparr>cl_heap := (cl_heap c)(a := f (cl_heap c a))\<rparr>"

section \<open>CurlWatch\<close>

definition alive :: "nat \<Rightarrow> client \<Rightarrow> bool" where
  "alive a c = (cl_watches c (wa_fd (cl_heap c a)) = Some a)"

definition arm_dir :: "nat \<Rightarrow> dir \<Rightarrow> client \<Rightarrow> client" where
  "arm_dir a d c =
     (if \<not> wants d (cl_heap c a) \<or> armed d (cl_heap c a) then c
      else (upd_watch a (set_armed d True) c)\<lparr>cl_outstanding := (a, d) # cl_outstanding c\<rparr>)"

definition arm :: "nat \<Rightarrow> client \<Rightarrow> client" where
  "arm a c = (if cl_stopping c then c else arm_dir a Dir_out (arm_dir a Dir_in c))"

definition update :: "nat \<Rightarrow> 32 word \<Rightarrow> client \<Rightarrow> client" where
  "update a what c = arm a (upd_watch a (\<lambda>w. w\<lparr>wa_action := what\<rparr>) c)"

definition dispose :: "nat \<Rightarrow> client \<Rightarrow> client" where
  "dispose a c = upd_watch a (\<lambda>w. w\<lparr>wa_action := 0\<rparr>) c"

section \<open>Callbacks from libcurl\<close>

text \<open>\<open>assign_ok\<close>: asio accepted the socket.\<close>

definition curl_socket_callback :: "int \<Rightarrow> 32 word \<Rightarrow> bool \<Rightarrow> client \<Rightarrow> int \<times> client" where
  "curl_socket_callback s what assign_ok c =
     (if what = curl_poll_remove
      then (case cl_assigned c s of
              None \<Rightarrow> (0, c)
            | Some old \<Rightarrow>
                (0, (dispose old c)\<lparr>cl_assigned := (cl_assigned c)(s := None),
                                    cl_watches := (cl_watches c)(s := None)\<rparr>))
      else (case cl_assigned c s of
              Some old \<Rightarrow>
                (case cl_watches c s of
                   None \<Rightarrow> (-1, c)
                 | Some a \<Rightarrow> (0, update a what c))
            | None \<Rightarrow>
                if \<not> assign_ok then (-1, c)
                else (let a = cl_brk c;
                          c1 = c\<lparr>cl_heap := (cl_heap c)(a := new_watch s), cl_brk := Suc a,
                                 cl_watches := (cl_watches c)(s := Some a),
                                 cl_assigned := (cl_assigned c)(s := Some a)\<rparr>
                      in (0, update a what c1))))"

definition arm_timer :: "int \<Rightarrow> client \<Rightarrow> client" where
  "arm_timer timeout_ms c =
     (let c1 = c\<lparr>cl_timer := None\<rparr>
      in if timeout_ms < 0 \<or> cl_stopping c then c1 else c1\<lparr>cl_timer := Some timeout_ms\<rparr>)"

datatype multi_cb = Mc_socket int "32 word" bool | Mc_timer int

fun multi_callback :: "multi_cb \<Rightarrow> client \<Rightarrow> client" where
  "multi_callback (Mc_socket s what good) c = snd (curl_socket_callback s what good c)"
| "multi_callback (Mc_timer ms) c = arm_timer ms c"

text \<open>\<open>cbs\<close> are the callbacks libcurl makes while it handles the action and its messages.\<close>

definition on_socket_action :: "multi_cb list \<Rightarrow> client \<Rightarrow> client" where
  "on_socket_action cbs c =
     (if \<not> cl_multi c \<or> cl_stopping c then c else fold multi_callback cbs c)"

section \<open>Handlers\<close>

text \<open>The handler of the wait of watch \<open>a\<close> in direction \<open>d\<close>.\<close>

definition wait_done :: "nat \<Rightarrow> dir \<Rightarrow> bool \<Rightarrow> multi_cb list \<Rightarrow> client \<Rightarrow> client" where
  "wait_done a d ec cbs c =
     (let c1 = (upd_watch a (set_armed d False) c)
                 \<lparr>cl_outstanding := remove1 (a, d) (cl_outstanding c)\<rparr>
      in if ec \<or> cl_stopping c1 then c1
         else (let c2 = (if wants d (cl_heap c1 a) then on_socket_action cbs c1 else c1)
               in if alive a c2 then arm a c2 else c2))"

definition timer_done :: "bool \<Rightarrow> multi_cb list \<Rightarrow> client \<Rightarrow> client" where
  "timer_done err cbs c =
     (if err \<or> cl_stopping c then c else on_socket_action cbs (c\<lparr>cl_timer := None\<rparr>))"

definition shutdown :: "client \<Rightarrow> client" where
  "shutdown c =
     c\<lparr>cl_stopping := True, cl_timer := None,
       cl_heap := (\<lambda>a. if a \<in> ran (cl_watches c) then (cl_heap c a)\<lparr>wa_action := 0\<rparr> else cl_heap c a),
       cl_watches := (\<lambda>_. None)\<rparr>"

text \<open>
  The machine: handlers of outstanding waits, timers, actions from elsewhere (a transfer added or
  removed), shutdown.  A wait of a watch that is still registered does not fail: only \<open>dispose\<close>
  cancels it.
\<close>

datatype client_event =
    Cl_wait nat dir bool "multi_cb list"
  | Cl_timer bool "multi_cb list"
  | Cl_action "multi_cb list"
  | Cl_shutdown

fun client_step :: "client_event \<Rightarrow> client \<Rightarrow> client option" where
  "client_step (Cl_wait a d ec cbs) c =
     (if (a, d) \<in> set (cl_outstanding c) \<and> \<not> (ec \<and> alive a c) then Some (wait_done a d ec cbs c)
      else None)"
| "client_step (Cl_timer err cbs) c =
     (if cl_timer c \<noteq> None then Some (timer_done err cbs c) else None)"
| "client_step (Cl_action cbs) c = Some (on_socket_action cbs c)"
| "client_step Cl_shutdown c = Some (shutdown c)"

section \<open>The invariant\<close>

definition waits_ok :: "client \<Rightarrow> bool" where
  "waits_ok c \<longleftrightarrow>
     (\<forall>a d. count_list (cl_outstanding c) (a, d) = (if armed d (cl_heap c a) then 1 else 0)) \<and>
     (\<forall>a \<ge> cl_brk c. \<forall>d. \<not> armed d (cl_heap c a))"

text \<open>Every registered watch other than those in \<open>X\<close> waits for what it wants.\<close>

definition watches_ok :: "nat set \<Rightarrow> client \<Rightarrow> bool" where
  "watches_ok X c \<longleftrightarrow>
     cl_watches c = cl_assigned c \<and>
     (\<forall>s a. cl_watches c s = Some a \<longrightarrow> a < cl_brk c) \<and>
     (\<forall>s a. cl_watches c s = Some a \<longrightarrow> wa_fd (cl_heap c a) = s) \<and>
     (\<forall>s a d. cl_watches c s = Some a \<longrightarrow> a \<notin> X \<longrightarrow> wants d (cl_heap c a) \<longrightarrow>
        armed d (cl_heap c a))"

definition client_inv :: "nat set \<Rightarrow> client \<Rightarrow> bool" where
  "client_inv X c \<longleftrightarrow> waits_ok c \<and> (if cl_stopping c then True else watches_ok X c)"

lemma watches_okD:
  assumes "watches_ok X c" and "cl_assigned c s = Some a"
  shows "a < cl_brk c" "wa_fd (cl_heap c a) = s" "a \<notin> X \<Longrightarrow> wants d (cl_heap c a) \<Longrightarrow> armed d (cl_heap c a)"
  using assms unfolding watches_ok_def by simp_all

lemma watches_okI:
  assumes "cl_watches c = cl_assigned c"
    and "\<And>s a. cl_assigned c s = Some a \<Longrightarrow> a < cl_brk c \<and> wa_fd (cl_heap c a) = s"
    and "\<And>s a d. cl_assigned c s = Some a \<Longrightarrow> a \<notin> X \<Longrightarrow> wants d (cl_heap c a) \<Longrightarrow> armed d (cl_heap c a)"
  shows "watches_ok X c"
  using assms unfolding watches_ok_def by simp

lemma client_invD:
  assumes "client_inv X c"
  shows "waits_ok c" "\<not> cl_stopping c \<Longrightarrow> watches_ok X c"
  using assms by (simp_all add: client_inv_def)

lemma watches_okE: "watches_ok X c \<Longrightarrow> cl_watches c = cl_assigned c"
  by (simp add: watches_ok_def)

lemma armed_set_armed [simp]: "armed d (set_armed e b w) = (if d = e then b else armed d w)"
  by (cases d; cases e) (auto simp: armed_def set_armed_def)

lemma set_armed_frame [simp]:
  "wants d (set_armed e b w) = wants d w" "wa_fd (set_armed e b w) = wa_fd w"
  by (cases e; simp add: wants_def set_armed_def)+

lemma armed_action [simp]: "armed d (w\<lparr>wa_action := x\<rparr>) = armed d w"
  by (cases d) (simp_all add: armed_def)

lemma upd_watch_simps [simp]:
  "cl_heap (upd_watch a f c) = (cl_heap c)(a := f (cl_heap c a))"
  "cl_brk (upd_watch a f c) = cl_brk c" "cl_watches (upd_watch a f c) = cl_watches c"
  "cl_assigned (upd_watch a f c) = cl_assigned c" "cl_outstanding (upd_watch a f c) = cl_outstanding c"
  "cl_stopping (upd_watch a f c) = cl_stopping c"
  by (simp_all add: upd_watch_def)

lemma waits_arm_dir: "waits_ok c \<Longrightarrow> a < cl_brk c \<Longrightarrow> waits_ok (arm_dir a d c)"
  by (auto simp: waits_ok_def arm_dir_def)

lemma arm_dir_frame [simp]:
  "cl_brk (arm_dir a d c) = cl_brk c" "cl_watches (arm_dir a d c) = cl_watches c"
  "cl_assigned (arm_dir a d c) = cl_assigned c" "cl_stopping (arm_dir a d c) = cl_stopping c"
  by (simp_all add: arm_dir_def)

lemma arm_dir_heap:
  "wa_fd (cl_heap (arm_dir a d c) b) = wa_fd (cl_heap c b)"
  "wants e (cl_heap (arm_dir a d c) b) = wants e (cl_heap c b)"
  "armed e (cl_heap (arm_dir a d c) b) =
     (armed e (cl_heap c b) \<or> (b = a \<and> e = d \<and> wants d (cl_heap c a)))"
  by (auto simp: arm_dir_def)

lemma arm_frame [simp]:
  "cl_stopping (arm a c) = cl_stopping c" "cl_stopping (update a what c) = cl_stopping c"
  "cl_brk (arm a c) = cl_brk c" "cl_brk (update a what c) = cl_brk c"
  "cl_watches (arm a c) = cl_watches c" "cl_assigned (arm a c) = cl_assigned c"
  by (simp_all add: arm_def update_def)

lemma inv_arm:
  assumes "client_inv (insert a X) c" and "a < cl_brk c"
  shows "client_inv X (arm a c)"
proof (cases "cl_stopping c")
  case True
  then show ?thesis using assms by (simp add: client_inv_def arm_def)
next
  case False
  have mine: "armed d (cl_heap (arm a c) a)" if "wants d (cl_heap (arm a c) a)" for d
    using that False by (cases d) (auto simp: arm_def arm_dir_heap)
  have others: "armed d (cl_heap (arm a c) b) = armed d (cl_heap c b)" if "b \<noteq> a" for b d
    using that False by (simp add: arm_def arm_dir_heap)
  have frame: "wa_fd (cl_heap (arm a c) b) = wa_fd (cl_heap c b)"
    "wants d (cl_heap (arm a c) b) = wants d (cl_heap c b)" for b d
    using False by (simp_all add: arm_def arm_dir_heap)
  have "waits_ok (arm a c)"
    using assms False waits_arm_dir by (simp add: client_inv_def arm_def)
  moreover have "watches_ok X (arm a c)"
    using assms False mine others frame
    unfolding client_inv_def watches_ok_def arm_frame by (metis insertE)
  ultimately show ?thesis by (simp add: client_inv_def)
qed

lemma inv_update:
  assumes "client_inv X c" and "a < cl_brk c"
  shows "client_inv (X - {a}) (update a what c)"
  unfolding update_def
  by (rule inv_arm) (use assms in \<open>auto simp: client_inv_def waits_ok_def watches_ok_def wants_def\<close>)

lemma inv_mono: "client_inv X c \<Longrightarrow> X \<subseteq> Y \<Longrightarrow> client_inv Y c"
  unfolding client_inv_def watches_ok_def by (metis subsetD)

lemma inv_new_watch:
  assumes "client_inv X c" and "\<not> cl_stopping c" and "cl_assigned c s = None"
  shows "client_inv X (c\<lparr>cl_heap := (cl_heap c)(cl_brk c := new_watch s), cl_brk := Suc (cl_brk c),
     cl_watches := (cl_watches c)(s := Some (cl_brk c)),
     cl_assigned := (cl_assigned c)(s := Some (cl_brk c))\<rparr>)" (is "client_inv X ?t")
proof -
  note w = client_invD(2) [OF assms(1,2)]
  have nw: "\<not> armed d (new_watch s)" "\<not> wants d (new_watch s)" "wa_fd (new_watch s) = s" for d
    by (cases d; simp add: armed_def new_watch_def wants_def)+
  have fresh: "cl_assigned c s' = Some a \<Longrightarrow> a \<noteq> cl_brk c" for s' a
    using watches_okD(1) [OF w] by fastforce
  have "watches_ok X ?t"
  proof (rule watches_okI)
    show "cl_watches ?t = cl_assigned ?t" using watches_okE [OF w] by simp
  next
    fix s' a assume "cl_assigned ?t s' = Some a"
    then show "a < cl_brk ?t \<and> wa_fd (cl_heap ?t a) = s'"
      using fresh watches_okD(1,2) [OF w] nw by (auto split: if_splits simp: less_SucI)
  next
    fix s' a d assume "cl_assigned ?t s' = Some a" "a \<notin> X" "wants d (cl_heap ?t a)"
    then show "armed d (cl_heap ?t a)"
      using fresh watches_okD(3) [OF w] nw by (auto split: if_splits)
  qed
  moreover have "waits_ok ?t"
    using client_invD(1) [OF assms(1)] nw by (auto simp: waits_ok_def)
  ultimately show ?thesis by (simp add: client_inv_def)
qed

lemma inv_socket_callback:
  assumes "client_inv X c" and "\<not> cl_stopping c"
  shows "client_inv X (snd (curl_socket_callback s what good c))" (is "client_inv X ?t")
proof -
  have w: "cl_watches c = cl_assigned c" and r: "\<And>a. cl_assigned c s = Some a \<Longrightarrow> a < cl_brk c"
    using assms by (auto simp: client_inv_def watches_ok_def)
  consider "what = curl_poll_remove" "cl_assigned c s = None"
    | old where "what = curl_poll_remove" "cl_assigned c s = Some old"
    | old where "what \<noteq> curl_poll_remove" "cl_assigned c s = Some old"
    | "what \<noteq> curl_poll_remove" "cl_assigned c s = None"
    by (cases "cl_assigned c s") auto
  then show ?thesis
  proof cases
    case 1
    then show ?thesis using assms by (simp add: curl_socket_callback_def)
  next
    case 2
    have "\<not> wants d (wt\<lparr>wa_action := 0\<rparr>)" for d wt by (simp add: wants_def)
    then show ?thesis
      using assms w 2
      by (auto simp: curl_socket_callback_def client_inv_def waits_ok_def watches_ok_def dispose_def)
  next
    case 3
    then have "?t = update old what c" using w by (simp add: curl_socket_callback_def)
    then show ?thesis using inv_update [OF assms(1) r [OF 3(2)]] inv_mono by auto
  next
    case 4
    show ?thesis
    proof (cases good)
      case True
      let ?c = "c\<lparr>cl_heap := (cl_heap c)(cl_brk c := new_watch s), cl_brk := Suc (cl_brk c),
        cl_watches := (cl_watches c)(s := Some (cl_brk c)),
        cl_assigned := (cl_assigned c)(s := Some (cl_brk c))\<rparr>"
      have "?t = update (cl_brk c) what ?c" using 4 True by (simp add: curl_socket_callback_def Let_def)
      moreover have "client_inv (X - {cl_brk c}) (update (cl_brk c) what ?c)"
        by (rule inv_update [OF inv_new_watch [OF assms 4(2)]]) simp
      ultimately show ?thesis using inv_mono by auto
    next
      case False
      then show ?thesis using 4 assms by (simp add: curl_socket_callback_def)
    qed
  qed
qed

lemma socket_callback_stopping [simp]:
  "cl_stopping (snd (curl_socket_callback s what good c)) = cl_stopping c"
  by (auto simp: curl_socket_callback_def dispose_def Let_def split: option.splits)

lemma brk_grows: "cl_brk c \<le> cl_brk (snd (curl_socket_callback s what good c))"
  by (auto simp: curl_socket_callback_def dispose_def Let_def split: option.splits)

lemma arm_timer_frame [simp]:
  "cl_stopping (arm_timer ms c) = cl_stopping c" "cl_brk (arm_timer ms c) = cl_brk c"
  by (simp_all add: arm_timer_def Let_def)

lemma inv_timer: "client_inv X c \<Longrightarrow> client_inv X (arm_timer ms c)"
  by (auto simp: arm_timer_def client_inv_def waits_ok_def watches_ok_def Let_def)

lemma inv_callbacks:
  assumes "client_inv X c" and "\<not> cl_stopping c"
  shows "client_inv X (fold multi_callback cbs c) \<and> \<not> cl_stopping (fold multi_callback cbs c) \<and>
    cl_brk c \<le> cl_brk (fold multi_callback cbs c)"
  using assms
proof (induction cbs arbitrary: c)
  case Nil
  then show ?case by simp
next
  case (Cons cb cbs)
  have "client_inv X (multi_callback cb c) \<and> \<not> cl_stopping (multi_callback cb c) \<and>
      cl_brk c \<le> cl_brk (multi_callback cb c)"
    using Cons.prems inv_socket_callback inv_timer brk_grows by (cases cb) auto
  then show ?case using Cons.IH [of "multi_callback cb c"] by auto
qed

lemma inv_action: "client_inv X c \<Longrightarrow> client_inv X (on_socket_action cbs c)"
  using inv_callbacks by (auto simp: on_socket_action_def)

lemma dead_watch:
  assumes "client_inv {a} c" and "\<not> alive a c"
  shows "client_inv {} c"
proof -
  have "watches_ok {} c" if w: "watches_ok {a} c"
  proof (rule watches_okI [OF watches_okE [OF w]])
    fix s b d assume "cl_assigned c s = Some b" "wants d (cl_heap c b)"
    then show "armed d (cl_heap c b)"
      using watches_okD(2,3) [OF w] assms(2) watches_okE [OF w] by (cases "b = a") (auto simp: alive_def)
  qed (use watches_okD [OF w] in blast)
  then show ?thesis using assms(1) by (simp add: client_inv_def)
qed

lemma inv_wait_done:
  assumes "client_inv {} c" and "(a, d) \<in> set (cl_outstanding c)" and "\<not> (ec \<and> alive a c)"
  shows "client_inv {} (wait_done a d ec cbs c)"
proof -
  define c1 where "c1 = (upd_watch a (set_armed d False) c)
    \<lparr>cl_outstanding := remove1 (a, d) (cl_outstanding c)\<rparr>"
  have "count_list (cl_outstanding c) (a, d) \<noteq> 0" using assms(2) by (simp add: count_list_0_iff)
  then have ar: "armed d (cl_heap c a)" and cnt: "count_list (cl_outstanding c) (a, d) = 1"
    using assms(1) by (auto simp: client_inv_def waits_ok_def split: if_splits)
  have a: "a < cl_brk c"
    using ar assms(1) not_less [of a "cl_brk c"] by (auto simp: client_inv_def waits_ok_def)
  have rem: "count_list (remove1 x xs) y = (if x = y then count_list xs y - 1 else count_list xs y)"
    for x y and xs :: "(nat \<times> dir) list" by (induction xs) auto
  have "waits_ok c1"
    using assms(1) cnt by (auto simp: client_inv_def waits_ok_def c1_def rem)
  then have inv1: "client_inv {a} c1"
    using assms(1) by (auto simp: client_inv_def watches_ok_def c1_def split: if_splits)
  show ?thesis
  proof (cases "ec \<or> cl_stopping c1")
    case True
    have "client_inv {} c1"
    proof (cases "cl_stopping c")
      case True
      then show ?thesis using inv1 by (simp add: client_inv_def c1_def)
    next
      case False
      then have "\<not> alive a c" using True assms(3) by (simp add: c1_def)
      then have "\<not> alive a c1" by (simp add: alive_def c1_def)
      then show ?thesis using inv1 dead_watch by blast
    qed
    then show ?thesis using True by (simp add: wait_done_def Let_def flip: c1_def)
  next
    case False
    define c2 where "c2 = (if wants d (cl_heap c1 a) then on_socket_action cbs c1 else c1)"
    have inv2: "client_inv {a} c2" using inv_action [OF inv1] inv1 by (simp add: c2_def)
    have b2: "a < cl_brk c2"
      using a inv_callbacks [OF inv1] False by (auto simp: c2_def on_socket_action_def c1_def intro: less_le_trans)
    have "client_inv {} (if alive a c2 then arm a c2 else c2)"
    proof (cases "alive a c2")
      case True
      then show ?thesis using inv_arm [of a "{}"] inv2 b2 by simp
    next
      case False
      then show ?thesis using inv2 dead_watch by simp
    qed
    moreover have "wait_done a d ec cbs c = (if alive a c2 then arm a c2 else c2)"
      using False by (simp only: wait_done_def Let_def c2_def c1_def if_False)
    ultimately show ?thesis by simp
  qed
qed

lemma inv_client_step: "client_inv {} c \<Longrightarrow> client_step l c = Some t \<Longrightarrow> client_inv {} t"
proof (cases l)
  case Cl_wait
  assume "client_inv {} c" "client_step l c = Some t"
  then show ?thesis using Cl_wait inv_wait_done by (auto split: if_splits)
next
  case (Cl_timer err cbs)
  assume inv: "client_inv {} c" and st: "client_step l c = Some t"
  have "watches_ok {} (c\<lparr>cl_timer := None\<rparr>) = watches_ok {} c"
    by (simp add: watches_ok_def)
  then have "client_inv {} (c\<lparr>cl_timer := None\<rparr>)"
    using inv by (simp add: client_inv_def waits_ok_def)
  then show ?thesis
    using inv st Cl_timer inv_action by (auto simp: timer_done_def split: if_splits)
next
  case Cl_action
  assume "client_inv {} c" "client_step l c = Some t"
  then show ?thesis using Cl_action inv_action by auto
next
  case Cl_shutdown
  assume "client_inv {} c" "client_step l c = Some t"
  moreover have "armed d (cl_heap (shutdown c) a) = armed d (cl_heap c a)" for a d
    by (simp add: shutdown_def)
  moreover have "cl_outstanding (shutdown c) = cl_outstanding c" "cl_brk (shutdown c) = cl_brk c"
    "cl_stopping (shutdown c)" by (simp_all add: shutdown_def)
  ultimately show ?thesis using Cl_shutdown by (simp add: client_inv_def waits_ok_def)
qed

interpretation curl_client: machine client_step client_init "client_inv {}"
proof unfold_locales
  have "\<not> armed d (new_watch 0)" for d by (cases d) (simp_all add: armed_def new_watch_def)
  then show "client_inv {} client_init"
    by (simp add: client_inv_def waits_ok_def watches_ok_def client_init_def)
qed (rule inv_client_step)

text \<open>
  C14: no socket event is missed and none is waited for twice.  In every reachable state of a client
  that is not shutting down, a socket libcurl has registered has its own watch, libcurl's socket
  pointer agrees with the table, and for each direction libcurl last asked for exactly one wait is
  outstanding; no watch ever has two waits in one direction.
\<close>

theorem watches_always_armed:
  assumes "reachable client_step client_init c" and "\<not> cl_stopping c"
    and "cl_watches c s = Some a"
  shows "cl_assigned c s = Some a \<and> wa_fd (cl_heap c a) = s \<and>
    count_list (cl_outstanding c) (a, d) \<le> 1 \<and>
    (if wants d (cl_heap c a) then count_list (cl_outstanding c) (a, d) = 1 else True)"
  using curl_client.reachable_inv [OF assms(1)] assms(2,3)
  by (auto simp: client_inv_def watches_ok_def waits_ok_def)

theorem watches_always_armed_witness:
  "\<exists>c. reachable client_step client_init c \<and> cl_watches c 5 = Some 0 \<and>
     count_list (cl_outstanding c) (0, Dir_in) = 1"
proof -
  have "\<exists>c. run client_step client_init [Cl_action [Mc_socket 5 3 True, Mc_timer 10],
      Cl_wait 0 Dir_in False [Mc_socket 5 1 True]] = Some c \<and> \<not> cl_stopping c \<and>
      cl_watches c 5 = Some 0 \<and> wants Dir_in (cl_heap c 0)"
    by (simp add: on_socket_action_def client_init_def curl_socket_callback_def curl_poll_remove_def
        update_def arm_def arm_dir_def upd_watch_def new_watch_def wants_def armed_def set_armed_def
        arm_timer_def wait_done_def alive_def Let_def)
  then obtain c where c: "run client_step client_init [Cl_action [Mc_socket 5 3 True, Mc_timer 10],
      Cl_wait 0 Dir_in False [Mc_socket 5 1 True]] = Some c" and n: "\<not> cl_stopping c"
    and w: "cl_watches c 5 = Some 0" and i: "wants Dir_in (cl_heap c 0)" by blast
  from watches_always_armed [OF run_reachable [OF c] n w, of Dir_in] i w run_reachable [OF c]
  show ?thesis by auto
qed

end
