(* ===== verification/CurlTransfer.thy ===== *)
theory CurlTransfer
  imports Prelude
begin

text \<open>
  One HTTP transfer on libcurl (\<open>src/curl_http.hpp\<close>, \<open>src/curl_runtime.cpp\<close>): the request options it
  sets, the callbacks that collect header and body, the result it is turned into, and the
  completion that runs once.  What libcurl reports (result code, status, effective URL, redirect
  count) is an argument.
\<close>

section \<open>Data\<close>

record header_pair =
  hp_name :: string
  hp_value :: string

record fetch_options =
  fo_url :: string
  fo_method :: string
  fo_headers :: "header_pair list"
  fo_body :: bytes
  fo_follow_redirects :: bool
  fo_timeout_sec :: int
  fo_fail_on_redirect :: bool

definition default_options :: fetch_options where
  "default_options =
     \<lparr>fo_url = [], fo_method = ''GET'', fo_headers = [], fo_body = [], fo_follow_redirects = True,
      fo_timeout_sec = 30, fo_fail_on_redirect = False\<rparr>"

record fetch_result =
  fr_ok :: bool
  fr_status :: int
  fr_status_text :: string
  fr_body :: bytes
  fr_url :: string
  fr_error :: string
  fr_headers :: "header_pair list"
  fr_redirected :: bool
  fr_aborted :: bool

definition default_fetch_result :: fetch_result where
  "default_fetch_result =
     \<lparr>fr_ok = False, fr_status = 0, fr_status_text = [], fr_body = [], fr_url = [], fr_error = [],
      fr_headers = [], fr_redirected = False, fr_aborted = False\<rparr>"

text \<open>\<open>tf_easy\<close>: the easy handle exists; \<open>tf_complete\<close>: the completion closure has not been moved
  out; \<open>tf_client\<close>: the client pointer is set; \<open>tf_in_multi\<close>: the handle is in the multi handle.\<close>

record transfer =
  tf_client :: bool
  tf_easy :: bool
  tf_options :: fetch_options
  tf_body :: bytes
  tf_response_headers :: "header_pair list"
  tf_status_text :: string
  tf_errbuf :: string
  tf_req_headers :: "string list"
  tf_complete :: bool
  tf_id :: "64 word"
  tf_finished :: bool
  tf_in_multi :: bool

definition new_transfer :: "bool \<Rightarrow> fetch_options \<Rightarrow> 64 word \<Rightarrow> transfer" where
  "new_transfer easy_ok options i =
     \<lparr>tf_client = False, tf_easy = easy_ok, tf_options = options, tf_body = [],
      tf_response_headers = [], tf_status_text = [], tf_errbuf = [], tf_req_headers = [],
      tf_complete = True, tf_id = i, tf_finished = False, tf_in_multi = False\<rparr>"

section \<open>Response callbacks\<close>

definition write_cb :: "bytes \<Rightarrow> transfer \<Rightarrow> nat \<times> transfer" where
  "write_cb data t = (length data, t\<lparr>tf_body := tf_body t @ data\<rparr>)"

definition is_eol :: "char \<Rightarrow> bool" where
  "is_eol c = (c = CHR 0x0A \<or> c = CHR 0x0D)"

definition is_blank :: "char \<Rightarrow> bool" where
  "is_blank c = (c = CHR '' '' \<or> c = CHR 0x09)"

text \<open>The loop that pops line ends off the back.\<close>

definition strip_eol :: "string \<Rightarrow> string" where
  "strip_eol s = rev (dropWhile is_eol (rev s))"

definition status_text_of :: "string \<Rightarrow> string" where
  "status_text_of line =
     (case find_char (CHR '' '') line of
        None \<Rightarrow> []
      | Some sp1 \<Rightarrow>
          (case find_char_from (CHR '' '') line (sp1 + 1) of
             None \<Rightarrow> []
           | Some sp2 \<Rightarrow> if sp2 + 1 < length line then drop (sp2 + 1) line else []))"

definition header_cb :: "string \<Rightarrow> transfer \<Rightarrow> nat \<times> transfer" where
  "header_cb raw t =
     (let line = strip_eol raw
      in (length raw,
          if line = [] then t
          else if take 5 line = ''HTTP/''
          then t\<lparr>tf_response_headers := [], tf_status_text := status_text_of line\<rparr>
          else (case find_char (CHR '':'') line of
                  None \<Rightarrow> t
                | Some colon \<Rightarrow>
                    t\<lparr>tf_response_headers := tf_response_headers t @
                        [\<lparr>hp_name = take colon line,
                          hp_value = dropWhile is_blank (drop (colon + 1) line)\<rparr>]\<rparr>)))"

section \<open>Starting\<close>

datatype curl_opt =
    Opt_url string | Opt_followlocation int | Opt_maxredirs int | Opt_private | Opt_useragent string
  | Opt_accept_encoding string | Opt_timeout int | Opt_httpget | Opt_nobody | Opt_post
  | Opt_postfields bytes | Opt_postfieldsize int | Opt_customrequest string
  | Opt_httpheader "string list"

definition request_line :: "header_pair \<Rightarrow> string" where
  "request_line h = hp_name h @ '': '' @ hp_value h"

definition method_opts :: "fetch_options \<Rightarrow> curl_opt list" where
  "method_opts p =
     (let method = (if fo_method p = [] then ''GET'' else fo_method p);
          send_body = [Opt_postfields (fo_body p), Opt_postfieldsize (int (length (fo_body p)))]
      in if method = ''GET'' then [Opt_httpget]
         else if method = ''HEAD'' then [Opt_nobody]
         else if method = ''POST'' then Opt_post # send_body
         else if method = ''PUT'' then Opt_customrequest ''PUT'' # send_body
         else Opt_customrequest method # (if fo_body p \<noteq> [] then send_body else []))"

text \<open>\<open>added\<close>: the multi handle took the easy handle.  The result lists the options set.\<close>

definition start :: "bool \<Rightarrow> transfer \<Rightarrow> bool \<times> curl_opt list \<times> transfer" where
  "start added t =
     (if \<not> tf_easy t \<or> \<not> tf_client t then (False, [], t)
      else
        (let p = tf_options t;
             lines = map request_line (fo_headers p);
             opts = [Opt_url (fo_url p), Opt_followlocation (if fo_follow_redirects p then 1 else 0),
                     Opt_maxredirs 20, Opt_private, Opt_useragent ''asio-quickjs-ng/0.1'',
                     Opt_accept_encoding [], Opt_timeout (fo_timeout_sec p)] @ method_opts p @
                    (if lines \<noteq> [] then [Opt_httpheader lines] else [])
         in (added, opts, t\<lparr>tf_req_headers := lines, tf_in_multi := added\<rparr>)))"

section \<open>Finishing\<close>

text \<open>The second component is what the completion closure is called with, if it is called.\<close>

definition finish :: "fetch_result \<Rightarrow> transfer \<Rightarrow> transfer \<times> fetch_result option" where
  "finish r t =
     (if tf_finished t then (t, None)
      else
        (let t1 = t\<lparr>tf_finished := True, tf_complete := False\<rparr>;
             t2 = (if tf_easy t \<and> tf_client t then t1\<lparr>tf_in_multi := False, tf_easy := False\<rparr> else t1)
         in (t2\<lparr>tf_req_headers := []\<rparr>, if tf_complete t then Some r else None)))"

definition abort :: "transfer \<Rightarrow> transfer \<times> fetch_result option" where
  "abort t =
     finish (default_fetch_result\<lparr>fr_ok := False, fr_aborted := True, fr_error := ''aborted'',
               fr_url := fo_url (tf_options t)\<rparr>) t"

text \<open>What \<open>curl_easy_getinfo\<close> answers, and \<open>curl_easy_strerror\<close> of the code.\<close>

record curl_info =
  ci_effective_url :: "string option"
  ci_response_code :: int
  ci_redirect_count :: int
  ci_strerror :: string

definition make_result :: "bool \<Rightarrow> curl_info \<Rightarrow> transfer \<Rightarrow> fetch_result \<times> transfer" where
  "make_result code_ok ci t =
     (let r = default_fetch_result\<lparr>
            fr_url := (case ci_effective_url ci of Some u \<Rightarrow> u | None \<Rightarrow> fo_url (tf_options t)),
            fr_status := ci_response_code ci, fr_redirected := (ci_redirect_count ci > 0),
            fr_status_text := tf_status_text t, fr_headers := tf_response_headers t\<rparr>;
          t1 = t\<lparr>tf_response_headers := []\<rparr>
      in if code_ok
         then (if fo_fail_on_redirect (tf_options t) \<and> fr_status r \<ge> 300 \<and> fr_status r < 400
               then (r\<lparr>fr_ok := False, fr_error := ''redirect not allowed'', fr_body := tf_body t\<rparr>,
                     t1\<lparr>tf_body := []\<rparr>)
               else (r\<lparr>fr_ok := True, fr_body := tf_body t\<rparr>, t1\<lparr>tf_body := []\<rparr>))
         else (r\<lparr>fr_ok := False,
                 fr_error := (if tf_errbuf t \<noteq> [] then tf_errbuf t else ci_strerror ci)\<rparr>, t1))"

section \<open>Headers\<close>

lemma strip_eol_append: "list_all is_eol e \<Longrightarrow> strip_eol (s @ e) = strip_eol s"
  by (simp add: strip_eol_def dropWhile_append list_all_iff)

lemma strip_eol_id: "s = [] \<or> \<not> is_eol (last s) \<Longrightarrow> strip_eol s = s"
  by (cases s rule: rev_cases) (auto simp: strip_eol_def)

definition good_header :: "header_pair \<Rightarrow> bool" where
  "good_header h \<longleftrightarrow>
     CHR '':'' \<notin> set (hp_name h) \<and> take 5 (hp_name h @ '':'') \<noteq> ''HTTP/'' \<and> hp_value h \<noteq> [] \<and>
     \<not> is_blank (hd (hp_value h)) \<and> \<not> is_eol (last (hp_value h))"

text \<open>
  Header lines survive the trip.  A header formatted as a transfer formats its request headers,
  followed by any line ending, is read back by the header callback as the same name and value,
  appended after those already there; nothing else of the transfer changes and the whole line is
  reported as consumed.
\<close>

theorem header_line_round_trip:
  assumes "good_header h" and "list_all is_eol e"
  shows "header_cb (request_line h @ e) t =
    (length (request_line h @ e), t\<lparr>tf_response_headers := tf_response_headers t @ [h]\<rparr>)"
proof -
  obtain n v where h: "h = \<lparr>hp_name = n, hp_value = v\<rparr>" by (cases h) auto
  have g: "CHR '':'' \<notin> set n" "take 5 (n @ '':'') \<noteq> ''HTTP/''" "v \<noteq> []" "\<not> is_blank (hd v)"
    "\<not> is_eol (last v)" using assms(1) by (simp_all add: good_header_def h)
  let ?line = "n @ CHR '':'' # CHR '' '' # v"
  have "strip_eol (?line @ e) = ?line"
    using strip_eol_append [OF assms(2), of ?line] strip_eol_id [of ?line] g(3,5) by simp
  moreover have "take 5 ?line \<noteq> ''HTTP/''"
  proof
    assume http: "take 5 ?line = ''HTTP/''"
    show False
    proof (cases "length n < 5")
      case True
      then have "CHR '':'' \<in> set (take 5 ?line)" by (cases "5 - length n") (auto simp: take_Cons')
      then have "CHR '':'' \<in> set ''HTTP/''" unfolding http .
      then show False by simp
    next
      case False
      then show False using http g(2) by simp
    qed
  qed
  moreover have "find_char (CHR '':'') ?line = Some (length n)"
    by (rule find_char_append_first [OF g(1)])
  moreover have "dropWhile is_blank (CHR '' '' # v) = v"
    using g(3,4) by (cases v) (auto simp: is_blank_def)
  ultimately show ?thesis
    by (simp add: header_cb_def request_line_def h Let_def)
qed

theorem header_line_round_trip_witness:
  "tf_response_headers (snd (header_cb (''Host: a'' @ [CHR 0x0D, CHR 0x0A])
     (new_transfer True default_options 1))) = [\<lparr>hp_name = ''Host'', hp_value = ''a''\<rparr>]"
proof -
  let ?h = "\<lparr>hp_name = ''Host'', hp_value = ''a''\<rparr>"
  have "good_header ?h" "list_all is_eol [CHR 0x0D, CHR 0x0A]"
    by (simp_all add: good_header_def is_blank_def is_eol_def)
  from header_line_round_trip [OF this, of "new_transfer True default_options 1"]
  show ?thesis by (simp add: request_line_def new_transfer_def)
qed

definition on_headers :: "string list \<Rightarrow> transfer \<Rightarrow> transfer" where
  "on_headers lines t = fold (\<lambda>l t. snd (header_cb l t)) lines t"

lemma header_cb_status:
  "take 5 (strip_eol l) = ''HTTP/'' \<Longrightarrow>
    snd (header_cb l t) = t\<lparr>tf_response_headers := [], tf_status_text := status_text_of (strip_eol l)\<rparr>"
  by (auto simp: header_cb_def Let_def)

lemma header_cb_adds:
  "take 5 (strip_eol l) \<noteq> ''HTTP/'' \<Longrightarrow>
    \<exists>hs. \<forall>t. snd (header_cb l t) = t\<lparr>tf_response_headers := tf_response_headers t @ hs\<rparr>"
proof (cases "strip_eol l = [] \<or> find_char (CHR '':'') (strip_eol l) = None")
  case True
  assume "take 5 (strip_eol l) \<noteq> ''HTTP/''"
  then show ?thesis using True by (intro exI [of _ "[]"]) (auto simp: header_cb_def Let_def)
qed (auto simp: header_cb_def Let_def)

lemma headers_from_reset:
  "list_all (\<lambda>l. take 5 (strip_eol l) \<noteq> ''HTTP/'') lines \<Longrightarrow>
    \<exists>hs. \<forall>t. on_headers lines t = t\<lparr>tf_response_headers := tf_response_headers t @ hs\<rparr>"
proof (induction lines)
  case Nil
  then show ?case by (auto simp: on_headers_def intro: exI [of _ "[]"])
next
  case (Cons l lines)
  obtain h1 where h1: "\<And>t. snd (header_cb l t) = t\<lparr>tf_response_headers := tf_response_headers t @ h1\<rparr>"
    using header_cb_adds [of l] Cons.prems by auto
  obtain h2 where h2: "\<And>t. on_headers lines t = t\<lparr>tf_response_headers := tf_response_headers t @ h2\<rparr>"
    using Cons by auto
  show ?case
    by (rule exI [of _ "h1 @ h2"]) (simp add: on_headers_def h1 h2 [unfolded on_headers_def])
qed

text \<open>
  After redirects only the last response counts.  Whatever header lines earlier responses of
  the same transfer brought, from the last status line on the collected headers and status text
  are those of a transfer that saw only the last response.
\<close>

theorem last_response_headers:
  assumes "take 5 (strip_eol status) = ''HTTP/''"
    and "list_all (\<lambda>l. take 5 (strip_eol l) \<noteq> ''HTTP/'') lines"
  shows "tf_response_headers (on_headers (earlier @ status # lines) t) =
      tf_response_headers (on_headers (status # lines) t) \<and>
    tf_status_text (on_headers (earlier @ status # lines) t) = status_text_of (strip_eol status)"
proof -
  obtain hs where hs: "\<And>t. on_headers lines t = t\<lparr>tf_response_headers := tf_response_headers t @ hs\<rparr>"
    using headers_from_reset [OF assms(2)] by blast
  show ?thesis
    by (simp add: on_headers_def header_cb_status [OF assms(1)] hs [unfolded on_headers_def])
qed

theorem last_response_headers_witness:
  "tf_response_headers (on_headers [''HTTP/1.1 302 Found'', ''Location: /b'', ''HTTP/1.1 200 OK'',
     ''A: 1''] (new_transfer True default_options 1)) = [\<lparr>hp_name = ''A'', hp_value = ''1''\<rparr>]"
proof -
  have s: "take 5 (strip_eol ''HTTP/1.1 200 OK'') = ''HTTP/''"
    and l: "list_all (\<lambda>l. take 5 (strip_eol l) \<noteq> ''HTTP/'') [''A: 1'']"
    by (simp_all add: strip_eol_def is_eol_def)
  from last_response_headers [OF s l, of "[''HTTP/1.1 302 Found'', ''Location: /b'']"
      "new_transfer True default_options 1"]
  show ?thesis
    by (simp add: on_headers_def header_cb_def strip_eol_def is_eol_def is_blank_def
        new_transfer_def Let_def)
qed

section \<open>Completion\<close>

text \<open>
  A transfer completes once.  The first \<open>finish\<close>, whether it comes from libcurl's message or from
  \<open>abort\<close>, hands its result to the completion and takes the easy handle out of the multi handle;
  every later \<open>finish\<close> or \<open>abort\<close> changes nothing and completes nothing.  An aborted transfer's
  result is marked \<open>aborted\<close> and not \<open>ok\<close>, with its own URL.
\<close>

theorem transfer_completes_once:
  assumes "\<not> tf_finished t" and "tf_complete t" and "tf_client t" and "tf_easy t"
    and "finish r t = (t1, out)"
  shows "out = Some r \<and> \<not> tf_in_multi t1 \<and> \<not> tf_easy t1 \<and>
    finish r' t1 = (t1, None) \<and> abort t1 = (t1, None) \<and>
    (case snd (abort t) of
       None \<Rightarrow> False
     | Some a \<Rightarrow> fr_aborted a \<and> \<not> fr_ok a \<and> fr_url a = fo_url (tf_options t))"
  using assms by (auto simp: finish_def abort_def Let_def default_fetch_result_def)

theorem transfer_completes_once_witness:
  "snd (finish default_fetch_result
     ((new_transfer True default_options 1)\<lparr>tf_client := True\<rparr>)) = Some default_fetch_result"
  using transfer_completes_once [of "(new_transfer True default_options 1)\<lparr>tf_client := True\<rparr>"
      default_fetch_result _ _ default_fetch_result, OF _ _ _ _ prod.collapse [symmetric]]
  by (simp add: new_transfer_def)

end
