(* ===== verification/FetchOptions.thy ===== *)
theory FetchOptions
  imports QjsBind CurlTransfer
begin

text \<open>
  The two ends of a native fetch (\<open>src/fetch.cpp\<close>): reading the options object JavaScript passes
  into a \<open>fetch_options\<close>, and building the result object from a \<open>fetch_result\<close>.
\<close>

section \<open>More of the engine\<close>

record ('v, 'h) js_obj = "('v, 'h) js_conv" +
  js_get_index :: "'v \<Rightarrow> nat \<Rightarrow> 'h \<Rightarrow> 'v \<times> 'h"
  js_new_object :: "'h \<Rightarrow> 'v \<times> 'h"
  js_new_array :: "'h \<Rightarrow> 'v \<times> 'h"
  js_set_index :: "'v \<Rightarrow> nat \<Rightarrow> 'v \<Rightarrow> 'h \<Rightarrow> 'h"

section \<open>Reading the options\<close>

definition is_missing :: "('v, 'h, 'x) js_scheme \<Rightarrow> 'v \<Rightarrow> bool" where
  "is_missing J v = (js_is_undefined J v \<or> js_is_null J v \<or> js_is_exception J v)"

definition js_prop_bytes :: "('v, 'h, 'x) js_scheme \<Rightarrow> 'v \<Rightarrow> string \<Rightarrow> 'h \<Rightarrow> bytes \<times> 'h" where
  "js_prop_bytes J obj name h =
     (case js_get_property J obj name h of (v, h1) \<Rightarrow>
        if is_missing J v then ([], h1)
        else (case (if js_is_array_buffer J v then js_get_array_buffer J v h1
                    else js_get_uint8_array J v h1) of
                (Some d, h2) \<Rightarrow> (d, h2)
              | (None, h2) \<Rightarrow>
                  (case js_to_cstring J v h2 of
                     (None, h3) \<Rightarrow> ([], h3)
                   | (Some s, h3) \<Rightarrow> (bytes_of_string (cstr s), h3))))"

definition js_prop_string :: "('v, 'h, 'x) js_scheme \<Rightarrow> 'v \<Rightarrow> string \<Rightarrow> 'h \<Rightarrow> string \<times> 'h" where
  "js_prop_string J obj name h =
     (case js_get_property J obj name h of (v, h1) \<Rightarrow>
        if is_missing J v then ([], h1)
        else (case js_to_cstring J v h1 of
                (None, h2) \<Rightarrow> ([], h2)
              | (Some s, h2) \<Rightarrow> (cstr s, h2)))"

text \<open>A boolean option: only a JS boolean changes the default.\<close>

definition js_prop_flag :: "('v, 'h, 'x) js_scheme \<Rightarrow> 'v \<Rightarrow> string \<Rightarrow> bool \<Rightarrow> 'h \<Rightarrow> bool \<times> 'h" where
  "js_prop_flag J obj name dflt h =
     (case js_get_property J obj name h of (v, h1) \<Rightarrow>
        if js_is_bool J v
        then (case js_to_bool J v h1 of (b, h2) \<Rightarrow> (b \<noteq> 0, h2))
        else (dflt, h1))"

definition parse_header :: "('v, 'h, 'x) js_obj_scheme \<Rightarrow> 'v \<Rightarrow> 'h \<Rightarrow> header_pair list \<times> 'h" where
  "parse_header J pair h =
     (if js_is_array J pair
      then (case js_get_index J pair 0 h of (n, h1) \<Rightarrow>
              (case js_get_index J pair 1 h1 of (v, h2) \<Rightarrow>
                 (case js_to_cstring J n h2 of (ns, h3) \<Rightarrow>
                    (case js_to_cstring J v h3 of (vs, h4) \<Rightarrow>
                       (case (ns, vs) of
                          (Some a, Some b) \<Rightarrow> ([\<lparr>hp_name = cstr a, hp_value = cstr b\<rparr>], h4)
                        | _ \<Rightarrow> ([], h4))))))
      else ([], h))"

fun parse_header_loop ::
  "('v, 'h, 'x) js_obj_scheme \<Rightarrow> 'v \<Rightarrow> nat list \<Rightarrow> 'h \<Rightarrow> header_pair list \<times> 'h" where
  "parse_header_loop J headers [] h = ([], h)"
| "parse_header_loop J headers (i # is) h =
     (case js_get_index J headers i h of (pair, h1) \<Rightarrow>
        (case parse_header J pair h1 of (hp, h2) \<Rightarrow>
           (case parse_header_loop J headers is h2 of (hps, h3) \<Rightarrow> (hp @ hps, h3))))"

definition parse_headers ::
  "('v, 'h, 'x) js_obj_scheme \<Rightarrow> 'v \<Rightarrow> 'h \<Rightarrow> header_pair list \<times> 'h" where
  "parse_headers J opts h =
     (case js_get_property J opts ''headers'' h of (headers, h1) \<Rightarrow>
        if js_is_array J headers
        then (case js_get_property J headers ''length'' h1 of (len_v, h2) \<Rightarrow>
                (case js_to_int32 J len_v h2 of (len, h3) \<Rightarrow>
                   parse_header_loop J headers
                     [0..<nat (case len of None \<Rightarrow> 0 | Some l \<Rightarrow> sint l)] h3))
        else ([], h1))"

text \<open>\<open>None\<close>: a \<open>ConvertError\<close> is thrown after the JS exception has been set.\<close>

definition parse_options ::
  "('v, 'h, 'x) js_obj_scheme \<Rightarrow> 'v \<Rightarrow> 'h \<Rightarrow> fetch_options option \<times> 'h" where
  "parse_options J opts h =
     (if \<not> js_is_object J opts
      then (None, js_throw_type_error J ''__nativeFetch expects an options object'' h)
      else (case js_prop_string J opts ''url'' h of (url, h1) \<Rightarrow>
        if url = [] then (None, js_throw_type_error J ''fetch url missing'' h1)
        else (case js_prop_string J opts ''method'' h1 of (m, h2) \<Rightarrow>
          (case js_prop_bytes J opts ''body'' h2 of (body, h3) \<Rightarrow>
          (case js_prop_flag J opts ''followRedirects'' True h3 of (follow, h4) \<Rightarrow>
          (case js_prop_flag J opts ''failOnRedirect'' False h4 of (fail, h5) \<Rightarrow>
          (case parse_headers J opts h5 of (hs, h6) \<Rightarrow>
             (Some (default_options\<lparr>fo_url := url, fo_method := (if m = [] then ''GET'' else m),
                      fo_body := body, fo_follow_redirects := follow,
                      fo_fail_on_redirect := fail, fo_headers := hs\<rparr>), h6))))))))"

section \<open>Building the result\<close>

definition header_array_step ::
  "('v, 'h, 'x) js_obj_scheme \<Rightarrow> 'v \<Rightarrow> nat \<times> header_pair \<Rightarrow> 'h \<Rightarrow> 'h" where
  "header_array_step J arr ih h =
     (case js_new_array J h of (pair, h1) \<Rightarrow>
        (case js_new_string J (cstr (hp_name (snd ih))) h1 of (n, h2) \<Rightarrow>
           (case js_new_string J (cstr (hp_value (snd ih))) (js_set_index J pair 0 n h2) of
              (v, h3) \<Rightarrow> js_set_index J arr (fst ih) pair (js_set_index J pair 1 v h3))))"

definition header_array ::
  "('v, 'h, 'x) js_obj_scheme \<Rightarrow> header_pair list \<Rightarrow> 'h \<Rightarrow> 'v \<times> 'h" where
  "header_array J hs h =
     (case js_new_array J h of (arr, h1) \<Rightarrow>
        (arr, fold (header_array_step J arr) (enumerate 0 hs) h1))"

definition set_str :: "('v, 'h, 'x) js_obj_scheme \<Rightarrow> 'v \<Rightarrow> string \<Rightarrow> string \<Rightarrow> 'h \<Rightarrow> 'h" where
  "set_str J v name s h =
     (case js_new_string_len J s h of (w, h1) \<Rightarrow> js_set_property J v name w h1)"

definition make_raw_result ::
  "('v, 'h, 'x) js_obj_scheme \<Rightarrow> fetch_result \<Rightarrow> 'h \<Rightarrow> 'v \<times> 'h" where
  "make_raw_result J r h =
     (case js_new_object J h of (v, h1) \<Rightarrow>
        (let h2 = js_set_property J v ''ok'' (js_new_bool J (fr_ok r)) h1;
             h3 = js_set_property J v ''status'' (js_new_int32 J (word_of_int (fr_status r))) h2;
             h4 = set_str J v ''statusText'' (fr_status_text r) h3;
             h5 = set_str J v ''url'' (fr_url r) h4;
             h6 = (case js_new_uint8_array J (fr_body r) h5 of
                     (b, h') \<Rightarrow> js_set_property J v ''body'' b h');
             h7 = js_set_property J v ''redirected'' (js_new_bool J (fr_redirected r)) h6;
             h8 = js_set_property J v ''aborted'' (js_new_bool J (fr_aborted r)) h7;
             h9 = (if fr_error r \<noteq> [] then set_str J v ''error'' (fr_error r) h8 else h8)
         in case header_array J (fr_headers r) h9 of
              (arr, h10) \<Rightarrow> (v, js_set_property J v ''headers'' arr h10)))"

section \<open>What a well-formed options object is read as\<close>

definition reads_string :: "('v, 'h, 'x) js_scheme \<Rightarrow> 'v \<Rightarrow> string \<Rightarrow> bool" where
  "reads_string J v s \<longleftrightarrow> \<not> is_missing J v \<and> (\<forall>h. js_to_cstring J v h = (Some s, h))"

definition has_prop :: "('v, 'h, 'x) js_scheme \<Rightarrow> 'v \<Rightarrow> string \<Rightarrow> 'v \<Rightarrow> bool" where
  "has_prop J obj name v \<longleftrightarrow> (\<forall>h. js_get_property J obj name h = (v, h))"

definition reads_flag :: "('v, 'h, 'x) js_scheme \<Rightarrow> 'v \<Rightarrow> bool \<Rightarrow> bool" where
  "reads_flag J v b \<longleftrightarrow> js_is_bool J v \<and> (\<forall>h. js_to_bool J v h = (if b then 1 else 0, h))"

definition reads_pair :: "('v, 'h, 'x) js_obj_scheme \<Rightarrow> 'v \<Rightarrow> header_pair \<Rightarrow> bool" where
  "reads_pair J v hp \<longleftrightarrow>
     js_is_array J v \<and>
     (\<exists>n w. (\<forall>h. js_get_index J v 0 h = (n, h)) \<and> (\<forall>h. js_get_index J v 1 h = (w, h)) \<and>
        reads_string J n (hp_name hp) \<and> reads_string J w (hp_value hp))"

definition reads_headers :: "('v, 'h, 'x) js_obj_scheme \<Rightarrow> 'v \<Rightarrow> header_pair list \<Rightarrow> bool" where
  "reads_headers J v hs \<longleftrightarrow>
     js_is_array J v \<and> length hs < 2 ^ 31 \<and>
     (\<exists>l. has_prop J v ''length'' l \<and>
        (\<forall>h. js_to_int32 J l h = (Some (word_of_nat (length hs)), h))) \<and>
     (\<forall>i < length hs. \<exists>p. (\<forall>h. js_get_index J v i h = (p, h)) \<and> reads_pair J p (hs ! i))"

definition header_text :: "header_pair \<Rightarrow> bool" where
  "header_text hp \<longleftrightarrow> nul \<notin> set (hp_name hp) \<and> nul \<notin> set (hp_value hp)"

text \<open>
  A request as \<open>js/fetch.js\<close> hands it over.  Its body is what \<open>extractBody\<close> of \<open>js/request.js\<close> makes of the one
  given: \<open>null\<close> for no body and for a stream; a \<open>Uint8Array\<close> for a buffer or a view; a JS string, here the bytes of its UTF-8,
  for a text, a Blob, a URLSearchParams and a FormData.
\<close>

datatype fetch_body = Fb_none | Fb_bytes bytes | Fb_string string

record fetch_request =
  rq_url :: string
  rq_method :: string
  rq_headers :: "header_pair list"
  rq_body :: fetch_body
  rq_follow :: bool
  rq_fail :: bool

definition body_sent :: "fetch_body \<Rightarrow> bytes" where
  "body_sent b = (case b of Fb_none \<Rightarrow> [] | Fb_bytes d \<Rightarrow> d | Fb_string s \<Rightarrow> bytes_of_string (cstr s))"

text \<open>
  How the engine shows a body.  Of a value that is no \<open>Uint8Array\<close>, \<open>JS_GetUint8Array\<close> gives NULL and leaves an
  exception behind; it may give NULL for an empty one too, and the text of that is empty.
\<close>

definition reads_body :: "('v, 'h, 'x) js_scheme \<Rightarrow> 'v \<Rightarrow> fetch_body \<Rightarrow> bool" where
  "reads_body J v body \<longleftrightarrow>
     (case body of
        Fb_none \<Rightarrow> js_is_undefined J v \<or> js_is_null J v
      | Fb_bytes d \<Rightarrow>
          \<not> is_missing J v \<and> \<not> js_is_array_buffer J v \<and>
          (\<forall>h. js_get_uint8_array J v h = (Some d, h) \<or>
             d = [] \<and> (\<exists>h1. js_get_uint8_array J v h = (None, h1) \<and> fst (js_to_cstring J v h1) = Some []))
      | Fb_string s \<Rightarrow>
          \<not> is_missing J v \<and> \<not> js_is_array_buffer J v \<and>
          (\<forall>h. fst (js_get_uint8_array J v h) = None \<and> fst (js_to_cstring J v h) = Some s))"

definition represents :: "('v, 'h, 'x) js_obj_scheme \<Rightarrow> 'v \<Rightarrow> fetch_request \<Rightarrow> bool" where
  "represents J obj p \<longleftrightarrow>
     js_is_object J obj \<and>
     (\<exists>u m b f r hs. has_prop J obj ''url'' u \<and> reads_string J u (rq_url p) \<and>
        has_prop J obj ''method'' m \<and> reads_string J m (rq_method p) \<and>
        has_prop J obj ''body'' b \<and> reads_body J b (rq_body p) \<and>
        has_prop J obj ''followRedirects'' f \<and> reads_flag J f (rq_follow p) \<and>
        has_prop J obj ''failOnRedirect'' r \<and> reads_flag J r (rq_fail p) \<and>
        has_prop J obj ''headers'' hs \<and> reads_headers J hs (rq_headers p))"

lemma prop_body_reads:
  assumes "has_prop J obj n v" and "reads_body J v body"
  shows "fst (js_prop_bytes J obj n h) = body_sent body"
proof (cases body)
  case Fb_none
  then show ?thesis using assms
    by (auto simp: js_prop_bytes_def has_prop_def reads_body_def is_missing_def body_sent_def)
next
  case (Fb_bytes d)
  then have v: "\<not> is_missing J v" "\<not> js_is_array_buffer J v"
    and u: "js_get_uint8_array J v h = (Some d, h) \<or>
      d = [] \<and> (\<exists>h1. js_get_uint8_array J v h = (None, h1) \<and> fst (js_to_cstring J v h1) = Some [])"
    using assms(2) by (simp_all add: reads_body_def)
  from u show ?thesis
  proof
    assume "js_get_uint8_array J v h = (Some d, h)"
    then show ?thesis using assms(1) v by (simp add: js_prop_bytes_def has_prop_def Fb_bytes body_sent_def)
  next
    assume "d = [] \<and> (\<exists>h1. js_get_uint8_array J v h = (None, h1) \<and> fst (js_to_cstring J v h1) = Some [])"
    then obtain h1 h2 where "d = []" "js_get_uint8_array J v h = (None, h1)" "js_to_cstring J v h1 = (Some [], h2)"
      by (metis prod.collapse)
    then show ?thesis using assms(1) v
      by (simp add: js_prop_bytes_def has_prop_def Fb_bytes body_sent_def cstr_def bytes_of_string_def)
  qed
next
  case (Fb_string s)
  then have v: "\<not> is_missing J v" "\<not> js_is_array_buffer J v"
    and u: "fst (js_get_uint8_array J v k) = None" "fst (js_to_cstring J v k) = Some s" for k
    using assms(2) by (simp_all add: reads_body_def)
  obtain h1 h2 where "js_get_uint8_array J v h = (None, h1)" "js_to_cstring J v h1 = (Some s, h2)"
    using u by (metis prod.collapse)
  then show ?thesis using assms(1) v by (simp add: js_prop_bytes_def has_prop_def Fb_string body_sent_def)
qed

lemma prop_string_reads:
  "has_prop J obj n v \<Longrightarrow> reads_string J v s \<Longrightarrow> js_prop_string J obj n h = (cstr s, h)"
  by (simp add: js_prop_string_def has_prop_def reads_string_def)

lemma prop_flag_reads:
  "has_prop J obj n v \<Longrightarrow> reads_flag J v b \<Longrightarrow> js_prop_flag J obj n d h = (b, h)"
  by (simp add: js_prop_flag_def has_prop_def reads_flag_def)

lemma parse_header_reads:
  assumes "reads_pair J v hp" and "header_text hp"
  shows "parse_header J v h = ([hp], h)"
proof -
  obtain n w where "\<forall>h. js_get_index J v 0 h = (n, h)" "\<forall>h. js_get_index J v 1 h = (w, h)"
    "reads_string J n (hp_name hp)" "reads_string J w (hp_value hp)" "js_is_array J v"
    using assms(1) unfolding reads_pair_def by blast
  then show ?thesis
    using assms(2) by (simp add: parse_header_def reads_string_def header_text_def cstr_no_nul)
qed

lemma header_loop_reads:
  assumes "\<And>i. i \<in> set is \<Longrightarrow> \<exists>p. (\<forall>h. js_get_index J v i h = (p, h)) \<and> reads_pair J p (hs ! i) \<and>
    header_text (hs ! i)"
  shows "parse_header_loop J v is h = (map ((!) hs) is, h)"
  using assms
proof (induction "is" arbitrary: h)
  case Nil
  then show ?case by simp
next
  case (Cons i "is")
  obtain p where "\<forall>h. js_get_index J v i h = (p, h)" "reads_pair J p (hs ! i)" "header_text (hs ! i)"
    using Cons.prems [of i] by auto
  moreover have "parse_header_loop J v is h = (map ((!) hs) is, h)" for h
    by (rule Cons.IH) (use Cons.prems in simp)
  ultimately show ?case by (simp add: parse_header_reads)
qed

lemma parse_headers_reads:
  assumes "has_prop J obj ''headers'' v" and "reads_headers J v hs"
    and "list_all header_text hs"
  shows "parse_headers J obj h = (hs, h)"
proof -
  obtain l where l: "has_prop J v ''length'' l"
    "\<forall>h. js_to_int32 J l h = (Some (word_of_nat (length hs)), h)"
    using assms(2) unfolding reads_headers_def by blast
  have n: "nat (sint (word_of_nat (length hs) :: 32 word)) = length hs"
  proof -
    have "int (length hs) < 2 ^ 31" using assms(2) by (simp add: reads_headers_def)
    then have "signed_take_bit 31 (int (length hs)) = int (length hs)"
      by (intro signed_take_bit_int_eq_self) simp_all
    then show ?thesis by (simp add: signed_of_nat)
  qed
  have "parse_header_loop J v [0..<length hs] h = (map ((!) hs) [0..<length hs], h)" for h
    by (rule header_loop_reads)
      (use assms(2,3) in \<open>auto simp: reads_headers_def list_all_length\<close>)
  then show ?thesis
    using assms(1,2) l n
    by (simp add: parse_headers_def has_prop_def reads_headers_def map_nth)
qed

text \<open>
  C30: what of a fetch reaches the native.  Whatever request \<open>fetch.js\<close> hands over (URL, method, both redirect flags and
  every header pair in order, with no NUL byte in the texts), \<open>parse_options\<close> yields it with the default timeout;
  no body is an empty one, a body of bytes is exact, but a body that is a string ends at its first NUL.  With
  an empty method it is a GET, and a fetch with no URL throws a TypeError.
\<close>

theorem fetch_options_round_trip:
  assumes "represents J obj p" and "list_all header_text (rq_headers p)"
    and "nul \<notin> set (rq_url p)" and "nul \<notin> set (rq_method p)"
  shows "\<exists>h1. parse_options J obj h =
    (if rq_url p = [] then (None, js_throw_type_error J ''fetch url missing'' h)
     else (Some \<lparr>fo_url = rq_url p, fo_method = (if rq_method p = [] then ''GET'' else rq_method p),
              fo_headers = rq_headers p, fo_body = body_sent (rq_body p), fo_follow_redirects = rq_follow p,
              fo_timeout_sec = 30, fo_fail_on_redirect = rq_fail p\<rparr>, h1))"
proof -
  obtain u m b f r hs where obj: "js_is_object J obj"
    and u: "has_prop J obj ''url'' u" "reads_string J u (rq_url p)"
    and m: "has_prop J obj ''method'' m" "reads_string J m (rq_method p)"
    and b: "has_prop J obj ''body'' b" "reads_body J b (rq_body p)"
    and f: "has_prop J obj ''followRedirects'' f" "reads_flag J f (rq_follow p)"
    and r: "has_prop J obj ''failOnRedirect'' r" "reads_flag J r (rq_fail p)"
    and hs: "has_prop J obj ''headers'' hs" "reads_headers J hs (rq_headers p)"
    using assms(1) unfolding represents_def by blast
  obtain h1 where body: "js_prop_bytes J obj ''body'' h = (body_sent (rq_body p), h1)"
    using prop_body_reads [OF b, of h] by (metis prod.collapse)
  show ?thesis
    using obj prop_string_reads [OF u] prop_string_reads [OF m] body prop_flag_reads [OF f]
      prop_flag_reads [OF r] parse_headers_reads [OF hs assms(2)] assms(3,4)
    by (auto simp: parse_options_def cstr_no_nul default_options_def)
qed

text \<open>An engine whose values are trees.\<close>

datatype tree_val =
    V_undef | V_bool bool | V_num "32 word" | V_str string | V_bytes bytes
  | V_arr "tree_val list" | V_obj "(string \<times> tree_val) list"

definition tree_prop :: "tree_val \<Rightarrow> string \<Rightarrow> tree_val" where
  "tree_prop v n =
     (case v of
        V_obj fs \<Rightarrow> (case map_of fs n of None \<Rightarrow> V_undef | Some w \<Rightarrow> w)
      | V_arr vs \<Rightarrow> if n = ''length'' then V_num (word_of_nat (length vs)) else V_undef
      | _ \<Rightarrow> V_undef)"

definition tree_index :: "tree_val \<Rightarrow> nat \<Rightarrow> tree_val" where
  "tree_index v i = (case v of V_arr vs \<Rightarrow> if i < length vs then vs ! i else V_undef | _ \<Rightarrow> V_undef)"

definition tree_js :: "(tree_val, unit) js_obj" where
  "tree_js =
     \<lparr>js_undefined = V_undef, js_global = V_undef,
      js_is_exception = (\<lambda>v. False), js_is_undefined = (\<lambda>v. v = V_undef),
      js_is_null = (\<lambda>v. False), js_is_string = (\<lambda>v. case v of V_str s \<Rightarrow> True | _ \<Rightarrow> False),
      js_is_object = (\<lambda>v. case v of V_obj fs \<Rightarrow> True | V_arr vs \<Rightarrow> True | _ \<Rightarrow> False),
      js_is_number = (\<lambda>v. case v of V_num i \<Rightarrow> True | _ \<Rightarrow> False),
      js_is_bool = (\<lambda>v. case v of V_bool b \<Rightarrow> True | _ \<Rightarrow> False), js_is_function = (\<lambda>v. False),
      js_is_array_buffer = (\<lambda>v. False), js_is_array = (\<lambda>v. case v of V_arr vs \<Rightarrow> True | _ \<Rightarrow> False),
      js_get_array_buffer = (\<lambda>v h. (None, h)),
      js_get_uint8_array = (\<lambda>v h. (case v of V_bytes b \<Rightarrow> Some b | _ \<Rightarrow> None, h)),
      js_to_cstring = (\<lambda>v h. (case v of V_str s \<Rightarrow> Some s | _ \<Rightarrow> None, h)),
      js_to_int32 = (\<lambda>v h. (case v of V_num i \<Rightarrow> Some i | _ \<Rightarrow> None, h)),
      js_to_int64 = (\<lambda>v h. (None, h)),
      js_to_bool = (\<lambda>v h. (case v of V_bool b \<Rightarrow> if b then 1 else 0 | _ \<Rightarrow> 0, h)),
      js_new_string = (\<lambda>s h. (V_str s, h)), js_new_uint8_array = (\<lambda>b h. (V_bytes b, h)),
      js_parse_json = (\<lambda>s h. (V_undef, h)), js_json_stringify = (\<lambda>v h. (V_undef, h)),
      js_get_property = (\<lambda>v n h. (tree_prop v n, h)), js_call = (\<lambda>f this args h. (V_undef, h)),
      js_get_exception = (\<lambda>h. (V_undef, h)), js_throw_type_error = (\<lambda>m h. h),
      js_promise_state = (\<lambda>v h. PS_not_a_promise), js_promise_result = (\<lambda>v h. (V_undef, h)),
      js_bridge_fn = (\<lambda>i m h. (V_undef, h)), js_job_pending = (\<lambda>h. False),
      js_execute_job = (\<lambda>h. (False, h)),
      js_exception = V_undef, js_to_float64 = (\<lambda>v h. (None, h)),
      js_new_bool = V_bool, js_new_int32 = V_num, js_new_int64 = (\<lambda>i. V_undef),
      js_new_bigint64 = (\<lambda>i h. (V_undef, h)), js_new_float64 = (\<lambda>d. V_undef),
      cpp_narrow = ucast, cpp_widen = ucast,
      js_new_string_len = (\<lambda>s h. (V_str s, h)), js_throw_internal_error = (\<lambda>m h. h),
      js_new_error = (\<lambda>h. (V_undef, h)), js_set_property = (\<lambda>v n w h. h),
      js_throw = (\<lambda>v h. h), js_promise_capability = (\<lambda>h. (None, h)),
      js_get_index = (\<lambda>v i h. (tree_index v i, h)), js_new_object = (\<lambda>h. (V_obj [], h)),
      js_new_array = (\<lambda>h. (V_arr [], h)), js_set_index = (\<lambda>v i w h. h)\<rparr>"

text \<open>A request whose body is a string with a NUL in it.\<close>

theorem fetch_options_round_trip_witness:
  "\<exists>p. fst (parse_options tree_js
      (V_obj [(''url'', V_str ''http://a/''), (''method'', V_str ''PUT''), (''body'', V_str [CHR ''x'', nul, CHR ''y'']),
         (''followRedirects'', V_bool False), (''failOnRedirect'', V_bool True),
         (''headers'', V_arr [V_arr [V_str ''A'', V_str ''1'']])]) ()) = Some p \<and>
     fo_headers p = [\<lparr>hp_name = ''A'', hp_value = ''1''\<rparr>] \<and> fo_body p = bytes_of_string ''x'' \<and>
     fo_method p = ''PUT'' \<and> \<not> fo_follow_redirects p"
proof -
  let ?p = "\<lparr>rq_url = ''http://a/'', rq_method = ''PUT'', rq_headers = [\<lparr>hp_name = ''A'', hp_value = ''1''\<rparr>],
    rq_body = Fb_string [CHR ''x'', nul, CHR ''y''], rq_follow = False, rq_fail = True\<rparr>"
  let ?o = "V_obj [(''url'', V_str ''http://a/''), (''method'', V_str ''PUT''), (''body'', V_str [CHR ''x'', nul, CHR ''y'']),
         (''followRedirects'', V_bool False), (''failOnRedirect'', V_bool True),
         (''headers'', V_arr [V_arr [V_str ''A'', V_str ''1'']])]"
  have "represents tree_js ?o ?p"
    by (simp add: represents_def has_prop_def reads_string_def reads_flag_def reads_headers_def reads_body_def
        reads_pair_def is_missing_def tree_js_def tree_prop_def tree_index_def)
  from fetch_options_round_trip [OF this, of "()"] have "\<exists>h1. parse_options tree_js ?o () =
      (Some \<lparr>fo_url = ''http://a/'', fo_method = ''PUT'', fo_headers = [\<lparr>hp_name = ''A'', hp_value = ''1''\<rparr>],
         fo_body = body_sent (Fb_string [CHR ''x'', nul, CHR ''y'']), fo_follow_redirects = False,
         fo_timeout_sec = 30, fo_fail_on_redirect = True\<rparr>, h1)"
    by (simp add: header_text_def nul_def)
  moreover have "body_sent (Fb_string [CHR ''x'', nul, CHR ''y'']) = bytes_of_string ''x''"
    by (simp add: body_sent_def cstr_def nul_def)
  ultimately show ?thesis by auto
qed

end
