(* ===== verification/Fetch.thy ===== *)
theory Fetch
  imports FetchOptions
begin

text \<open>
  The native half of \<open>fetch()\<close> (\<open>src/fetch.cpp\<close>): \<open>native_fetch_fn\<close> spawns a coroutine per fetch,
  \<open>async_fetch\<close> owns a heap-allocated \<open>Transfer\<close> that \<open>Host::fetch_transfers\<close> points to, and
  completion, failure and abort free it.  Transfers live at addresses; \<open>fx_heap a = None\<close> is memory
  that is not allocated, and touching it sets \<open>fx_bad\<close>.

  A coroutine waiting on its future is resumed by \<open>Promise::setValue\<close> through \<open>AsioExecutor::checkin\<close>, which
  dispatches.  Inside a handler of the event loop it is resumed at once, so \<open>resolve\<close> and the JavaScript it triggers run inside
  \<open>Transfer::finish\<close>, before the transfer is freed.  Outside of one (the script itself, and the microtasks that \<open>run_loop\<close> drains
  between two handlers) it is posted: the transfer is freed and the call returns first.  The argument \<open>inside\<close>
  of the operations tells the two apart.  The JavaScript of a resumption may start and abort fetches
  again: it is the argument \<open>k\<close> of the operations below, and \<open>js_act\<close> trees are what it can do.
\<close>

section \<open>State\<close>

text \<open>
  \<open>fx_queued\<close>: coroutines posted but not started; \<open>fx_waiting\<close>: coroutines suspended on their
  future; \<open>fx_posted\<close>: those whose resumption has been posted, with their result; \<open>fx_log\<close>: the calls of \<open>resolve\<close>, latest first; \<open>fx_issued\<close> counts the ids handed out.
\<close>

record fetch_sys =
  fx_next :: "64 word"
  fx_issued :: nat
  fx_map :: "64 word \<Rightarrow> nat option"
  fx_heap :: "nat \<Rightarrow> transfer option"
  fx_brk :: nat
  fx_pending :: int
  fx_queued :: "(64 word \<times> fetch_options) list"
  fx_waiting :: "64 word list"
  fx_posted :: "(64 word \<times> fetch_result) list"
  fx_log :: "(64 word \<times> fetch_result) list"
  fx_bad :: bool

definition fetch_init :: fetch_sys where
  "fetch_init =
     \<lparr>fx_next = 1, fx_issued = 0, fx_map = (\<lambda>_. None), fx_heap = (\<lambda>_. None), fx_brk = 0,
      fx_pending = 0, fx_queued = [], fx_waiting = [], fx_posted = [], fx_log = [], fx_bad = False\<rparr>"

section \<open>Operations\<close>

text \<open>\<open>p\<close> is what \<open>parse_options\<close> yields, \<open>cap\<close> whether a promise could be made.\<close>

definition native_fetch_fn ::
  "fetch_options option \<Rightarrow> bool \<Rightarrow> fetch_sys \<Rightarrow> 32 word option \<times> fetch_sys" where
  "native_fetch_fn p cap s =
     (case p of
        None \<Rightarrow> (None, s)
      | Some options \<Rightarrow>
          (let i = fx_next s; s1 = s\<lparr>fx_next := i + 1, fx_issued := Suc (fx_issued s)\<rparr>
           in if \<not> cap then (None, s1)
              else (Some (ucast i),
                    s1\<lparr>fx_pending := fx_pending s + 1, fx_queued := fx_queued s @ [(i, options)]\<rparr>)))"

text \<open>\<open>native_fetch_coro\<close> once its result is there.\<close>

definition fetch_resolve ::
  "64 word \<Rightarrow> fetch_result \<Rightarrow> (fetch_sys \<Rightarrow> fetch_sys) \<Rightarrow> fetch_sys \<Rightarrow> fetch_sys" where
  "fetch_resolve i r k s =
     (let s1 = s\<lparr>fx_map := (fx_map s)(i := None), fx_log := (i, r) # fx_log s\<rparr>;
          s2 = k s1
      in s2\<lparr>fx_pending := fx_pending s2 - 1\<rparr>)"

text \<open>A member function \<open>f\<close> of the transfer at \<open>a\<close> that may call the completion.\<close>

definition transfer_settle ::
  "bool \<Rightarrow> nat \<Rightarrow> (transfer \<Rightarrow> transfer \<times> fetch_result option) \<Rightarrow> (fetch_sys \<Rightarrow> fetch_sys)
     \<Rightarrow> fetch_sys \<Rightarrow> fetch_sys" where
  "transfer_settle inside a f k s =
     (case fx_heap s a of
        None \<Rightarrow> s\<lparr>fx_bad := True\<rparr>
      | Some t \<Rightarrow>
          (case f t of (t', out) \<Rightarrow>
             (let s1 = s\<lparr>fx_heap := (fx_heap s)(a := Some t')\<rparr>
              in case out of
                   None \<Rightarrow> s1
                 | Some r \<Rightarrow>
                     if tf_id t \<in> set (fx_waiting s)
                     then (let s2 = s1\<lparr>fx_waiting := removeAll (tf_id t) (fx_waiting s)\<rparr>
                           in if inside then fetch_resolve (tf_id t) r k s2
                              else s2\<lparr>fx_posted := fx_posted s2 @ [(tf_id t, r)]\<rparr>)
                     else s1)))"

definition transfer_delete :: "nat \<Rightarrow> fetch_sys \<Rightarrow> fetch_sys" where
  "transfer_delete a s =
     (if fx_heap s a = None then s\<lparr>fx_bad := True\<rparr>
      else s\<lparr>fx_heap := (fx_heap s)(a := None)\<rparr>)"

text \<open>
  How adding the transfer to libcurl goes: no client, refused (\<open>moved\<close> is what the moved-from
  result still holds), finished while it is being added, or under way.
\<close>

datatype start_out =
    So_no_client
  | So_refused bool fetch_result
  | So_done bool curl_info
  | So_running

definition unavailable :: "fetch_options \<Rightarrow> fetch_result" where
  "unavailable p =
     default_fetch_result\<lparr>fr_ok := False, fr_error := ''curl client not available'',
       fr_url := fo_url p\<rparr>"

text \<open>\<open>Transfer::make_result\<close> followed by \<open>finish\<close>, as \<open>on_multi_messages\<close> does for a message.\<close>

definition message_done :: "bool \<Rightarrow> curl_info \<Rightarrow> transfer \<Rightarrow> transfer \<times> fetch_result option" where
  "message_done code ci t =
     (if tf_finished t then (t, None)
      else (case make_result code ci t of (r, t') \<Rightarrow> finish r t'))"

definition async_fetch ::
  "64 word \<Rightarrow> fetch_options \<Rightarrow> start_out \<Rightarrow> (fetch_sys \<Rightarrow> fetch_sys) \<Rightarrow> fetch_sys \<Rightarrow> fetch_sys" where
  "async_fetch i p out k s =
     (case out of
        So_no_client \<Rightarrow> fetch_resolve i (unavailable p) k s
      | So_refused easy moved \<Rightarrow>
          (let a = fx_brk s;
               t = (new_transfer easy p i)\<lparr>tf_client := easy\<rparr>;
               s1 = s\<lparr>fx_brk := Suc a, fx_heap := (fx_heap s)(a := Some (snd (snd (start False t)))),
                      fx_map := (if i = 0 then fx_map s else (fx_map s)(i := Some a))\<rparr>;
               s2 = s1\<lparr>fx_map := (if i = 0 then fx_map s1 else (fx_map s1)(i := None))\<rparr>;
               s3 = transfer_settle True a (finish (unavailable p)) (\<lambda>u. u) s2
           in fetch_resolve i moved k (transfer_delete a s3))
      | So_done code ci \<Rightarrow>
          (let a = fx_brk s;
               t = (new_transfer True p i)\<lparr>tf_client := True\<rparr>;
               t1 = snd (snd (start True t));
               s1 = s\<lparr>fx_brk := Suc a, fx_heap := (fx_heap s)(a := Some t1),
                      fx_map := (if i = 0 then fx_map s else (fx_map s)(i := Some a))\<rparr>;
               s2 = transfer_delete a (transfer_settle True a (message_done code ci) (\<lambda>u. u) s1)
           in (case message_done code ci t1 of
                 (t', Some r) \<Rightarrow> fetch_resolve i r k s2
               | (t', None) \<Rightarrow> s2))
      | So_running \<Rightarrow>
          (let a = fx_brk s;
               t = (new_transfer True p i)\<lparr>tf_client := True\<rparr>
           in s\<lparr>fx_brk := Suc a, fx_heap := (fx_heap s)(a := Some (snd (snd (start True t)))),
                fx_map := (if i = 0 then fx_map s else (fx_map s)(i := Some a)),
                fx_waiting := i # fx_waiting s\<rparr>))"

definition native_fetch_abort ::
  "bool \<Rightarrow> 32 word \<Rightarrow> (fetch_sys \<Rightarrow> fetch_sys) \<Rightarrow> fetch_sys \<Rightarrow> fetch_sys" where
  "native_fetch_abort inside h k s =
     (case fx_map s (scast h) of
        None \<Rightarrow> s
      | Some a \<Rightarrow>
          transfer_delete a
            (transfer_settle inside a (\<lambda>t. if tf_finished t then (t, None) else abort t) k
               (s\<lparr>fx_map := (fx_map s)(scast h := None)\<rparr>)))"

text \<open>A message of libcurl for the transfer at \<open>a\<close>.\<close>

definition fetch_message ::
  "nat \<Rightarrow> bool \<Rightarrow> curl_info \<Rightarrow> (fetch_sys \<Rightarrow> fetch_sys) \<Rightarrow> fetch_sys \<Rightarrow> fetch_sys" where
  "fetch_message a code ci k s =
     transfer_delete a (transfer_settle True a (message_done code ci) k s)"

section \<open>The machine\<close>

text \<open>
  \<open>J_abort i acts\<close>: abort the fetch with handle \<open>i\<close>; \<open>acts\<close> is what the handlers of its promise do when it is
  resolved at once.  \<open>F_js\<close> is JavaScript run by a handler of the loop or outside of one; \<open>F_resume\<close> is the handler
  that resumes a posted coroutine.
\<close>

datatype js_act = J_fetch "fetch_options option" bool | J_abort "32 word" "js_act list"

fun do_act :: "bool \<Rightarrow> js_act \<Rightarrow> fetch_sys \<Rightarrow> fetch_sys"
  and do_acts :: "bool \<Rightarrow> js_act list \<Rightarrow> fetch_sys \<Rightarrow> fetch_sys" where
  "do_act inside (J_fetch p cap) s = snd (native_fetch_fn p cap s)"
| "do_act inside (J_abort i acts) s = native_fetch_abort inside i (do_acts inside acts) s"
| "do_acts inside [] s = s"
| "do_acts inside (x # xs) s = do_acts inside xs (do_act inside x s)"

datatype fetch_event =
    F_js bool "js_act list"
  | F_start start_out "js_act list"
  | F_resume "js_act list"
  | F_write nat bytes
  | F_header nat string
  | F_message nat bool curl_info "js_act list"

text \<open>libcurl reports on handles that are in the multi handle, and only on those.\<close>

definition in_multi :: "nat \<Rightarrow> fetch_sys \<Rightarrow> bool" where
  "in_multi a s = (case fx_heap s a of None \<Rightarrow> False | Some t \<Rightarrow> tf_in_multi t)"

fun fetch_step :: "fetch_event \<Rightarrow> fetch_sys \<Rightarrow> fetch_sys option" where
  "fetch_step (F_js inside acts) s = Some (do_acts inside acts s)"
| "fetch_step (F_start out acts) s =
     (case fx_queued s of
        [] \<Rightarrow> None
      | (i, p) # rest \<Rightarrow> Some (async_fetch i p out (do_acts True acts) (s\<lparr>fx_queued := rest\<rparr>)))"
| "fetch_step (F_resume acts) s =
     (case fx_posted s of
        [] \<Rightarrow> None
      | (i, r) # rest \<Rightarrow> Some (fetch_resolve i r (do_acts True acts) (s\<lparr>fx_posted := rest\<rparr>)))"
| "fetch_step (F_write a data) s =
     (if in_multi a s
      then Some (s\<lparr>fx_heap := (fx_heap s)(a := map_option (\<lambda>t. snd (write_cb data t)) (fx_heap s a))\<rparr>)
      else None)"
| "fetch_step (F_header a line) s =
     (if in_multi a s
      then Some (s\<lparr>fx_heap := (fx_heap s)(a := map_option (\<lambda>t. snd (header_cb line t)) (fx_heap s a))\<rparr>)
      else None)"
| "fetch_step (F_message a code ci acts) s =
     (if in_multi a s then Some (fetch_message a code ci (do_acts True acts) s) else None)"

section \<open>The invariant\<close>

definition fetch_ids :: "fetch_sys \<Rightarrow> 64 word list" where
  "fetch_ids s = map fst (fx_queued s) @ fx_waiting s @ map fst (fx_posted s) @ map fst (fx_log s)"

definition fetch_ids_ok :: "fetch_sys \<Rightarrow> bool" where
  "fetch_ids_ok s \<longleftrightarrow>
     unat (fx_next s) = Suc (fx_issued s) \<and> distinct (fetch_ids s) \<and>
     (\<forall>i \<in> set (fetch_ids s). i \<noteq> 0 \<and> unat i \<le> fx_issued s)"

text \<open>\<open>X\<close>: transfers that have finished and are about to be freed.\<close>

definition table_ok :: "nat set \<Rightarrow> fetch_sys \<Rightarrow> bool" where
  "table_ok X s \<longleftrightarrow>
     (\<forall>i a. fx_map s i = Some a \<longrightarrow> i \<in> set (fx_waiting s) \<and> a \<notin> X \<and>
        (\<exists>t. fx_heap s a = Some t \<and> tf_id t = i \<and> \<not> tf_finished t \<and> tf_complete t)) \<and>
     (\<forall>i \<in> set (fx_waiting s). fx_map s i \<noteq> None) \<and>
     (\<forall>a t. fx_heap s a = Some t \<longrightarrow> a < fx_brk s \<and> (a \<in> X \<or> fx_map s (tf_id t) = Some a)) \<and>
     (\<forall>a \<in> X. fx_heap s a \<noteq> None)"

text \<open>\<open>n\<close>: coroutines that are running.\<close>

definition fetch_ok :: "nat \<Rightarrow> nat set \<Rightarrow> fetch_sys \<Rightarrow> bool" where
  "fetch_ok n X s \<longleftrightarrow>
     fetch_ids_ok s \<and> table_ok X s \<and> \<not> fx_bad s \<and>
     fx_pending s = int (length (fx_queued s) + length (fx_waiting s) + length (fx_posted s) + n)"

definition id_limit :: nat where
  "id_limit = 2 ^ 64 - 1"

text \<open>What re-entrant JavaScript must respect.\<close>

definition keeps :: "(fetch_sys \<Rightarrow> fetch_sys) \<Rightarrow> bool" where
  "keeps k \<longleftrightarrow>
     (\<forall>s. fx_issued s \<le> fx_issued (k s)) \<and>
     (\<forall>n X s. fetch_ok n X s \<longrightarrow> fx_issued (k s) < id_limit \<longrightarrow> fetch_ok n X (k s))"

lemma table_okD:
  assumes "table_ok X s" and "fx_map s i = Some a" and "fx_heap s a = Some t"
  shows "i \<in> set (fx_waiting s)" "a \<notin> X" "tf_id t = i" "\<not> tf_finished t" "tf_complete t"
  using assms unfolding table_ok_def by (metis option.inject)+

lemma table_ok_heap: "table_ok X s \<Longrightarrow> fx_map s i = Some a \<Longrightarrow> \<exists>t. fx_heap s a = Some t"
  unfolding table_ok_def by blast

lemma table_ok_owner:
  "table_ok X s \<Longrightarrow> fx_heap s a = Some t \<Longrightarrow> a \<in> X \<or> fx_map s (tf_id t) = Some a"
  unfolding table_ok_def by blast

lemma keepsD:
  "keeps k \<Longrightarrow> fx_issued s \<le> fx_issued (k s)"
  "keeps k \<Longrightarrow> fetch_ok n X s \<Longrightarrow> fx_issued (k s) < id_limit \<Longrightarrow> fetch_ok n X (k s)"
  by (auto simp: keeps_def)

lemma keeps_id [simp]: "keeps (\<lambda>s. s)"
  by (simp add: keeps_def)

lemma keeps_comp: "keeps f \<Longrightarrow> keeps g \<Longrightarrow> keeps (\<lambda>s. g (f s))"
  unfolding keeps_def by (meson dual_order.trans le_less_trans)

lemma keeps_fetch: "keeps (\<lambda>s. snd (native_fetch_fn p cap s))"
proof -
  have "fetch_ok n X (snd (native_fetch_fn p cap s))"
    if ok: "fetch_ok n X s" and lim: "fx_issued (snd (native_fetch_fn p cap s)) < id_limit" for n X s
  proof (cases p)
    case None
    then show ?thesis using ok by (simp add: native_fetch_fn_def)
  next
    case (Some opts)
    have n: "unat (fx_next s) = Suc (fx_issued s)" using ok by (simp add: fetch_ok_def fetch_ids_ok_def)
    have "Suc (fx_issued s) < id_limit" using lim Some by (simp add: native_fetch_fn_def Let_def split: if_splits)
    then have "Suc (unat (fx_next s)) < 2 ^ 64" using n by (simp add: id_limit_def)
    then have "unat (fx_next s + 1) = Suc (Suc (fx_issued s))"
      using n unat_add_lem [of "fx_next s" 1] by simp
    moreover have "fx_next s \<noteq> 0" using n by auto
    moreover have "fx_next s \<notin> set (fetch_ids s)" using ok n by (force simp: fetch_ok_def fetch_ids_ok_def)
    moreover have "\<forall>i \<in> set (fetch_ids s). i \<noteq> 0 \<and> unat i \<le> Suc (fx_issued s)"
      using ok by (auto simp: fetch_ok_def fetch_ids_ok_def)
    ultimately have "fetch_ids_ok (snd (native_fetch_fn p cap s))"
      using ok Some n
      by (auto simp: native_fetch_fn_def Let_def fetch_ok_def fetch_ids_ok_def fetch_ids_def)
    then show ?thesis
      using ok Some by (auto simp: native_fetch_fn_def Let_def fetch_ok_def table_ok_def)
  qed
  moreover have "fx_issued s \<le> fx_issued (snd (native_fetch_fn p cap s))" for s
    by (auto simp: native_fetch_fn_def Let_def split: option.splits)
  ultimately show ?thesis unfolding keeps_def by blast
qed

lemma issued_resolve: "keeps k \<Longrightarrow> fx_issued s \<le> fx_issued (fetch_resolve i r k s)"
  using keepsD(1) [of k "s\<lparr>fx_map := (fx_map s)(i := None), fx_log := (i, r) # fx_log s\<rparr>"]
  by (simp add: fetch_resolve_def Let_def)

lemma issued_settle: "keeps k \<Longrightarrow> fx_issued s \<le> fx_issued (transfer_settle inside a f k s)"
  using issued_resolve [of k]
  by (auto simp: transfer_settle_def Let_def split: option.splits prod.splits
      intro: order_trans [OF _ issued_resolve])

lemma delete_simps [simp]:
  "fx_issued (transfer_delete a s) = fx_issued s" "fx_log (transfer_delete a s) = fx_log s"
  "fx_map (transfer_delete a s) = fx_map s" "fx_waiting (transfer_delete a s) = fx_waiting s"
  "fx_queued (transfer_delete a s) = fx_queued s" "fx_posted (transfer_delete a s) = fx_posted s"
  "fx_pending (transfer_delete a s) = fx_pending s" "fx_brk (transfer_delete a s) = fx_brk s"
  by (simp_all add: transfer_delete_def)

lemma ok_delete: "fetch_ok n (insert a X) s \<Longrightarrow> a \<notin> X \<Longrightarrow> fetch_ok n X (transfer_delete a s)"
  by (auto simp: transfer_delete_def fetch_ok_def fetch_ids_ok_def fetch_ids_def table_ok_def)

lemma ok_resolve:
  assumes "fetch_ok (Suc n) X (s\<lparr>fx_map := (fx_map s)(i := None)\<rparr>)" and "keeps k"
    and "i \<notin> set (fetch_ids s)" and "i \<noteq> 0" and "unat i \<le> fx_issued s"
    and "fx_issued (fetch_resolve i r k s) < id_limit"
  shows "fetch_ok n X (fetch_resolve i r k s)"
proof -
  let ?s = "s\<lparr>fx_map := (fx_map s)(i := None), fx_log := (i, r) # fx_log s\<rparr>"
  have "fetch_ok (Suc n) X ?s"
    using assms(1,3,4,5) by (simp add: fetch_ok_def fetch_ids_ok_def fetch_ids_def table_ok_def)
  then have "fetch_ok (Suc n) X (k ?s)"
    using keepsD(2) [OF assms(2)] assms(6) by (simp add: fetch_resolve_def Let_def)
  then show ?thesis
    by (simp add: fetch_resolve_def Let_def fetch_ok_def fetch_ids_ok_def fetch_ids_def table_ok_def)
qed

lemma ok_post:
  assumes "fetch_ok (Suc n) X s" and "i \<notin> set (fetch_ids s)" and "i \<noteq> 0" and "unat i \<le> fx_issued s"
  shows "fetch_ok n X (s\<lparr>fx_posted := fx_posted s @ [(i, r)]\<rparr>)"
  using assms by (auto simp: fetch_ok_def fetch_ids_ok_def fetch_ids_def table_ok_def)

text \<open>Finishing the transfer of a waiting fetch, and freeing it.\<close>

definition completes :: "(transfer \<Rightarrow> transfer \<times> fetch_result option) \<Rightarrow> transfer \<Rightarrow> bool" where
  "completes f t \<longleftrightarrow> tf_id (fst (f t)) = tf_id t \<and> snd (f t) \<noteq> None"

lemma ok_settle:
  assumes ok: "fetch_ok n X s" and m: "fx_map s i = Some a" and h: "fx_heap s a = Some t"
    and f: "completes f t" and k: "keeps k"
    and s0: "inside \<and> s0 = s \<or> s0 = s\<lparr>fx_map := (fx_map s)(i := None)\<rparr>"
    and lim: "fx_issued (transfer_settle inside a f k s0) < id_limit"
  shows "fetch_ok n X (transfer_delete a (transfer_settle inside a f k s0))"
proof (rule ok_delete)
  have "table_ok X s" using ok by (simp add: fetch_ok_def)
  note tab = table_okD(1-3) [OF this m h]
  then show "a \<notin> X" by simp
  obtain t' r where ft: "f t = (t', Some r)" and t': "tf_id t' = i"
    using f tab by (cases "f t") (auto simp: completes_def)
  let ?s = "s0\<lparr>fx_heap := (fx_heap s0)(a := Some t'), fx_waiting := removeAll i (fx_waiting s0)\<rparr>"
  have fr: "fx_heap s0 = fx_heap s" "fx_waiting s0 = fx_waiting s" "fx_queued s0 = fx_queued s"
    "fx_log s0 = fx_log s" "fx_issued s0 = fx_issued s" "fx_posted s0 = fx_posted s"
    using s0 by auto
  have eq: "transfer_settle inside a f k s0 =
      (if inside then fetch_resolve i r k ?s else ?s\<lparr>fx_posted := fx_posted s @ [(i, r)]\<rparr>)"
    using h ft tab fr by (simp add: transfer_settle_def)
  have dis: "distinct (fetch_ids s)" and ids: "i \<noteq> 0" "unat i \<le> fx_issued s"
    using ok tab by (auto simp: fetch_ok_def fetch_ids_ok_def fetch_ids_def)
  have "length (fx_waiting s) > 0" using tab(1) by (rule length_pos_if_in_set)
  then have len: "length (fx_waiting s) = Suc (length (removeAll i (fx_waiting s)))"
    using tab(1) dis by (simp add: fetch_ids_def distinct_remove1_removeAll [symmetric] length_remove1)
  have others: "fx_map s j \<noteq> Some a" if "j \<noteq> i" for j
    using table_okD(3) [OF _ _ h, of X j] tab that ok by (auto simp: fetch_ok_def)
  have mine: "b \<in> X" if "fx_heap s b = Some u" "b \<noteq> a" "tf_id u = i" for b u
    using table_ok_owner [OF _ that(1), of X] ok m that(2,3) by (auto simp: fetch_ok_def)
  have "table_ok (insert a X) (?s\<lparr>fx_map := (fx_map s)(i := None)\<rparr>)"
    using ok m h tab t' others mine fr s0 unfolding fetch_ok_def table_ok_def
    by (auto simp: fr)
  moreover have "fetch_ids_ok (?s\<lparr>fx_map := (fx_map s)(i := None)\<rparr>)"
    using ok s0 by (auto simp: fetch_ok_def fetch_ids_ok_def fetch_ids_def fr distinct_removeAll)
  moreover have "?s\<lparr>fx_map := (fx_map ?s)(i := None)\<rparr> = ?s\<lparr>fx_map := (fx_map s)(i := None)\<rparr>"
    using s0 by auto
  ultimately have run: "fetch_ok (Suc n) (insert a X) (?s\<lparr>fx_map := (fx_map ?s)(i := None)\<rparr>)"
    using ok len s0 by (auto simp: fetch_ok_def fr)
  have new: "i \<notin> set (fetch_ids ?s)"
    using dis tab(1) by (auto simp: fetch_ids_def fr)
  show "fetch_ok n (insert a X) (transfer_settle inside a f k s0)"
  proof (cases inside)
    case True
    then show ?thesis
      using ok_resolve [OF run k new ids(1)] lim ids(2) unfolding eq by (simp add: fr)
  next
    case False
    then have "s0 = s\<lparr>fx_map := (fx_map s)(i := None)\<rparr>" using s0 by blast
    then have "?s\<lparr>fx_map := (fx_map ?s)(i := None)\<rparr> = ?s" by simp
    then have "fetch_ok n (insert a X) (?s\<lparr>fx_posted := fx_posted ?s @ [(i, r)]\<rparr>)"
      using ok_post [OF _ new ids(1)] run ids(2) by (simp add: fr)
    then show ?thesis using False unfolding eq by (simp add: fr)
  qed
qed

lemma completes_abort:
  "tf_complete t \<Longrightarrow> \<not> tf_finished t \<Longrightarrow> completes (\<lambda>t. if tf_finished t then (t, None) else abort t) t"
  by (simp add: completes_def abort_def finish_def Let_def)

lemma completes_message: "tf_complete t \<Longrightarrow> \<not> tf_finished t \<Longrightarrow> completes (message_done code ci) t"
  by (auto simp: completes_def message_done_def finish_def make_result_def Let_def)

lemma keeps_abort:
  assumes k: "keeps k"
  shows "keeps (native_fetch_abort inside h k)"
proof -
  have "fx_issued s \<le> fx_issued (native_fetch_abort inside h k s)" for s
    using issued_settle [OF k]
    by (auto simp: native_fetch_abort_def split: option.splits intro: order_trans [OF _ issued_settle [OF k]])
  moreover have "fetch_ok n X (native_fetch_abort inside h k s)"
    if ok: "fetch_ok n X s" and lim: "fx_issued (native_fetch_abort inside h k s) < id_limit" for n X s
  proof (cases "fx_map s (scast h)")
    case None
    then show ?thesis using ok by (simp add: native_fetch_abort_def)
  next
    case (Some a)
    have tb: "table_ok X s" using ok by (simp add: fetch_ok_def)
    then obtain t where t: "fx_heap s a = Some t" using table_ok_heap Some by blast
    show ?thesis
      using ok_settle [OF ok Some t completes_abort k] table_okD(4,5) [OF tb Some t] lim
      by (simp add: native_fetch_abort_def Some)
  qed
  ultimately show ?thesis unfolding keeps_def by blast
qed

lemma keeps_list: "(\<And>x. x \<in> set xs \<Longrightarrow> keeps (do_act inside x)) \<Longrightarrow> keeps (do_acts inside xs)"
proof (induction xs)
  case Nil
  then show ?case by simp
next
  case (Cons x xs)
  then show ?case using keeps_comp [of "do_act inside x" "do_acts inside xs"] by simp
qed

lemma keeps_act: "keeps (do_act inside x)"
proof (induction x)
  case (J_fetch p cap)
  then show ?case using keeps_fetch by simp
next
  case (J_abort h acts)
  then show ?case using keeps_abort keeps_list by simp
qed

lemma keeps_acts: "keeps (do_acts inside xs)"
  by (rule keeps_list) (rule keeps_act)

section \<open>Starting a fetch\<close>

lemma start_simps [simp]:
  "tf_id (snd (snd (start b t))) = tf_id t" "tf_finished (snd (snd (start b t))) = tf_finished t"
  "tf_complete (snd (snd (start b t))) = tf_complete t"
  by (simp_all add: start_def Let_def)

lemma new_transfer_simps [simp]:
  "tf_id (new_transfer e p i) = i" "\<not> tf_finished (new_transfer e p i)"
  "tf_complete (new_transfer e p i)"
  by (simp_all add: new_transfer_def)

text \<open>A transfer that is made and freed again before its coroutine waits leaves nothing behind.\<close>

lemma settle_not_waiting:
  assumes "fx_heap s a = Some t" and "tf_id t \<notin> set (fx_waiting s)"
  shows "transfer_delete a (transfer_settle inside a f k s) = s\<lparr>fx_heap := (fx_heap s)(a := None)\<rparr>"
  using assms by (auto simp: transfer_settle_def transfer_delete_def Let_def split: prod.splits option.splits)

lemma ok_brk:
  assumes "fetch_ok n X s"
  shows "fetch_ok n X (s\<lparr>fx_brk := Suc (fx_brk s), fx_heap := (fx_heap s)(fx_brk s := None)\<rparr>)"
    "fx_heap s (fx_brk s) = None"
proof -
  have "fx_heap s (fx_brk s) \<noteq> Some t" for t
    using assms by (fastforce simp: fetch_ok_def table_ok_def)
  then show h: "fx_heap s (fx_brk s) = None" by (cases "fx_heap s (fx_brk s)") auto
  then have "(fx_heap s)(fx_brk s := None) = fx_heap s" by auto
  then show "fetch_ok n X (s\<lparr>fx_brk := Suc (fx_brk s), fx_heap := (fx_heap s)(fx_brk s := None)\<rparr>)"
    using assms by (auto simp: fetch_ok_def fetch_ids_ok_def fetch_ids_def table_ok_def less_SucI)
qed

lemma issued_async_fetch: "keeps k \<Longrightarrow> fx_issued s \<le> fx_issued (async_fetch i p out k s)"
  by (auto simp: async_fetch_def Let_def split: start_out.splits prod.splits option.splits
      intro!: order_trans [OF _ issued_resolve] order_trans [OF _ issued_settle])

lemma ok_async_fetch:
  assumes ok: "fetch_ok (Suc n) X s" and k: "keeps k" and i: "i \<notin> set (fetch_ids s)" "i \<noteq> 0"
    "unat i \<le> fx_issued s" and lim: "fx_issued (async_fetch i p out k s) < id_limit"
  shows "fetch_ok n X (async_fetch i p out k s)"
proof -
  have iw: "i \<notin> set (fx_waiting s)" using i by (simp add: fetch_ids_def)
  have m: "fx_map s i = None"
    using ok iw by (cases "fx_map s i") (auto simp: fetch_ok_def table_ok_def)
  then have mm: "(fx_map s)(i := None) = fx_map s" by auto
  let ?s = "s\<lparr>fx_brk := Suc (fx_brk s), fx_heap := (fx_heap s)(fx_brk s := None)\<rparr>"
  let ?u = "\<lambda>b. s\<lparr>fx_brk := Suc (fx_brk s), fx_map := (fx_map s)(i := Some b),
    fx_heap := (fx_heap s)(fx_brk s := None)\<rparr>"
  have res: "fetch_ok n X (fetch_resolve i r k u)"
    if "u = s \<or> u = ?s \<or> u = ?u b"
      "fx_issued (fetch_resolve i r k u) < id_limit" for u r b
  proof (rule ok_resolve [OF _ k _ i(2) _ that(2)])
    have "s\<lparr>fx_map := fx_map s\<rparr> = s" "?s\<lparr>fx_map := fx_map s\<rparr> = ?s"
      "?u b\<lparr>fx_map := fx_map s\<rparr> = ?s" by simp_all
    then show "fetch_ok (Suc n) X (u\<lparr>fx_map := (fx_map u)(i := None)\<rparr>)"
      using that(1) ok ok_brk(1) [OF ok] by (auto simp: mm)
  qed (use that(1) i in \<open>auto simp: fetch_ids_def\<close>)
  show ?thesis
  proof (cases out)
    case So_no_client
    then show ?thesis using res [of s] lim by (simp add: async_fetch_def)
  next
    case (So_refused easy moved)
    have "async_fetch i p out k s = fetch_resolve i moved k ?s"
      using So_refused i(2) iw mm by (simp add: async_fetch_def Let_def settle_not_waiting)
    then show ?thesis using res [of ?s] lim by simp
  next
    case (So_done code ci)
    let ?t = "snd (snd (start True ((new_transfer True p i)\<lparr>tf_client := True\<rparr>)))"
    obtain t' r where r: "message_done code ci ?t = (t', Some r)"
      using completes_message [of ?t code ci]
      by (cases "message_done code ci ?t") (auto simp: completes_def)
    have "async_fetch i p out k s =
        fetch_resolve i r k (?u (fx_brk s))"
      using So_done i(2) iw r by (simp add: async_fetch_def Let_def settle_not_waiting)
    then show ?thesis using res [of "?u (fx_brk s)" "fx_brk s"] lim by simp
  next
    case So_running
    have free: "fx_heap s (fx_brk s) = None" by (rule ok_brk(2) [OF ok])
    then have nm: "fx_map s j \<noteq> Some (fx_brk s)" for j
      using ok table_ok_heap [of X s j] by (auto simp: fetch_ok_def)
    have nx: "fx_brk s \<notin> X" using ok free by (auto simp: fetch_ok_def table_ok_def)
    have mine: "b \<in> X" if "fx_heap s b = Some u" "tf_id u = i" for b u
      using table_ok_owner [OF _ that(1), of X] ok m that(2) by (auto simp: fetch_ok_def)
    have "table_ok X (async_fetch i p out k s)"
      using So_running ok i iw m nm nx mine
      by (auto simp: async_fetch_def Let_def fetch_ok_def table_ok_def less_SucI)
    then show ?thesis
      using So_running ok i iw
      by (auto simp: async_fetch_def Let_def fetch_ok_def fetch_ids_ok_def fetch_ids_def)
  qed
qed

section \<open>Every step\<close>

lemma issued_message: "keeps k \<Longrightarrow> fx_issued s \<le> fx_issued (fetch_message a code ci k s)"
  using issued_settle [of k s] by (simp add: fetch_message_def)

lemma ok_message:
  assumes ok: "fetch_ok n {} s" and m: "in_multi a s" and k: "keeps k"
    and lim: "fx_issued (fetch_message a code ci k s) < id_limit"
  shows "fetch_ok n {} (fetch_message a code ci k s)"
proof -
  obtain t where t: "fx_heap s a = Some t" using m by (auto simp: in_multi_def split: option.splits)
  have tb: "table_ok {} s" using ok by (simp add: fetch_ok_def)
  have mp: "fx_map s (tf_id t) = Some a" using tb t by (auto simp: table_ok_def)
  show ?thesis
    using ok_settle [OF ok mp t completes_message k, of True s] table_okD(4,5) [OF tb mp t] lim
    by (simp add: fetch_message_def)
qed

lemma ok_callback:
  assumes "fetch_ok n X s" and "\<And>t. tf_id (f t) = tf_id t" "\<And>t. tf_finished (f t) = tf_finished t"
    and "\<And>t. tf_complete (f t) = tf_complete t"
  shows "fetch_ok n X (s\<lparr>fx_heap := (fx_heap s)(a := map_option f (fx_heap s a))\<rparr>)" (is "fetch_ok n X ?t")
proof (cases "fx_heap s a")
  case None
  then have "?t = s" by (simp add: fun_upd_idem)
  then show ?thesis using assms(1) by simp
next
  case (Some t)
  have tb: "table_ok X s" using assms(1) by (simp add: fetch_ok_def)
  have "table_ok X ?t"
    using tb Some table_ok_owner [OF tb Some] table_okD(3-5) [OF tb _ Some] assms(2-4)
    unfolding table_ok_def by auto
  then show ?thesis using assms(1) by (simp add: fetch_ok_def fetch_ids_ok_def fetch_ids_def)
qed

lemma callback_frame:
  "tf_id (snd (write_cb d t)) = tf_id t" "tf_finished (snd (write_cb d t)) = tf_finished t"
  "tf_complete (snd (write_cb d t)) = tf_complete t"
  "tf_id (snd (header_cb l t)) = tf_id t" "tf_finished (snd (header_cb l t)) = tf_finished t"
  "tf_complete (snd (header_cb l t)) = tf_complete t"
  by (auto simp: write_cb_def header_cb_def Let_def split: option.splits)

definition fetch_inv :: "fetch_sys \<Rightarrow> bool" where
  "fetch_inv s \<longleftrightarrow> (if fx_issued s < id_limit then fetch_ok 0 {} s else True)"

lemma fetch_inv_step:
  assumes inv: "fetch_inv s" and st: "fetch_step e s = Some u"
  shows "fetch_inv u"
proof -
  have "fetch_ok 0 {} u" if lim: "fx_issued u < id_limit"
  proof (cases e)
    case (F_js inside acts)
    then have u: "u = do_acts inside acts s" using st by simp
    then have "fetch_ok 0 {} s" using inv lim keepsD(1) [OF keeps_acts [of inside acts], of s] by (simp add: fetch_inv_def)
    then show ?thesis using keepsD(2) [OF keeps_acts] lim u by simp
  next
    case (F_start out acts)
    then obtain i p rest where q: "fx_queued s = (i, p) # rest"
      and u: "u = async_fetch i p out (do_acts True acts) (s\<lparr>fx_queued := rest\<rparr>)"
      using st by (auto split: list.splits)
    have "fx_issued s \<le> fx_issued u"
      using issued_async_fetch [OF keeps_acts, of "s\<lparr>fx_queued := rest\<rparr>"] u by simp
    then have ok: "fetch_ok 0 {} s" using inv lim by (simp add: fetch_inv_def)
    then have "fetch_ok 1 {} (s\<lparr>fx_queued := rest\<rparr>)"
      using q by (auto simp: fetch_ok_def fetch_ids_ok_def fetch_ids_def table_ok_def)
    then show ?thesis
      using ok q ok_async_fetch [of 0 "{}" "s\<lparr>fx_queued := rest\<rparr>" "do_acts True acts" i] keeps_acts lim u
      by (auto simp: fetch_ok_def fetch_ids_ok_def fetch_ids_def)
  next
    case (F_resume acts)
    then obtain i r rest where q: "fx_posted s = (i, r) # rest"
      and u: "u = fetch_resolve i r (do_acts True acts) (s\<lparr>fx_posted := rest\<rparr>)"
      using st by (auto split: list.splits)
    let ?s = "s\<lparr>fx_posted := rest\<rparr>"
    have "fx_issued ?s \<le> fx_issued u" unfolding u by (rule issued_resolve [OF keeps_acts])
    then have ok: "fetch_ok 0 {} s" using inv lim by (simp add: fetch_inv_def)
    have i: "i \<notin> set (fx_waiting s)" "i \<notin> set (fetch_ids ?s)" "i \<noteq> 0" "unat i \<le> fx_issued ?s"
      using ok q by (auto simp: fetch_ok_def fetch_ids_ok_def fetch_ids_def)
    then have "fx_map s i = None" using ok by (cases "fx_map s i") (auto simp: fetch_ok_def table_ok_def)
    then have "?s\<lparr>fx_map := (fx_map ?s)(i := None)\<rparr> = ?s" by (simp add: fun_upd_idem)
    moreover have "fetch_ok 1 {} ?s" using ok q by (auto simp: fetch_ok_def fetch_ids_ok_def fetch_ids_def table_ok_def)
    ultimately show ?thesis unfolding u using ok_resolve [OF _ keeps_acts i(2,3,4)] lim u by simp
  next
    case (F_write a data)
    then have u: "u = s\<lparr>fx_heap := (fx_heap s)(a := map_option (\<lambda>t. snd (write_cb data t)) (fx_heap s a))\<rparr>"
      using st by (simp split: if_splits)
    then have "fetch_ok 0 {} s" using inv lim by (simp add: fetch_inv_def)
    then show ?thesis unfolding u by (rule ok_callback) (rule callback_frame)+
  next
    case (F_header a line)
    then have u: "u = s\<lparr>fx_heap := (fx_heap s)(a := map_option (\<lambda>t. snd (header_cb line t)) (fx_heap s a))\<rparr>"
      using st by (simp split: if_splits)
    then have "fetch_ok 0 {} s" using inv lim by (simp add: fetch_inv_def)
    then show ?thesis unfolding u by (rule ok_callback) (rule callback_frame)+
  next
    case (F_message a code ci acts)
    then have u: "u = fetch_message a code ci (do_acts True acts) s" and m: "in_multi a s"
      using st by (simp_all split: if_splits)
    have "fetch_ok 0 {} s"
      using inv lim issued_message [OF keeps_acts [of True acts], of s a code ci] u
      by (simp add: fetch_inv_def split: if_splits)
    then show ?thesis using ok_message [OF _ m keeps_acts] lim u by simp
  qed
  then show ?thesis by (simp add: fetch_inv_def)
qed

interpretation fetches: machine fetch_step fetch_init fetch_inv
proof unfold_locales
  show "fetch_inv fetch_init"
    by (simp add: fetch_inv_def fetch_ok_def fetch_ids_ok_def table_ok_def fetch_ids_def fetch_init_def)
qed (rule fetch_inv_step)

text \<open>
  C2: every fetch settles once and its transfer is freed once.  Whatever fetches and aborts
  JavaScript issues, inside a handler of the loop or outside, also from inside the handlers of a promise that is being settled, and however
  libcurl reports: no freed transfer is touched or freed again, no fetch is resolved twice, the
  transfers in memory are exactly those of the running fetches, and \<open>pending_ops\<close> counts the
  fetches that have not been resolved (posted, running, or about to be resumed), so the loop may end exactly when there is none.
\<close>

theorem fetch_settles_once:
  assumes "reachable fetch_step fetch_init s" and "fx_issued s < id_limit"
  shows "\<not> fx_bad s \<and> distinct (map fst (fx_log s)) \<and>
    (fx_heap s a \<noteq> None) = (a \<in> ran (fx_map s)) \<and>
    (fx_map s i \<noteq> None) = (i \<in> set (fx_waiting s)) \<and>
    set (map fst (fx_log s)) \<inter> (fst ` set (fx_queued s) \<union> set (fx_waiting s) \<union> fst ` set (fx_posted s)) = {} \<and>
    fx_pending s = int (length (fx_queued s) + length (fx_waiting s) + length (fx_posted s))"
proof -
  have ok: "fetch_ok 0 {} s" using fetches.reachable_inv [OF assms(1)] assms(2) by (simp add: fetch_inv_def)
  then have tb: "table_ok {} s" by (simp add: fetch_ok_def)
  have "(fx_heap s a \<noteq> None) = (a \<in> ran (fx_map s))"
    using table_ok_heap [OF tb] table_ok_owner [OF tb] by (fastforce simp: ran_def)
  moreover have "(fx_map s i \<noteq> None) = (i \<in> set (fx_waiting s))"
    using tb unfolding table_ok_def by blast
  ultimately show ?thesis using ok by (auto simp: fetch_ok_def fetch_ids_ok_def fetch_ids_def)
qed

theorem fetch_settles_once_witness:
  "\<exists>s. reachable fetch_step fetch_init s \<and> fx_pending s = 1 \<and> fx_heap s 0 = None \<and>
     map fst (fx_log s) = [2, 1] \<and> map fst (fx_posted s) = [3] \<and> \<not> fx_bad s"
proof -
  let ?p = "default_options\<lparr>fo_url := ''u''\<rparr>"
  let ?ci = "\<lparr>ci_effective_url = None, ci_response_code = 200, ci_redirect_count = 0, ci_strerror = []\<rparr>"
  let ?es = "[F_js False [J_fetch (Some ?p) True, J_fetch (Some ?p) True, J_fetch (Some ?p) True], F_start So_running [],
    F_start So_running [], F_start So_running [], F_message 0 True ?ci [J_abort 2 []], F_js False [J_abort 3 []]]"
  have "case run fetch_step fetch_init ?es of None \<Rightarrow> False | Some s \<Rightarrow> fx_issued s = 3 \<and>
      map fst (fx_log s) = [2, 1] \<and> fx_queued s = [] \<and> fx_waiting s = [] \<and> map fst (fx_posted s) = [3]"
    by code_simp
  then obtain s where r: "run fetch_step fetch_init ?es = Some s"
    and q: "fx_issued s = 3 \<and> map fst (fx_log s) = [2, 1] \<and> fx_queued s = [] \<and> fx_waiting s = [] \<and>
      map fst (fx_posted s) = [3]"
    by (rule run_resultE)
  then have s: "run fetch_step fetch_init ?es = Some s" "fx_issued s < id_limit"
      "map fst (fx_log s) = [2, 1]" "fx_queued s = []" "fx_waiting s = []" "map fst (fx_posted s) = [3]"
    by (simp_all only: id_limit_def) simp
  have m: "fx_map s i = None" for i
    using fetch_settles_once [OF run_reachable [OF s(1)] s(2), of 0 i] s by simp
  have "length (fx_posted s) = 1" using arg_cong [OF s(6), of length] by simp
  then show ?thesis
    using fetch_settles_once [OF run_reachable [OF s(1)] s(2), of 0 0] s(3-6) m run_reachable [OF s(1)]
    by (intro exI [of _ s]) (auto simp: ran_def)
qed

section \<open>Aborting\<close>

text \<open>
  C29: what an abort does depends on how far the fetch has come, and on where it is called.  The handle of a running fetch
  ends it with an aborted result for its URL; its transfer is freed before the call returns and other running fetches go
  on.  Inside a handler of the loop the fetch is resolved before the call returns; outside, its coroutine is posted with
  that result, it still counts in \<open>pending_ops\<close>, and only the loop resolves it.  But a fetch whose coroutine
  has only been posted to start is not in the table yet, so aborting it changes nothing and the request is sent all the same;
  and a second abort of the same fetch does nothing.
\<close>

theorem fetch_abort_effect:
  assumes "reachable fetch_step fetch_init s" and "fx_issued s < id_limit" and "unat i < 2 ^ 31"
  shows "(if i \<in> fst ` set (fx_queued s) \<union> fst ` set (fx_posted s)
     then native_fetch_abort inside (ucast i) k s = s else True) \<and>
    (if i \<in> set (fx_waiting s)
     then \<exists>a t u r. fx_map s i = Some a \<and> fx_heap s a = Some t \<and> fx_heap u = (fx_heap s)(a := None) \<and>
       native_fetch_abort inside (ucast i) (\<lambda>s. s) s = u \<and>
       r = default_fetch_result\<lparr>fr_aborted := True, fr_error := ''aborted'', fr_url := fo_url (tf_options t)\<rparr> \<and>
       fx_map u = (fx_map s)(i := None) \<and> fx_waiting u = removeAll i (fx_waiting s) \<and>
       (if inside
        then fx_log u = (i, r) # fx_log s \<and> fx_posted u = fx_posted s \<and> fx_pending u = fx_pending s - 1
        else fx_log u = fx_log s \<and> fx_posted u = fx_posted s @ [(i, r)] \<and> fx_pending u = fx_pending s)
     else True)"
proof -
  have ok: "fetch_ok 0 {} s" using fetches.reachable_inv [OF assms(1)] assms(2) by (simp add: fetch_inv_def)
  then have tb: "table_ok {} s" by (simp add: fetch_ok_def)
  have key: "scast (ucast i :: 32 word) = i" using assms(3) by (rule small_id_cast)
  show ?thesis
  proof (cases "fx_map s i")
    case None
    then have "i \<notin> set (fx_waiting s)" using tb by (auto simp: table_ok_def)
    then show ?thesis using None by (simp add: native_fetch_abort_def key)
  next
    case (Some a)
    then obtain t where t: "fx_heap s a = Some t" using table_ok_heap [OF tb] by blast
    note td = table_okD [OF tb Some t]
    have "i \<notin> fst ` set (fx_queued s) \<union> fst ` set (fx_posted s)"
      using ok td(1) by (auto simp: fetch_ok_def fetch_ids_ok_def fetch_ids_def)
    then show ?thesis
      using Some t td
      by (cases inside)
        (simp_all add: native_fetch_abort_def key transfer_settle_def abort_def finish_def
          fetch_resolve_def transfer_delete_def default_fetch_result_def Let_def)
  qed
qed

theorem fetch_abort_effect_witness:
  "\<exists>s. reachable fetch_step fetch_init s \<and> fx_waiting s = [1] \<and>
     map fst (fx_log (native_fetch_abort True 1 (\<lambda>s. s) s)) = [1] \<and>
     fx_log (native_fetch_abort False 1 (\<lambda>s. s) s) = [] \<and>
     map fst (fx_posted (native_fetch_abort False 1 (\<lambda>s. s) s)) = [1] \<and>
     native_fetch_abort True 2 (\<lambda>s. s) s = s"
proof -
  let ?p = "default_options\<lparr>fo_url := ''u''\<rparr>"
  let ?es = "[F_js False [J_fetch (Some ?p) True, J_fetch (Some ?p) True], F_start So_running []]"
  have "case run fetch_step fetch_init ?es of None \<Rightarrow> False | Some s \<Rightarrow> fx_issued s = 2 \<and>
      fx_log s = [] \<and> fx_posted s = [] \<and> map fst (fx_queued s) = [2] \<and> fx_waiting s = [1]"
    by code_simp
  then obtain s where r: "run fetch_step fetch_init ?es = Some s"
    and q: "fx_issued s = 2 \<and> fx_log s = [] \<and> fx_posted s = [] \<and> map fst (fx_queued s) = [2] \<and> fx_waiting s = [1]"
    by (rule run_resultE)
  have s: "fx_issued s < id_limit" "fx_log s = []" "map fst (fx_queued s) = [2]" "fx_waiting s = [1]" "fx_posted s = []"
    using q by (simp_all add: id_limit_def)
  note re = run_reachable [OF r]
  note eff = fetch_abort_effect [OF re s(1)]
  have "2 \<in> set (map fst (fx_queued s))" unfolding s(3) by simp
  then have a2: "native_fetch_abort True 2 (\<lambda>s. s) s = s" using eff [of 2 True "\<lambda>s. s"] by simp
  have a1: "map fst (fx_log (native_fetch_abort True 1 (\<lambda>s. s) s)) = [1]"
    using eff [of 1 True "\<lambda>s. s"] s(2,4) by (simp del: One_nat_def) (elim exE conjE, simp)
  have "fx_log (native_fetch_abort False 1 (\<lambda>s. s) s) = [] \<and>
      map fst (fx_posted (native_fetch_abort False 1 (\<lambda>s. s) s)) = [1]"
    using eff [of 1 False "\<lambda>s. s"] s(2,4,5) by (simp del: One_nat_def) (elim exE conjE, simp)
  then show ?thesis using re s(4) a1 a2 by (intro exI [of _ s] conjI) simp_all
qed

end
