(* ===== verification/HostTimers.thy ===== *)
theory HostTimers
  imports JsApi
begin

text \<open>
  Timers of a host (\<open>src/host.cpp\<close>): the table \<open>active_timers_\<close>, \<open>setTimeout\<close> / \<open>setInterval\<close> and
  their coroutines, \<open>clearTimeout\<close> / \<open>clearInterval\<close>.  A timer object is a number; each coroutine of
  \<open>timeout_coro\<close> or \<open>interval_coro\<close> owns one and is posted, waiting, waiting with its wait cancelled,
  or running.
\<close>

section \<open>State\<close>

datatype coro_phase = Ph_posted | Ph_waiting | Ph_cancelled | Ph_running

record timer_coro =
  tc_id :: "32 word"
  tc_timer :: nat
  tc_interval :: bool
  tc_ms :: int
  tc_phase :: coro_phase

text \<open>\<open>tm_fired\<close>: the callbacks called, latest first, with whether it was an interval;
  \<open>tm_issued\<close> counts the ids handed out.\<close>

record timer_sys =
  tm_next :: "32 word"
  tm_issued :: nat
  tm_active :: "32 word \<Rightarrow> nat option"
  tm_objects :: nat
  tm_coros :: "timer_coro list"
  tm_pending :: int
  tm_stopping :: bool
  tm_fired :: "(32 word \<times> bool) list"

definition timers_init :: timer_sys where
  "timers_init =
     \<lparr>tm_next = 1, tm_issued = 0, tm_active = (\<lambda>_. None), tm_objects = 0, tm_coros = [],
      tm_pending = 0, tm_stopping = False, tm_fired = []\<rparr>"

section \<open>The table\<close>

definition register_timer :: "timer_sys \<Rightarrow> 32 word \<times> timer_sys" where
  "register_timer s =
     (let i = tm_next s
      in (i, s\<lparr>tm_next := i + 1, tm_issued := Suc (tm_issued s), tm_objects := Suc (tm_objects s),
               tm_active := (tm_active s)(i := Some (tm_objects s))\<rparr>))"

definition cancel_wait :: "nat \<Rightarrow> timer_coro \<Rightarrow> timer_coro" where
  "cancel_wait a c =
     (if tc_timer c = a \<and> tc_phase c = Ph_waiting then c\<lparr>tc_phase := Ph_cancelled\<rparr> else c)"

definition cancel_timer :: "32 word \<Rightarrow> timer_sys \<Rightarrow> timer_sys" where
  "cancel_timer i s =
     (case tm_active s i of
        None \<Rightarrow> s
      | Some a \<Rightarrow> s\<lparr>tm_active := (tm_active s)(i := None), tm_coros := map (cancel_wait a) (tm_coros s)\<rparr>)"

definition cancel_all_timers :: "32 word list \<Rightarrow> timer_sys \<Rightarrow> timer_sys" where
  "cancel_all_timers ids s = fold cancel_timer ids s"

definition erase_timer_if_active :: "32 word \<Rightarrow> timer_sys \<Rightarrow> bool \<times> timer_sys" where
  "erase_timer_if_active i s =
     (if tm_active s i = None then (False, s)
      else (True, s\<lparr>tm_active := (tm_active s)(i := None)\<rparr>))"

definition timer_is_active :: "32 word \<Rightarrow> timer_sys \<Rightarrow> bool" where
  "timer_is_active i s = (tm_active s i \<noteq> None)"

section \<open>setTimeout and setInterval\<close>

text \<open>\<open>None\<close>: a TypeError is thrown.\<close>

definition set_timer :: "bool \<Rightarrow> bool \<Rightarrow> int option \<Rightarrow> timer_sys \<Rightarrow> 32 word option \<times> timer_sys" where
  "set_timer interval is_function delay_ms s =
     (if \<not> is_function then (None, s)
      else
        (let ms = (case delay_ms of None \<Rightarrow> 0 | Some m \<Rightarrow> if m < 0 then 0 else m)
         in case register_timer s of
              (i, s1) \<Rightarrow>
                (Some i, s1\<lparr>tm_pending := tm_pending s1 + 1,
                     tm_coros := tm_coros s1 @ [\<lparr>tc_id = i, tc_timer = tm_objects s, tc_interval = interval,
                                                 tc_ms = ms, tc_phase = Ph_posted\<rparr>]\<rparr>)))"

definition set_timeout_fn :: "bool \<Rightarrow> int option \<Rightarrow> timer_sys \<Rightarrow> 32 word option \<times> timer_sys" where
  "set_timeout_fn = set_timer False"

definition set_interval_fn :: "bool \<Rightarrow> int option \<Rightarrow> timer_sys \<Rightarrow> 32 word option \<times> timer_sys" where
  "set_interval_fn = set_timer True"

text \<open>What JavaScript does to timers while it runs.\<close>

datatype timer_act = Ta_timeout bool "int option" | Ta_interval bool "int option" | Ta_clear "32 word"

fun do_timer :: "timer_act \<Rightarrow> timer_sys \<Rightarrow> timer_sys" where
  "do_timer (Ta_timeout f ms) s = snd (set_timeout_fn f ms s)"
| "do_timer (Ta_interval f ms) s = snd (set_interval_fn f ms s)"
| "do_timer (Ta_clear i) s = cancel_timer i s"

section \<open>The coroutines\<close>

definition set_phase :: "nat \<Rightarrow> coro_phase \<Rightarrow> timer_sys \<Rightarrow> timer_sys" where
  "set_phase k p s = s\<lparr>tm_coros := (tm_coros s)[k := (tm_coros s ! k)\<lparr>tc_phase := p\<rparr>]\<rparr>"

text \<open>The end of the \<open>k\<close>-th coroutine.\<close>

definition coro_return :: "nat \<Rightarrow> timer_sys \<Rightarrow> timer_sys" where
  "coro_return k s =
     s\<lparr>tm_pending := tm_pending s - 1, tm_coros := take k (tm_coros s) @ drop (Suc k) (tm_coros s)\<rparr>"

text \<open>The callback and the microtasks after it do \<open>acts\<close>.\<close>

definition run_callback :: "timer_coro \<Rightarrow> timer_act list \<Rightarrow> timer_sys \<Rightarrow> timer_sys" where
  "run_callback c acts s = fold do_timer acts (s\<lparr>tm_fired := (tc_id c, tc_interval c) # tm_fired s\<rparr>)"

definition timeout_coro :: "nat \<Rightarrow> timer_act list \<Rightarrow> timer_sys \<Rightarrow> timer_sys" where
  "timeout_coro k acts s =
     (let c = tm_coros s ! k
      in if tm_stopping s then coro_return k s
         else (case erase_timer_if_active (tc_id c) s of
                 (active, s1) \<Rightarrow> coro_return k (if active then run_callback c acts s1 else s1)))"

definition interval_coro :: "nat \<Rightarrow> timer_act list \<Rightarrow> timer_sys \<Rightarrow> timer_sys" where
  "interval_coro k acts s =
     (let c = tm_coros s ! k
      in if tm_stopping s \<or> \<not> timer_is_active (tc_id c) s then coro_return k s
         else (let s1 = run_callback c acts s
               in if \<not> timer_is_active (tc_id c) s1 then coro_return k s1
                  else set_phase k Ph_waiting s1))"

section \<open>The machine\<close>

text \<open>\<open>Te_wake\<close>: the handler of the wait of the \<open>k\<close>-th coroutine runs, expired or cancelled.\<close>

datatype timer_event =
    Te_js "timer_act list"
  | Te_start nat
  | Te_wake nat "timer_act list"
  | Te_shutdown

fun timer_step :: "timer_event \<Rightarrow> timer_sys \<Rightarrow> timer_sys option" where
  "timer_step (Te_js acts) s = Some (fold do_timer acts s)"
| "timer_step (Te_start k) s =
     (if k < length (tm_coros s) \<and> tc_phase (tm_coros s ! k) = Ph_posted
      then Some (set_phase k Ph_waiting s) else None)"
| "timer_step (Te_wake k acts) s =
     (if k < length (tm_coros s) \<and> tc_phase (tm_coros s ! k) \<in> {Ph_waiting, Ph_cancelled}
      then (let s1 = set_phase k Ph_running s
            in Some (if tc_interval (tm_coros s ! k) then interval_coro k acts s1
                     else timeout_coro k acts s1))
      else None)"
| "timer_step Te_shutdown s = Some (s\<lparr>tm_stopping := True\<rparr>)"

section \<open>The ids of the table\<close>

definition timer_limit :: nat where
  "timer_limit = 2 ^ 31 - 1"

definition timer_ids_ok :: "timer_sys \<Rightarrow> bool" where
  "timer_ids_ok s \<longleftrightarrow>
     unat (tm_next s) = Suc (tm_issued s) \<and>
     (\<forall>i. tm_active s i \<noteq> None \<longrightarrow> unat i \<le> tm_issued s)"

definition timer_room :: "timer_sys \<Rightarrow> bool" where
  "timer_room s \<longleftrightarrow> Suc (tm_issued s) < timer_limit"

lemma next_id:
  assumes "unat (n :: 32 word) = Suc m" and "Suc m < timer_limit"
  shows "unat (n + 1) = Suc (Suc m)"
  using assms unat_add_lem [of n 1] by (simp add: timer_limit_def)

lemma register_frame:
  "fst (register_timer s) = tm_next s" "tm_next (snd (register_timer s)) = tm_next s + 1"
  "tm_issued (snd (register_timer s)) = Suc (tm_issued s)"
  "tm_active (snd (register_timer s)) = (tm_active s)(tm_next s := Some (tm_objects s))"
  "tm_coros (snd (register_timer s)) = tm_coros s" "tm_pending (snd (register_timer s)) = tm_pending s"
  "tm_fired (snd (register_timer s)) = tm_fired s"
  "tm_objects (snd (register_timer s)) = Suc (tm_objects s)"
  by (simp_all add: register_timer_def Let_def)

lemma cancel_frame:
  "tm_active (cancel_timer i s) = (tm_active s)(i := None)" "tm_next (cancel_timer i s) = tm_next s"
  "tm_issued (cancel_timer i s) = tm_issued s" "tm_pending (cancel_timer i s) = tm_pending s"
  "tm_fired (cancel_timer i s) = tm_fired s" "tm_objects (cancel_timer i s) = tm_objects s"
  by (auto simp: cancel_timer_def split: option.splits)

interpretation timer_ids: id_table tm_next "\<lambda>s. dom (tm_active s)" "\<lambda>s. snd (register_timer s)"
  cancel_timer timer_ids_ok timer_room
proof unfold_locales
  fix s assume ok: "timer_ids_ok s"
  then show "tm_next s \<notin> dom (tm_active s)" unfolding timer_ids_ok_def by (metis domIff Suc_n_not_le_n)
next
  fix s assume "timer_ids_ok s" "timer_room s"
  then show "timer_ids_ok (snd (register_timer s))"
    using next_id by (auto simp: timer_ids_ok_def timer_room_def register_frame le_SucI)
qed (auto simp: register_frame cancel_frame timer_ids_ok_def dom_def)

section \<open>The invariant\<close>

text \<open>
  Ids are handed out once; an active id belongs to a coroutine that has not ended; a timeout that has
  fired is no longer active; \<open>pending_ops\<close> counts the coroutines.
\<close>

definition timers_ok :: "timer_sys \<Rightarrow> bool" where
  "timers_ok s \<longleftrightarrow>
     timer_ids_ok s \<and>
     (\<forall>(i, b) \<in> set (tm_fired s). unat i \<le> tm_issued s) \<and>
     list_all (\<lambda>i. unat i \<le> tm_issued s) (map tc_id (tm_coros s)) \<and>
     (\<forall>i. (i, False) \<in> set (tm_fired s) \<longrightarrow> tm_active s i = None) \<and>
     (\<forall>i. count_list (tm_fired s) (i, False) \<le> 1) \<and>
     tm_pending s = int (length (tm_coros s))"

definition timers_inv :: "timer_sys \<Rightarrow> bool" where
  "timers_inv s \<longleftrightarrow> (if tm_issued s < timer_limit then timers_ok s else True)"

text \<open>What running JavaScript guarantees.\<close>

definition timer_keeps :: "(timer_sys \<Rightarrow> timer_sys) \<Rightarrow> bool" where
  "timer_keeps f \<longleftrightarrow>
     (\<forall>s. tm_issued s \<le> tm_issued (f s) \<and> tm_fired (f s) = tm_fired s \<and>
        length (tm_coros s) \<le> length (tm_coros (f s)) \<and>
        (\<forall>k < length (tm_coros s). tc_id (tm_coros (f s) ! k) = tc_id (tm_coros s ! k)) \<and>
        (\<forall>i. timers_ok s \<longrightarrow> tm_issued (f s) < timer_limit \<longrightarrow> unat i \<le> tm_issued s \<longrightarrow>
           tm_active s i = None \<longrightarrow> tm_active (f s) i = None) \<and>
        (timers_ok s \<longrightarrow> tm_issued (f s) < timer_limit \<longrightarrow> timers_ok (f s)))"

lemma timer_keepsD:
  assumes "timer_keeps f"
  shows "tm_issued s \<le> tm_issued (f s)" "tm_fired (f s) = tm_fired s"
    "length (tm_coros s) \<le> length (tm_coros (f s))"
    "k < length (tm_coros s) \<Longrightarrow> tc_id (tm_coros (f s) ! k) = tc_id (tm_coros s ! k)"
    "timers_ok s \<Longrightarrow> tm_issued (f s) < timer_limit \<Longrightarrow> unat i \<le> tm_issued s \<Longrightarrow>
       tm_active s i = None \<Longrightarrow> tm_active (f s) i = None"
    "timers_ok s \<Longrightarrow> tm_issued (f s) < timer_limit \<Longrightarrow> timers_ok (f s)"
  using assms unfolding timer_keeps_def by blast+

lemma keeps_set_timer: "timer_keeps (\<lambda>s. snd (set_timer interval fn ms s))"
proof (cases fn)
  case False
  then show ?thesis by (simp add: timer_keeps_def set_timer_def)
next
  case True
  have ok: "timers_ok (snd (set_timer interval fn ms s))"
    if s: "timers_ok s" and lim: "Suc (tm_issued s) < timer_limit" for s
  proof -
    have n: "unat (tm_next s) = Suc (tm_issued s)" using s by (simp add: timers_ok_def timer_ids_ok_def)
    have "(tm_next s, False) \<notin> set (tm_fired s)" using s n by (fastforce simp: timers_ok_def)
    moreover have "timer_ids_ok (snd (register_timer s))"
      using s lim timer_ids.ok_alloc [of s] by (simp add: timers_ok_def timer_room_def)
    ultimately show ?thesis
      using s n True
      by (auto simp: timers_ok_def set_timer_def Let_def timer_ids_ok_def register_frame case_prod_unfold le_SucI list_all_iff
          split: if_splits)
  qed
  have "tm_active (snd (set_timer interval fn ms s)) i = tm_active s i"
    if "timers_ok s" "unat i \<le> tm_issued s" for s i
    using that by (auto simp: set_timer_def Let_def case_prod_unfold register_frame timers_ok_def timer_ids_ok_def)
  then show ?thesis
    using ok True
    by (auto simp: timer_keeps_def set_timer_def Let_def case_prod_unfold register_frame nth_append)
qed

lemma cancel_coros:
  "map tc_id (tm_coros (cancel_timer i s)) = map tc_id (tm_coros s)"
  by (auto simp: cancel_timer_def cancel_wait_def split: option.splits)

lemma cancel_ids:
  "length (tm_coros (cancel_timer i s)) = length (tm_coros s)"
  "k < length (tm_coros s) \<Longrightarrow> tc_id (tm_coros (cancel_timer i s) ! k) = tc_id (tm_coros s ! k)"
  using cancel_coros [of i s] by (metis length_map, metis length_map nth_map)

lemma keeps_cancel: "timer_keeps (cancel_timer i)"
proof -
  have "timers_ok (cancel_timer i s)" if "timers_ok s" for s
  proof -
    have "timer_ids_ok (cancel_timer i s)"
      using that timer_ids.ok_erase by (simp add: timers_ok_def)
    moreover have "length (tm_coros (cancel_timer i s)) = length (tm_coros s)" by (rule cancel_ids(1))
    ultimately show ?thesis
      using that by (simp add: timers_ok_def cancel_frame cancel_coros del: list.pred_map)
  qed
  then show ?thesis by (auto simp: timer_keeps_def cancel_frame cancel_ids)
qed

lemma keeps_do_timer: "timer_keeps (do_timer a)"
proof (cases a)
  case (Ta_timeout f ms)
  then have "do_timer a = (\<lambda>s. snd (set_timer False f ms s))" by (auto simp: set_timeout_fn_def)
  then show ?thesis using keeps_set_timer by simp
next
  case (Ta_interval f ms)
  then have "do_timer a = (\<lambda>s. snd (set_timer True f ms s))" by (auto simp: set_interval_fn_def)
  then show ?thesis using keeps_set_timer by simp
next
  case (Ta_clear i)
  then have "do_timer a = cancel_timer i" by auto
  then show ?thesis using keeps_cancel by simp
qed

lemma timer_keeps_comp:
  assumes f: "timer_keeps f" and g: "timer_keeps g"
  shows "timer_keeps (\<lambda>s. g (f s))"
  unfolding timer_keeps_def
proof (intro allI conjI impI)
  fix s
  note F = timer_keepsD [OF f, where s = s] and G = timer_keepsD [OF g, where s = "f s"]
  show "tm_issued s \<le> tm_issued (g (f s))" using F(1) G(1) by simp
  show "tm_fired (g (f s)) = tm_fired s" using F(2) G(2) by simp
  show "length (tm_coros s) \<le> length (tm_coros (g (f s)))" using F(3) G(3) by simp
  fix k assume "k < length (tm_coros s)"
  then show "tc_id (tm_coros (g (f s)) ! k) = tc_id (tm_coros s ! k)" using F(3,4) G(4) by simp
next
  fix s i assume a: "timers_ok s" "tm_issued (g (f s)) < timer_limit" "unat i \<le> tm_issued s" "tm_active s i = None"
  note F = timer_keepsD [OF f, where s = s] and G = timer_keepsD [OF g, where s = "f s"]
  have l: "tm_issued (f s) < timer_limit" using a(2) G(1) by simp
  show "tm_active (g (f s)) i = None"
    using G(5) [OF F(6) [OF a(1) l] a(2) _ F(5) [OF a(1) l a(3,4)]] a(3) F(1) by simp
next
  fix s assume a: "timers_ok s" "tm_issued (g (f s)) < timer_limit"
  then have "tm_issued (f s) < timer_limit" using timer_keepsD(1) [OF g, where s = "f s"] by simp
  then show "timers_ok (g (f s))" using a timer_keepsD(6) [OF f] timer_keepsD(6) [OF g] by simp
qed

lemma keeps_timer_acts: "timer_keeps (fold do_timer acts)"
proof (induction acts)
  case Nil
  then show ?case by (simp add: timer_keeps_def)
next
  case (Cons a acts)
  then show ?case using timer_keeps_comp [OF keeps_do_timer [of a]] by (simp add: comp_def)
qed

section \<open>Every step\<close>

lemma coros_update_id:
  "k < length cs \<Longrightarrow> map tc_id (cs[k := (cs ! k)\<lparr>tc_phase := p\<rparr>]) = map tc_id cs"
  by (simp add: map_update list_update_same_conv)

lemma set_phase_frame:
  "tm_issued (set_phase k p s) = tm_issued s" "tm_active (set_phase k p s) = tm_active s"
  "tm_fired (set_phase k p s) = tm_fired s" "tm_stopping (set_phase k p s) = tm_stopping s"
  "length (tm_coros (set_phase k p s)) = length (tm_coros s)"
  by (simp_all add: set_phase_def)

lemma ok_set_phase: "timers_ok s \<Longrightarrow> k < length (tm_coros s) \<Longrightarrow> timers_ok (set_phase k p s)"
  using coros_update_id [of k "tm_coros s" p]
  by (simp add: timers_ok_def timer_ids_ok_def set_phase_def del: list.pred_map)

lemma set_phase_id:
  "k < length (tm_coros s) \<Longrightarrow> tc_id (tm_coros (set_phase k p s) ! k) = tc_id (tm_coros s ! k)"
  "k < length (tm_coros s) \<Longrightarrow> tc_interval (tm_coros (set_phase k p s) ! k) = tc_interval (tm_coros s ! k)"
  by (simp_all add: set_phase_def)

lemma return_frame:
  "tm_issued (coro_return k s) = tm_issued s" "tm_active (coro_return k s) = tm_active s"
  "tm_fired (coro_return k s) = tm_fired s"
  by (simp_all add: coro_return_def)

lemma ok_return:
  assumes "timers_ok s" and "k < length (tm_coros s)"
  shows "timers_ok (coro_return k s)"
proof -
  have "list_all P (take k xs @ drop (Suc k) xs)" if "list_all P xs" for P and xs :: "timer_coro list"
    using that by (auto simp: list_all_iff dest: in_set_takeD in_set_dropD)
  then show ?thesis
    using assms by (simp add: timers_ok_def timer_ids_ok_def coro_return_def list.pred_map)
qed

lemma ok_fire:
  assumes "timers_ok s" and "unat (tc_id c) \<le> tm_issued s"
    and "tc_interval c \<or> (tm_active s (tc_id c) = None \<and> (tc_id c, False) \<notin> set (tm_fired s))"
  shows "timers_ok (s\<lparr>tm_fired := (tc_id c, tc_interval c) # tm_fired s\<rparr>)"
  using assms by (auto simp: timers_ok_def timer_ids_ok_def count_list_0_iff)

lemma callback_frame':
  "tm_issued s \<le> tm_issued (run_callback c acts s)"
  "tm_fired (run_callback c acts s) = (tc_id c, tc_interval c) # tm_fired s"
  "length (tm_coros s) \<le> length (tm_coros (run_callback c acts s))"
  using timer_keepsD(1-3) [OF keeps_timer_acts [of acts],
      where s = "s\<lparr>tm_fired := (tc_id c, tc_interval c) # tm_fired s\<rparr>"]
  by (simp_all add: run_callback_def)

text \<open>\<open>dead i s\<close>: the id was handed out and is no longer active.\<close>

definition dead :: "32 word \<Rightarrow> timer_sys \<Rightarrow> bool" where
  "dead i s \<longleftrightarrow> tm_active s i = None \<and> unat i \<le> tm_issued s"

definition fired_of :: "32 word \<Rightarrow> timer_sys \<Rightarrow> (32 word \<times> bool) list" where
  "fired_of i s = filter (\<lambda>p. fst p = i) (tm_fired s)"

definition good_step :: "timer_sys \<Rightarrow> timer_sys \<Rightarrow> bool" where
  "good_step s t \<longleftrightarrow>
     tm_issued s \<le> tm_issued t \<and>
     (timers_ok s \<longrightarrow> tm_issued t < timer_limit \<longrightarrow>
        timers_ok t \<and> (\<forall>i. dead i s \<longrightarrow> dead i t \<and> fired_of i t = fired_of i s))"

lemma good_acts: "good_step s (fold do_timer acts s)"
  using timer_keepsD(1,2) [OF keeps_timer_acts [of acts], where s = s]
    timer_keepsD(5,6) [OF keeps_timer_acts [of acts], where s = s]
  by (auto simp: good_step_def dead_def fired_of_def)

lemma good_timeout:
  assumes k: "k < length (tm_coros s)" and kind: "\<not> tc_interval (tm_coros s ! k)"
  shows "good_step s (timeout_coro k acts s)"
proof -
  let ?c = "tm_coros s ! k"
  let ?s = "s\<lparr>tm_active := (tm_active s)(tc_id ?c := None)\<rparr>"
  show ?thesis
  proof (cases "tm_stopping s \<or> tm_active s (tc_id ?c) = None")
    case True
    then have "timeout_coro k acts s = coro_return k s"
      by (auto simp: timeout_coro_def erase_timer_if_active_def Let_def)
    then show ?thesis using ok_return [OF _ k] by (simp add: good_step_def return_frame dead_def fired_of_def)
  next
    case False
    then have eq: "timeout_coro k acts s = coro_return k (run_callback ?c acts ?s)"
      by (auto simp: timeout_coro_def erase_timer_if_active_def Let_def)
    note fr = callback_frame' [where s = ?s and c = ?c and acts = acts]
    have "timers_ok (coro_return k (run_callback ?c acts ?s)) \<and>
        (dead i s \<longrightarrow> dead i (coro_return k (run_callback ?c acts ?s)) \<and>
           fired_of i (coro_return k (run_callback ?c acts ?s)) = fired_of i s)"
      if ok: "timers_ok s" and lim: "tm_issued (coro_return k (run_callback ?c acts ?s)) < timer_limit" for i
    proof -
      have id: "unat (tc_id ?c) \<le> tm_issued s" using ok k by (auto simp: timers_ok_def list_all_length)
      have nf: "(tc_id ?c, False) \<notin> set (tm_fired s)" using ok False by (auto simp: timers_ok_def)
      have "timers_ok ?s" using ok by (auto simp: timers_ok_def timer_ids_ok_def)
      then have ok1: "timers_ok (?s\<lparr>tm_fired := (tc_id ?c, tc_interval ?c) # tm_fired ?s\<rparr>)"
        by (rule ok_fire) (use id nf in simp_all)
      have l: "tm_issued (run_callback ?c acts ?s) < timer_limit" using lim by (simp add: return_frame)
      note K = timer_keepsD(5,6) [OF keeps_timer_acts [of acts] ok1, folded run_callback_def, OF l]
      have "timers_ok (coro_return k (run_callback ?c acts ?s))"
        using ok_return [OF K(2)] fr(3) k by simp
      moreover have "dead i (coro_return k (run_callback ?c acts ?s)) \<and>
          fired_of i (coro_return k (run_callback ?c acts ?s)) = fired_of i s" if "dead i s"
        using that K(1) [of i] False fr(1,2) by (auto simp: dead_def return_frame fired_of_def)
      ultimately show ?thesis by blast
    qed
    then show ?thesis using fr(1) by (simp add: good_step_def eq return_frame)
  qed
qed

lemma good_interval:
  assumes k: "k < length (tm_coros s)" and kind: "tc_interval (tm_coros s ! k)"
  shows "good_step s (interval_coro k acts s)"
proof -
  let ?c = "tm_coros s ! k"
  let ?t = "run_callback ?c acts s"
  note fr = callback_frame' [where s = s and c = ?c and acts = acts]
  show ?thesis
  proof (cases "tm_stopping s \<or> tm_active s (tc_id ?c) = None")
    case True
    then have "interval_coro k acts s = coro_return k s"
      by (auto simp: interval_coro_def timer_is_active_def Let_def)
    then show ?thesis using ok_return [OF _ k] by (simp add: good_step_def return_frame dead_def fired_of_def)
  next
    case False
    then have eq: "interval_coro k acts s =
        (if tm_active ?t (tc_id ?c) = None then coro_return k ?t else set_phase k Ph_waiting ?t)"
      by (auto simp: interval_coro_def timer_is_active_def Let_def)
    have main: "timers_ok ?t \<and> (dead i s \<longrightarrow> dead i ?t \<and> fired_of i ?t = fired_of i s)"
      if ok: "timers_ok s" and lim: "tm_issued ?t < timer_limit" for i
    proof -
      have id: "unat (tc_id ?c) \<le> tm_issued s" using ok k by (auto simp: timers_ok_def list_all_length)
      have ok1: "timers_ok (s\<lparr>tm_fired := (tc_id ?c, tc_interval ?c) # tm_fired s\<rparr>)"
        by (rule ok_fire [OF ok id]) (use kind in simp)
      note K = timer_keepsD(5,6) [OF keeps_timer_acts [of acts] ok1, folded run_callback_def, OF lim]
      show ?thesis using K(1) [of i] K(2) False fr(1,2) by (auto simp: dead_def fired_of_def)
    qed
    have len: "k < length (tm_coros ?t)" using fr(3) k by simp
    show ?thesis
      using main fr(1) ok_return [OF _ len] ok_set_phase [OF _ len]
      by (simp add: good_step_def eq return_frame set_phase_frame dead_def fired_of_def)
  qed
qed

lemma good_timer_step: "timer_step e s = Some t \<Longrightarrow> good_step s t"
proof (cases e)
  case (Te_js acts)
  assume "timer_step e s = Some t"
  then show ?thesis using Te_js good_acts by auto
next
  case (Te_start k)
  assume "timer_step e s = Some t"
  then show ?thesis
    using Te_start ok_set_phase [of s k Ph_waiting]
    by (auto simp: good_step_def set_phase_frame dead_def fired_of_def split: if_splits)
next
  case (Te_wake k acts)
  assume st: "timer_step e s = Some t"
  let ?s = "set_phase k Ph_running s"
  have k: "k < length (tm_coros s)" using st Te_wake by (simp split: if_splits)
  then have "k < length (tm_coros ?s)" by (simp add: set_phase_frame)
  moreover have "t = (if tc_interval (tm_coros ?s ! k) then interval_coro k acts ?s
      else timeout_coro k acts ?s)"
    using st Te_wake k set_phase_id(2) [OF k] by (simp add: Let_def split: if_splits)
  ultimately have "good_step ?s t" using good_timeout good_interval by simp
  then show ?thesis
    using ok_set_phase [OF _ k] by (simp add: good_step_def set_phase_frame dead_def fired_of_def)
next
  case Te_shutdown
  assume "timer_step e s = Some t"
  then show ?thesis
    using Te_shutdown by (auto simp: good_step_def timers_ok_def timer_ids_ok_def dead_def fired_of_def)
qed

interpretation timers: machine timer_step timers_init timers_inv
proof unfold_locales
  show "timers_inv timers_init"
    by (simp add: timers_inv_def timers_ok_def timer_ids_ok_def timers_init_def)
next
  fix s e t assume "timers_inv s" "timer_step e s = Some t"
  then show "timers_inv t"
    using good_timer_step [of e s t] by (auto simp: timers_inv_def good_step_def split: if_splits)
qed

lemma dead_run:
  "timers_inv s \<Longrightarrow> dead i s \<Longrightarrow> run timer_step s es = Some t \<Longrightarrow> tm_issued t < timer_limit \<Longrightarrow>
     tm_issued s \<le> tm_issued t \<and> dead i t \<and> fired_of i t = fired_of i s"
proof (induction es arbitrary: s)
  case Nil
  then show ?case by simp
next
  case (Cons e es)
  obtain u where st: "timer_step e s = Some u" and r: "run timer_step u es = Some t"
    using Cons.prems(3) by (auto split: option.splits)
  note g = good_timer_step [OF st]
  have mono: "run timer_step u es = Some t \<Longrightarrow> tm_issued u \<le> tm_issued t" for u
  proof (induction es arbitrary: u)
    case Nil
    then show ?case by simp
  next
    case (Cons e es)
    then show ?case
      using good_timer_step [of e u] by (fastforce simp: good_step_def split: option.splits)
  qed
  have lim: "tm_issued u < timer_limit" using mono [OF r] Cons.prems(4) by simp
  then have "timers_ok s" using Cons.prems(1) g by (simp add: timers_inv_def good_step_def split: if_splits)
  then have "dead i u" "fired_of i u = fired_of i s" "timers_ok u"
    using g lim Cons.prems(2) by (auto simp: good_step_def)
  then have "timers_inv u" by (simp add: timers_inv_def)
  moreover have "tm_issued s \<le> tm_issued u" using g by (simp add: good_step_def)
  ultimately show ?case
    using Cons.IH [of u] r Cons.prems(4) \<open>dead i u\<close> \<open>fired_of i u = fired_of i s\<close> by simp
qed

section \<open>Properties\<close>

text \<open>
  C11: a timer that is no longer active never fires again, and a timeout fires at most once.  In
  every reachable state, for an id that was handed out and is not in the table (cleared, or a
  timeout that fired), no later event calls its callback, whatever other timers do; no timeout
  callback has been called twice; and \<open>pending_ops\<close> is the number of timer coroutines.
\<close>

theorem cleared_timers_never_fire:
  assumes "reachable timer_step timers_init s" and "run timer_step s es = Some t"
    and "tm_issued t < timer_limit" and "tm_active s i = None" and "unat i \<le> tm_issued s"
  shows "fired_of i t = fired_of i s \<and> \<not> timer_is_active i t \<and>
    count_list (tm_fired t) (j, False) \<le> 1 \<and> tm_pending t = int (length (tm_coros t))"
proof -
  have inv: "timers_inv s" by (rule timers.reachable_inv [OF assms(1)])
  have "timers_inv t" using timers.run_inv [OF inv assms(2)] .
  then have "timers_ok t" using assms(3) by (simp add: timers_inv_def)
  moreover have "dead i s" using assms(4,5) by (simp add: dead_def)
  ultimately show ?thesis
    using dead_run [OF inv _ assms(2,3), of i] by (simp add: timers_ok_def dead_def timer_is_active_def)
qed

theorem cleared_timers_never_fire_witness:
  "\<exists>t. run timer_step timers_init [Te_js [Ta_timeout True (Some 5), Ta_interval True None],
       Te_start 0, Te_start 1, Te_wake 1 [Ta_clear 1], Te_wake 0 []] = Some t \<and>
     fired_of 1 t = [] \<and> fired_of 2 t = [(2, True)] \<and> tm_pending t = 1"
proof -
  let ?es = "[Te_js [Ta_timeout True (Some 5), Ta_interval True None], Te_start 0, Te_start 1,
    Te_wake 1 [Ta_clear 1]]"
  have "case run timer_step timers_init ?es of None \<Rightarrow> False | Some s \<Rightarrow> tm_active s 1 = None \<and>
      tm_issued s = 2 \<and> fired_of 1 s = []"
    by code_simp
  then obtain s where r: "run timer_step timers_init ?es = Some s"
    and q: "tm_active s 1 = None \<and> tm_issued s = 2 \<and> fired_of 1 s = []" by (rule run_resultE)
  have "case run timer_step timers_init (?es @ [Te_wake 0 []]) of None \<Rightarrow> False | Some t \<Rightarrow>
      tm_issued t = 2 \<and> length (tm_coros t) = 1 \<and> fired_of 2 t = [(2, True)]"
    by code_simp
  then obtain t where rt: "run timer_step timers_init (?es @ [Te_wake 0 []]) = Some t"
    and p: "tm_issued t = 2 \<and> length (tm_coros t) = 1 \<and> fired_of 2 t = [(2, True)]" by (rule run_resultE)
  have w: "run timer_step s [Te_wake 0 []] = Some t" using rt r by (simp only: run_append option.case)
  have lim: "tm_issued t < timer_limit" using p by (simp add: timer_limit_def)
  have i: "unat (1 :: 32 word) \<le> tm_issued s" using q by simp
  have a: "tm_active s 1 = None" using q by simp
  have "fired_of 1 t = [] \<and> tm_pending t = 1"
    using cleared_timers_never_fire [OF run_reachable [OF r] w lim a i, of 1] p q by simp
  then show ?thesis using rt p by (intro exI [of _ t]) simp
qed

text \<open>
  Clearing a timer in the turn that created it does not stop its coroutine.  The coroutine has
  only been posted then, so \<open>timer->cancel()\<close> finds no wait to cancel: the coroutine starts all the
  same, waits for the whole delay with nothing left to call, and \<open>pending_ops\<close> keeps the loop
  running until it has passed.  Once the coroutine waits, clearing does cancel its wait.
\<close>

theorem clear_before_start_waits:
  fixes s :: timer_sys
  assumes "fst (set_timer interval True ms s) = Some i" and "tm_coros s = []"
  defines "t \<equiv> cancel_timer i (snd (set_timer interval True ms s))"
  shows "tm_active t i = None \<and> map tc_phase (tm_coros t) = [Ph_posted] \<and>
    tm_pending t = tm_pending s + 1 \<and>
    map_option (\<lambda>u. map tc_phase (tm_coros u)) (timer_step (Te_start 0) t) = Some [Ph_waiting] \<and>
    map_option (\<lambda>u. map tc_phase (tm_coros (cancel_timer i u)))
      (timer_step (Te_start 0) (snd (set_timer interval True ms s))) = Some [Ph_cancelled]"
  using assms(1,2)
  by (auto simp: t_def set_timer_def register_timer_def cancel_timer_def cancel_wait_def set_phase_def Let_def)

theorem clear_before_start_waits_witness:
  "map tc_phase (tm_coros (cancel_timer 1 (snd (set_timer False True (Some 3600000) timers_init)))) =
     [Ph_posted]"
proof -
  have "fst (set_timer False True (Some 3600000) timers_init) = Some 1"
    by (simp add: set_timer_def register_timer_def timers_init_def Let_def)
  then show ?thesis
    using clear_before_start_waits [of False "Some 3600000" timers_init 1] by (simp add: timers_init_def)
qed

end
