(* ===== verification/HttpSession.thy ===== *)
theory HttpSession
  imports Prelude
begin

text \<open>
  One HTTP/1.1 connection (\<open>src/net/http_server.hpp\<close>, \<open>src/net/http_server.cpp\<close>): the read loop that
  feeds llhttp, the llhttp callbacks that assemble a request, and the writers for whole and
  chunked responses.  llhttp is a parameter: \<open>ll_execute\<close> returns the callbacks it makes, in
  order, and whether it reported \<open>HPE_OK\<close>.  What a session does to its socket and to the request
  handler is the list of effects an operation returns.
\<close>

section \<open>State\<close>

record http_request =
  hq_method :: string
  hq_path :: string
  hq_query :: string
  hq_headers :: "string \<Rightarrow> string option"
  hq_body :: bytes
  hq_url :: string

definition empty_request :: http_request where
  "empty_request =
     \<lparr>hq_method = [], hq_path = [], hq_query = [], hq_headers = (\<lambda>_. None), hq_body = [],
      hq_url = []\<rparr>"

record http_response =
  hs_status :: int
  hs_status_text :: string
  hs_headers :: "(string \<times> string) list"
  hs_body :: bytes

datatype callback =
    Cb_message_begin
  | Cb_url string string \<comment> \<open>a piece of the target, the meth name\<close>
  | Cb_header_field string
  | Cb_header_value string
  | Cb_headers_complete nat nat
  | Cb_body bytes
  | Cb_message_complete

record 'p llhttp =
  ll_execute :: "'p \<Rightarrow> bytes \<Rightarrow> 'p \<times> callback list \<times> bool"
  ll_reset :: "'p \<Rightarrow> 'p"

record 'p session =
  ss_parser :: 'p
  ss_buffer :: bytes
  ss_req :: http_request
  ss_header_name :: string
  ss_header_value :: string
  ss_headers_complete :: bool
  ss_message_complete :: bool
  ss_close_after :: bool

definition session_init :: "'p \<Rightarrow> 'p session" where
  "session_init p =
     \<lparr>ss_parser = p, ss_buffer = [], ss_req = empty_request, ss_header_name = [],
      ss_header_value = [], ss_headers_complete = False, ss_message_complete = False,
      ss_close_after = True\<rparr>"

datatype effect = Ef_read | Ef_handle http_request | Ef_send bytes | Ef_close

section \<open>llhttp callbacks\<close>

definition on_message_begin :: "'p session \<Rightarrow> 'p session" where
  "on_message_begin s =
     s\<lparr>ss_req := empty_request, ss_header_name := [], ss_header_value := [],
       ss_headers_complete := False, ss_message_complete := False\<rparr>"

definition on_url :: "string \<Rightarrow> string \<Rightarrow> 'p session \<Rightarrow> 'p session" where
  "on_url at meth s =
     (let r = (ss_req s)\<lparr>hq_url := hq_url (ss_req s) @ at\<rparr>;
          r' = (case find_char (CHR ''?'') at of
                  Some q \<Rightarrow> r\<lparr>hq_path := take q at, hq_query := drop (q + 1) at\<rparr>
                | None \<Rightarrow> r\<lparr>hq_path := at, hq_query := []\<rparr>)
      in s\<lparr>ss_req := r'\<lparr>hq_method := meth\<rparr>\<rparr>)"

definition put_header :: "string \<Rightarrow> string \<Rightarrow> http_request \<Rightarrow> http_request" where
  "put_header k v r = r\<lparr>hq_headers := (hq_headers r)(k := Some v)\<rparr>"

definition on_header_field :: "string \<Rightarrow> 'p session \<Rightarrow> 'p session" where
  "on_header_field at s =
     (let s1 = (if ss_header_value s \<noteq> [] \<and> ss_header_name s \<noteq> []
                then s\<lparr>ss_req := put_header (lower (ss_header_name s)) (ss_header_value s) (ss_req s),
                       ss_header_value := []\<rparr>
                else s)
      in s1\<lparr>ss_header_name := ss_header_name s1 @ at\<rparr>)"

definition on_header_value :: "string \<Rightarrow> 'p session \<Rightarrow> 'p session" where
  "on_header_value at s = s\<lparr>ss_header_value := ss_header_value s @ at\<rparr>"

definition on_headers_complete :: "nat \<Rightarrow> nat \<Rightarrow> 'p session \<Rightarrow> 'p session" where
  "on_headers_complete major minor s =
     (let s1 = (if ss_header_name s \<noteq> []
                then s\<lparr>ss_req := put_header (lower (ss_header_name s)) (ss_header_value s) (ss_req s),
                       ss_header_name := [], ss_header_value := []\<rparr>
                else s);
          s2 = s1\<lparr>ss_headers_complete := True\<rparr>
      in case hq_headers (ss_req s2) ''connection'' of
           Some val \<Rightarrow> s2\<lparr>ss_close_after := (lower val = ''close'')\<rparr>
         | None \<Rightarrow> s2\<lparr>ss_close_after := (major = 1 \<and> minor = 0)\<rparr>)"

definition on_body :: "bytes \<Rightarrow> 'p session \<Rightarrow> 'p session" where
  "on_body at s = s\<lparr>ss_req := (ss_req s)\<lparr>hq_body := hq_body (ss_req s) @ at\<rparr>\<rparr>"

definition on_message_complete :: "'p session \<Rightarrow> 'p session" where
  "on_message_complete s = s\<lparr>ss_message_complete := True\<rparr>"

fun on_callback :: "callback \<Rightarrow> 'p session \<Rightarrow> 'p session" where
  "on_callback Cb_message_begin s = on_message_begin s"
| "on_callback (Cb_url at m) s = on_url at m s"
| "on_callback (Cb_header_field at) s = on_header_field at s"
| "on_callback (Cb_header_value at) s = on_header_value at s"
| "on_callback (Cb_headers_complete major minor) s = on_headers_complete major minor s"
| "on_callback (Cb_body at) s = on_body at s"
| "on_callback Cb_message_complete s = on_message_complete s"

section \<open>The read loop\<close>

text \<open>The buffer grows by 4096 bytes for the read and shrinks to what has arrived.\<close>

definition do_read :: "'p session \<Rightarrow> 'p session \<times> effect list" where
  "do_read s = (s\<lparr>ss_buffer := ss_buffer s @ replicate 4096 0\<rparr>, [Ef_read])"

definition parse_http_data :: "'p llhttp \<Rightarrow> 'p session \<Rightarrow> 'p session" where
  "parse_http_data L s =
     (if ss_buffer s = [] then s
      else case ll_execute L (ss_parser s) (ss_buffer s) of
          (p, cbs, good) \<Rightarrow>
            (let s1 = fold on_callback cbs (s\<lparr>ss_parser := p\<rparr>)
             in if good then s1 else s1\<lparr>ss_close_after := True\<rparr>))"

definition handle_request :: "'p llhttp \<Rightarrow> 'p session \<Rightarrow> 'p session \<times> effect list" where
  "handle_request L s =
     (s\<lparr>ss_buffer := [], ss_req := empty_request, ss_header_name := [], ss_header_value := [],
        ss_headers_complete := False, ss_message_complete := False,
        ss_parser := ll_reset L (ss_parser s)\<rparr>,
      [Ef_handle (ss_req s)])"

text \<open>\<open>None\<close> is a read that failed; \<open>data\<close> are the at most 4096 bytes that arrived.\<close>

definition read_done :: "'p llhttp \<Rightarrow> bytes option \<Rightarrow> 'p session \<Rightarrow> 'p session \<times> effect list" where
  "read_done L arrived s =
     (case arrived of
        None \<Rightarrow> (s, [])
      | Some data \<Rightarrow>
          (let s1 = parse_http_data L
                 (s\<lparr>ss_buffer := take (length (ss_buffer s) - 4096) (ss_buffer s) @ data\<rparr>)
           in if ss_message_complete s1 then handle_request L s1 else do_read s1))"

section \<open>Responses\<close>

definition crlf :: string where
  "crlf = [CHR 0x0D, CHR 0x0A]"

definition response_front :: "http_response \<Rightarrow> string" where
  "response_front resp =
     ''HTTP/1.1 '' @ show_int (hs_status resp) @ '' '' @
       (if hs_status_text resp = [] then ''OK'' else hs_status_text resp) @ crlf @
     concat (map (\<lambda>(k, v). k @ '': '' @ v @ crlf) (hs_headers resp)) @
     (if map_of (hs_headers resp) ''content-length'' = None
      then ''Content-Length: '' @ show_nat (length (hs_body resp)) @ crlf else [])"

definition send_response :: "http_response \<Rightarrow> 'p session \<Rightarrow> effect list" where
  "send_response resp s =
     (let out = response_front resp @
            (if ss_close_after s then ''Connection: close'' @ crlf
             else ''Connection: keep-alive'' @ crlf) @ crlf
      in [Ef_send (bytes_of_string out @ hs_body resp)])"

text \<open>The completion of the write: close, or read the next request.\<close>

definition response_written :: "bool \<Rightarrow> 'p session \<Rightarrow> 'p session \<times> effect list" where
  "response_written failed s =
     (if failed then (s, []) else if ss_close_after s then (s, [Ef_close]) else do_read s)"

definition send_raw :: "string \<Rightarrow> effect list" where
  "send_raw data = [Ef_send (bytes_of_string data)]"

definition begin_chunked :: "int \<Rightarrow> string \<Rightarrow> effect list" where
  "begin_chunked status content_type =
     send_raw (''HTTP/1.1 '' @ show_int status @ '' OK'' @ crlf @ ''Content-Type: '' @ content_type @
       crlf @ ''Transfer-Encoding: chunked'' @ crlf @ ''Connection: keep-alive'' @ crlf @ crlf)"

definition write_chunk :: "bytes \<Rightarrow> effect list" where
  "write_chunk data =
     (if data = [] then []
      else [Ef_send (bytes_of_string (show_hex (length data) @ crlf) @ data @ bytes_of_string crlf)])"

definition write_chunk_sync :: "bytes \<Rightarrow> effect list" where
  "write_chunk_sync data =
     (if data = [] then []
      else [Ef_send (bytes_of_string (show_hex (length data) @ crlf) @ data @ bytes_of_string crlf)])"

definition finish_chunked :: "effect list" where
  "finish_chunked = [Ef_send (bytes_of_string (''0'' @ crlf @ crlf))]"

definition finish_written :: "bool \<Rightarrow> bool \<Rightarrow> 'p session \<Rightarrow> 'p session \<times> effect list" where
  "finish_written failed keep_alive s =
     (if failed then (s, []) else if keep_alive then do_read s else (s, [Ef_close]))"

definition sent :: "effect list \<Rightarrow> bytes" where
  "sent es = concat (map (\<lambda>e. case e of Ef_send b \<Rightarrow> b | _ \<Rightarrow> []) es)"

section \<open>Chunked bodies decode to what was written\<close>

text \<open>
  The specification: a reference decoder of the chunked transfer coding (hexadecimal size, CRLF,
  data, CRLF, up to the empty chunk with no trailers).
\<close>

definition is_hex :: "byte \<Rightarrow> bool" where
  "is_hex b = (digit_val (char_of_byte b) \<noteq> None)"

definition hex_size :: "bytes \<Rightarrow> nat" where
  "hex_size b = read_base 16 (string_of_bytes (takeWhile is_hex b))"

function decode_chunked :: "bytes \<Rightarrow> bytes option" where
  "decode_chunked b =
     (let n = hex_size b; rest = dropWhile is_hex b
      in if takeWhile is_hex b = [] \<or> take 2 rest \<noteq> bytes_of_string crlf then None
         else if n = 0 then (if drop 2 rest = bytes_of_string crlf then Some [] else None)
         else if length rest < n + 4 \<or> take 2 (drop (n + 2) rest) \<noteq> bytes_of_string crlf then None
         else map_option ((@) (take n (drop 2 rest))) (decode_chunked (drop (n + 4) rest)))"
  by pat_completeness auto
termination
proof (relation "measure length")
  fix b :: bytes and n rest
  assume n: "n = hex_size b" and r: "rest = dropWhile is_hex b"
    and ok: "\<not> (takeWhile is_hex b = [] \<or> take 2 rest \<noteq> bytes_of_string crlf)"
    and big: "\<not> (length rest < n + 4 \<or> take 2 (drop (n + 2) rest) \<noteq> bytes_of_string crlf)"
  have "length rest \<le> length b" using r by (simp add: length_dropWhile_le)
  moreover have "n + 4 \<le> length rest" using big by linarith
  then have "length (drop (n + 4) rest) < length rest" by simp
  ultimately show "(drop (n + 4) rest, b) \<in> measure length" by simp
qed simp

declare decode_chunked.simps [simp del]

lemma crlf_not_hex: "\<not> is_hex (byte_of_char (CHR 0x0D))"
  by (simp add: is_hex_def digit_val_def)

lemma hex_prefix:
  "takeWhile is_hex (bytes_of_string (show_hex n @ crlf) @ x) = bytes_of_string (show_hex n)"
  "dropWhile is_hex (bytes_of_string (show_hex n @ crlf) @ x) = bytes_of_string crlf @ x"
proof -
  have d: "is_hex b" if "b \<in> set (bytes_of_string (show_hex n))" for b
    using that show_base_digits [of 16 _ n] by (auto simp: bytes_of_string_def is_hex_def show_hex_def)
  have t: "bytes_of_string crlf = byte_of_char (CHR 0x0D) # bytes_of_string [CHR 0x0A]"
    by (simp add: bytes_of_string_def crlf_def)
  show "takeWhile is_hex (bytes_of_string (show_hex n @ crlf) @ x) = bytes_of_string (show_hex n)"
    using d by (simp add: takeWhile_append t crlf_not_hex)
  show "dropWhile is_hex (bytes_of_string (show_hex n @ crlf) @ x) = bytes_of_string crlf @ x"
    using d by (simp add: dropWhile_append t crlf_not_hex)
qed

lemma length_crlf [simp]: "length crlf = 2"
  by (simp add: crlf_def)

lemma hex_size_prefix: "hex_size (bytes_of_string (show_hex n @ crlf) @ x) = n"
  unfolding hex_size_def hex_prefix(1) string_of_bytes_of_string
  by (simp add: show_hex_def read_show_base)

lemma decode_one:
  "data \<noteq> [] \<Longrightarrow> decode_chunked (sent (write_chunk data) @ rest) =
     map_option ((@) data) (decode_chunked rest)"
proof -
  assume data: "data \<noteq> []"
  let ?b = "bytes_of_string (show_hex (length data) @ crlf) @ (data @ bytes_of_string crlf @ rest)"
  have "sent (write_chunk data) @ rest = ?b" using data by (simp add: sent_def write_chunk_def)
  moreover have "takeWhile is_hex ?b \<noteq> []"
    unfolding hex_prefix(1) by (simp add: bytes_of_string_def show_hex_def)
  moreover have "dropWhile is_hex ?b = bytes_of_string crlf @ data @ bytes_of_string crlf @ rest"
    by (rule hex_prefix(2))
  ultimately show ?thesis
    using data hex_size_prefix [of "length data" "data @ bytes_of_string crlf @ rest"]
    by (subst decode_chunked.simps) (simp add: Let_def)
qed

lemma decode_end: "decode_chunked (sent finish_chunked) = Some []"
  by (subst decode_chunked.simps)
    (simp add: sent_def finish_chunked_def bytes_of_string_def is_hex_def digit_val_def crlf_def
      hex_size_def read_base_def string_of_bytes_def Let_def)

lemma sync_writer: "write_chunk_sync = write_chunk"
  by (simp add: fun_eq_iff write_chunk_sync_def write_chunk_def)

lemma sent_append: "sent (a @ b) = sent a @ sent b"
  by (simp add: sent_def)

lemma sent_concat: "sent (concat ess) = concat (map sent ess)"
  by (induction ess) (simp_all add: sent_append, simp add: sent_def)

lemma decode_chunks:
  "decode_chunked (concat (map (\<lambda>d. sent (write_chunk d)) datas) @ sent finish_chunked) = Some (concat datas)"
proof (induction datas)
  case (Cons d ds)
  show ?case
  proof (cases "d = []")
    case True
    then show ?thesis using Cons by (simp add: write_chunk_def sent_def)
  next
    case False
    then show ?thesis using Cons by (simp add: decode_one)
  qed
qed (simp add: decode_end)

text \<open>
  C23: chunked bodies are framed correctly.  Whatever chunks a stream writes (empty ones included,
  by the asynchronous or the blocking writer) followed by the final chunk, the reference decoder
  of the chunked transfer coding reads back exactly their concatenation.
\<close>

theorem chunked_round_trip:
  "decode_chunked (sent (concat (map write_chunk datas) @ finish_chunked)) = Some (concat datas) \<and>
   map write_chunk_sync datas = map write_chunk datas"
  using decode_chunks [of datas] by (simp add: sent_append sent_concat comp_def sync_writer)

section \<open>The request target\<close>

text \<open>
  The target is split at its first question mark.  A target that arrives in one piece gives
  \<open>path\<close> and \<open>query\<close> with \<open>url = path\<close>, or \<open>url = path ? query\<close>, and no question mark in \<open>path\<close>; the
  rest of the request is left alone.
\<close>

theorem on_url_splits:
  fixes at meth :: string
  assumes "hq_url (ss_req s) = []"
  defines "r \<equiv> ss_req (on_url at meth s)"
  shows "hq_url r = at \<and> hq_method r = meth \<and> CHR ''?'' \<notin> set (hq_path r) \<and>
    (if CHR ''?'' \<in> set at then at = hq_path r @ ''?'' @ hq_query r
     else at = hq_path r \<and> hq_query r = []) \<and>
    hq_headers r = hq_headers (ss_req s) \<and> hq_body r = hq_body (ss_req s)"
proof (cases "find_char (CHR ''?'') at")
  case None
  then have "CHR ''?'' \<notin> set at" by (rule find_char_None_iff [THEN iffD1])
  then show ?thesis using assms(1) None by (simp add: r_def on_url_def Let_def)
next
  case (Some q)
  note split = find_char_Some_split [OF Some]
  have "CHR ''?'' \<in> set at" using Some find_char_None_iff [of "CHR ''?''" at] by auto
  then show ?thesis using assms(1) Some split by (simp add: r_def on_url_def Let_def)
qed

theorem on_url_splits_witness:
  "hq_path (ss_req (on_url ''/a?b?c'' ''GET'' (session_init ()))) = ''/a'' \<and>
   ''/a?b?c'' = hq_path (ss_req (on_url ''/a?b?c'' ''GET'' (session_init ()))) @ ''?'' @
      hq_query (ss_req (on_url ''/a?b?c'' ''GET'' (session_init ())))"
proof -
  have "hq_url (ss_req (session_init ())) = []" by (simp add: session_init_def empty_request_def)
  from on_url_splits [OF this, of "''/a?b?c''" "''GET''"] show ?thesis
    by (simp add: on_url_def session_init_def Let_def)
qed

section \<open>Headers\<close>

definition header_callbacks :: "(string \<times> string) list \<Rightarrow> callback list" where
  "header_callbacks hs = concat (map (\<lambda>(n, v). [Cb_header_field n, Cb_header_value v]) hs)"

text \<open>The keys the code files the values under: each name with all the names before it in front.\<close>

fun filed :: "string \<Rightarrow> (string \<times> string) list \<Rightarrow> (string \<times> string) list" where
  "filed acc [] = []"
| "filed acc ((n, v) # hs) = (lower (acc @ n), v) # filed (acc @ n) hs"

fun store_all :: "(string \<times> string) list \<Rightarrow> (string \<Rightarrow> string option) \<Rightarrow> string \<Rightarrow> string option" where
  "store_all [] m = m"
| "store_all ((k, v) # kvs) m = store_all kvs (m(k := Some v))"

lemma store_all_append: "store_all (xs @ [(k, v)]) m = (store_all xs m)(k := Some v)"
  by (induction xs arbitrary: m) auto

lemma filed_append: "filed acc (xs @ [(n, v)]) = filed acc xs @ [(lower (acc @ concat (map fst xs) @ n), v)]"
  by (induction xs arbitrary: acc) auto

text \<open>After some headers: all but the last are filed, the last value is waiting.\<close>

lemma headers_progress:
  assumes "list_all (\<lambda>(n, v). n \<noteq> [] \<and> v \<noteq> []) (hs @ [(n, v)])"
    and "ss_header_name s = []" and "ss_header_value s = []"
  shows "fold on_callback (header_callbacks (hs @ [(n, v)])) s =
    s\<lparr>ss_req := (ss_req s)\<lparr>hq_headers := store_all (filed [] hs)
        (hq_headers (ss_req s))\<rparr>,
      ss_header_name := concat (map fst hs) @ n, ss_header_value := v\<rparr>"
  using assms(1)
proof (induction hs arbitrary: n v rule: rev_induct)
  case Nil
  then show ?case
    using assms(2,3) by (simp add: header_callbacks_def on_header_field_def on_header_value_def Let_def)
next
  case (snoc h hs)
  obtain n' v' where h: "h = (n', v')" by fastforce
  have IH: "fold on_callback (header_callbacks (hs @ [(n', v')])) s =
    s\<lparr>ss_req := (ss_req s)\<lparr>hq_headers := store_all (filed [] hs)
        (hq_headers (ss_req s))\<rparr>,
      ss_header_name := concat (map fst hs) @ n', ss_header_value := v'\<rparr>"
    by (rule snoc.IH) (use snoc.prems h in auto)
  have split: "header_callbacks ((hs @ [h]) @ [(n, v)]) =
      header_callbacks (hs @ [(n', v')]) @ [Cb_header_field n, Cb_header_value v]"
    by (simp add: header_callbacks_def h)
  show ?case
    unfolding split fold_append comp_apply IH
    using snoc.prems h
    by (simp add: on_header_field_def on_header_value_def put_header_def filed_append store_all_append fun_upd_def
        Let_def)
qed

text \<open>
  How headers are filed.  For a request whose headers arrive whole with non-empty names and
  values, the header table after the end of the headers holds the \<open>i\<close>-th value under the lower-cased
  concatenation of the first \<open>i\<close> names: the first header is filed under its own name, every later one
  under a key that also contains the names before it.
\<close>

theorem header_names_accumulate:
  assumes "list_all (\<lambda>(n, v). n \<noteq> [] \<and> v \<noteq> []) hs" and "hs \<noteq> []"
    and "t = fold on_callback (Cb_message_begin # header_callbacks hs @ [Cb_headers_complete 1 1]) s"
  shows "hq_headers (ss_req t) = store_all (filed [] hs) (\<lambda>_. None) \<and>
    hq_headers (ss_req t) (lower (concat (map fst hs))) = Some (snd (last hs))"
proof -
  obtain gs n v where hs: "hs = gs @ [(n, v)]" using assms(2) by (metis rev_exhaust prod.exhaust)
  let ?s = "on_message_begin s"
  have "fold on_callback (header_callbacks hs) ?s =
    ?s\<lparr>ss_req := (ss_req ?s)\<lparr>hq_headers := store_all (filed [] gs)
        (hq_headers (ss_req ?s))\<rparr>,
      ss_header_name := concat (map fst gs) @ n, ss_header_value := v\<rparr>"
    unfolding hs by (rule headers_progress) (use assms(1) hs in \<open>auto simp: on_message_begin_def\<close>)
  then have t: "t = on_headers_complete 1 1 (?s\<lparr>ss_req := (ss_req ?s)\<lparr>hq_headers :=
        store_all (filed [] gs) (hq_headers (ss_req ?s))\<rparr>,
      ss_header_name := concat (map fst gs) @ n, ss_header_value := v\<rparr>)"
    using assms(3) by simp
  have "n \<noteq> []" using assms(1) hs by simp
  then have "hq_headers (ss_req t) =
      (store_all (filed [] gs) (\<lambda>_. None))
        (lower (concat (map fst gs) @ n) := Some v)"
    unfolding t by (simp add: on_headers_complete_def put_header_def on_message_begin_def
        empty_request_def Let_def split: option.splits)
  then show ?thesis by (simp add: hs filed_append store_all_append)
qed

theorem header_names_accumulate_witness:
  "hq_headers (ss_req (fold on_callback
       (Cb_message_begin # header_callbacks [(''Host'', ''h''), (''Connection'', ''close'')] @
        [Cb_headers_complete 1 1]) (session_init ()))) ''connection'' = None \<and>
   hq_headers (ss_req (fold on_callback
       (Cb_message_begin # header_callbacks [(''Host'', ''h''), (''Connection'', ''close'')] @
        [Cb_headers_complete 1 1]) (session_init ()))) ''hostconnection'' = Some ''close''"
proof -
  have l: "lower ''HostConnection'' = ''hostconnection''" "lower ''Host'' = ''host''"
    by code_simp+
  show ?thesis
    using header_names_accumulate [of "[(''Host'', ''h''), (''Connection'', ''close'')]", OF _ _ refl,
        of "session_init ()"] l
    by simp
qed

section \<open>Keep-alive\<close>

text \<open>
  The connection persists exactly when the request asks for it.  At the end of the headers the
  session decides to close after the response if the header table has \<open>close\<close> (in any case) under
  \<open>connection\<close>, or has no such entry and the request is HTTP/1.0; and a response that has been
  written then closes the socket or reads the next request accordingly, announcing the same choice
  in its \<open>Connection\<close> header.
\<close>

theorem keep_alive_decision:
  fixes major minor :: nat
  assumes "ss_header_name s = []"
  defines "t \<equiv> on_headers_complete major minor s"
  shows "ss_close_after t = (case hq_headers (ss_req s) ''connection'' of
      Some v \<Rightarrow> lower v = ''close'' | None \<Rightarrow> major = 1 \<and> minor = 0) \<and>
    snd (response_written False t) = (if ss_close_after t then [Ef_close] else [Ef_read]) \<and>
    (\<exists>front. sent (send_response resp t) = bytes_of_string (front @
       ''Connection: '' @ (if ss_close_after t then ''close'' else ''keep-alive'') @ crlf @ crlf) @
       hs_body resp)"
proof -
  have "\<exists>front. sent (send_response resp t) = bytes_of_string (front @
       ''Connection: '' @ (if ss_close_after t then ''close'' else ''keep-alive'') @ crlf @ crlf) @
       hs_body resp"
    by (rule exI [of _ "response_front resp"]) (simp add: send_response_def sent_def bytes_of_string_def Let_def)
  then show ?thesis
    using assms(1)
    by (auto simp: t_def on_headers_complete_def response_written_def do_read_def Let_def
        split: option.splits)
qed

theorem keep_alive_decision_witness:
  "ss_close_after (on_headers_complete 1 0 (session_init ()))"
proof -
  have "ss_header_name (session_init ()) = []" by (simp add: session_init_def)
  from keep_alive_decision [OF this, of 1 0] show ?thesis
    by (simp add: session_init_def empty_request_def)
qed

section \<open>What the parser is fed\<close>

lemma fold_callbacks_frame [simp]:
  "ss_parser (fold on_callback cbs s) = ss_parser s" "ss_buffer (fold on_callback cbs s) = ss_buffer s"
proof (induction cbs arbitrary: s)
  case (Cons c cbs)
  {
    case 1
    show ?case using Cons by (cases c) (auto simp: on_message_begin_def on_url_def on_header_field_def
        on_header_value_def on_headers_complete_def on_body_def on_message_complete_def Let_def
        split: option.splits)
  next
    case 2
    show ?case using Cons by (cases c) (auto simp: on_message_begin_def on_url_def on_header_field_def
        on_header_value_def on_headers_complete_def on_body_def on_message_complete_def Let_def
        split: option.splits)
  }
qed simp_all

lemma parse_fed:
  "ss_buffer s \<noteq> [] \<Longrightarrow>
    ss_parser (parse_http_data L s) = fst (ll_execute L (ss_parser s) (ss_buffer s)) \<and>
    ss_buffer (parse_http_data L s) = ss_buffer s"
  by (auto simp: parse_http_data_def Let_def split: prod.splits)

lemma read_done_incomplete:
  assumes "read_done L (Some d) (fst (do_read s)) = (t, [Ef_read])" and "d \<noteq> []"
  shows "ss_parser t = fst (ll_execute L (ss_parser s) (ss_buffer s @ d)) \<and>
    (\<exists>u. t = fst (do_read u) \<and> ss_parser u = ss_parser t \<and> ss_buffer u = ss_buffer s @ d)"
proof -
  define s1 where "s1 = parse_http_data L (s\<lparr>ss_buffer := ss_buffer s @ d\<rparr>)"
  have "\<not> ss_message_complete s1" and t: "t = fst (do_read s1)"
    using assms(1) by (auto simp: read_done_def do_read_def s1_def handle_request_def Let_def
        split: if_splits)
  moreover have "ss_parser s1 = fst (ll_execute L (ss_parser s) (ss_buffer s @ d)) \<and>
      ss_buffer s1 = ss_buffer s @ d"
    using parse_fed [of "s\<lparr>ss_buffer := ss_buffer s @ d\<rparr>" L] assms(2) by (simp add: s1_def)
  moreover have "ss_parser (fst (do_read s1)) = ss_parser s1" by (simp add: do_read_def)
  ultimately show ?thesis by auto
qed

text \<open>
  A request that needs two reads is parsed from its start again.  With any parser whose state
  remembers the bytes it has been given, after two reads that complete no message the parser has
  been given the first piece, then the first piece once more, then the second.
\<close>

theorem first_piece_parsed_twice:
  assumes "\<And>p b. log (fst (ll_execute L p b)) = log p @ b" and "d1 \<noteq> []" and "d2 \<noteq> []"
    and "read_done L (Some d1) (fst (do_read (session_init p))) = (s1, [Ef_read])"
    and "read_done L (Some d2) s1 = (s2, [Ef_read])"
  shows "log (ss_parser s2) = log p @ d1 @ (d1 @ d2)"
proof -
  obtain u where s1: "s1 = fst (do_read u)" and u: "ss_parser u = fst (ll_execute L p d1)"
      "ss_buffer u = d1"
    using read_done_incomplete [OF assms(4,2)] by (auto simp: session_init_def)
  show ?thesis
    using read_done_incomplete [OF assms(5) [unfolded s1] assms(3)] u assms(1) by simp
qed

definition log_parser :: "bytes llhttp" where
  "log_parser = \<lparr>ll_execute = (\<lambda>p b. (p @ b, [], True)), ll_reset = (\<lambda>p. [])\<rparr>"

theorem first_piece_parsed_twice_witness:
  "\<exists>s1 s2. read_done log_parser (Some [1]) (fst (do_read (session_init []))) = (s1, [Ef_read]) \<and>
     read_done log_parser (Some [2]) s1 = (s2, [Ef_read]) \<and> ss_parser s2 = [1, 1, 2]"
proof -
  let ?s1 = "fst (read_done log_parser (Some [1]) (fst (do_read (session_init []))))"
  let ?s2 = "fst (read_done log_parser (Some [2]) ?s1)"
  have log: "\<And>p b. id (fst (ll_execute log_parser p b)) = id p @ b" by (simp add: log_parser_def)
  have r1: "read_done log_parser (Some [1]) (fst (do_read (session_init []))) = (?s1, [Ef_read])"
    and r2: "read_done log_parser (Some [2]) ?s1 = (?s2, [Ef_read])"
    by (simp_all add: read_done_def do_read_def session_init_def parse_http_data_def log_parser_def
        Let_def)
  have "id (ss_parser ?s2) = id [] @ [1] @ ([1] @ [2])"
    by (rule first_piece_parsed_twice [OF log _ _ r1 r2]) simp_all
  then show ?thesis using r1 r2 by auto
qed

text \<open>
  A request does not leak into the next one.  After a request has been handed over, and again
  when llhttp announces the next message, the session's request, header and completion state is
  exactly that of a new session, whatever came before; what is handed over is the request that was
  assembled.
\<close>

theorem request_state_reset:
  "case handle_request L s of (t, es) \<Rightarrow>
     es = [Ef_handle (ss_req s)] \<and>
     t = (session_init (ll_reset L (ss_parser s)))\<lparr>ss_close_after := ss_close_after s\<rparr> \<and>
     on_message_begin s = (session_init (ss_parser s))
       \<lparr>ss_buffer := ss_buffer s, ss_close_after := ss_close_after s\<rparr>"
  by (simp add: handle_request_def session_init_def on_message_begin_def)

end
