(* ===== verification/HostHttp.thy ===== *)
theory HostHttp
  imports JsApi HttpSession
begin

text \<open>
  The HTTP side of a host (\<open>src/host.cpp\<close>): the table of connections waiting for a response, the
  handler \<open>start_http_server\<close> installs, the native that answers when JavaScript has a response, the
  response it builds from a JS object, and the JavaScript text the handler makes of the request
  headers.  Sessions are numbers; what a JS evaluation yields is an argument of the event.
\<close>

section \<open>The response built from a JS object\<close>

definition response_status :: "('v, 'h, 'x) js_scheme \<Rightarrow> 'v qvalue \<Rightarrow> 'h \<Rightarrow> int \<times> 'h" where
  "response_status J data h =
     (case q_get J data ''status'' h of (v, h1) \<Rightarrow>
        (case q_to_int32 J v h1 of
           (None, h2) \<Rightarrow> (200, h2)
         | (Some i, h2) \<Rightarrow> (sint i, h2)))"

definition response_text :: "('v, 'h, 'x) js_scheme \<Rightarrow> 'v qvalue \<Rightarrow> 'h \<Rightarrow> string \<times> 'h" where
  "response_text J data h =
     (case q_get J data ''statusText'' h of (v, h1) \<Rightarrow>
        (case q_to_std_string J v h1 of (s, h2) \<Rightarrow> (case s of None \<Rightarrow> [] | Some t \<Rightarrow> t, h2)))"

definition response_body :: "('v, 'h, 'x) js_scheme \<Rightarrow> 'v qvalue \<Rightarrow> 'h \<Rightarrow> bytes \<times> 'h" where
  "response_body J data h =
     (case q_get J data ''body'' h of (v, h1) \<Rightarrow>
        (case q_is_uint8_array J v h1 of (u8, h2) \<Rightarrow>
           if u8 \<or> q_is_array_buffer J v then q_to_bytes J v h2
           else (case q_to_std_string J v h2 of
                   (s, h3) \<Rightarrow> (case s of None \<Rightarrow> [] | Some t \<Rightarrow> bytes_of_string t, h3))))"

definition set_header :: "string \<Rightarrow> string \<Rightarrow> (string \<times> string) list \<Rightarrow> (string \<times> string) list" where
  "set_header k v hs = filter (\<lambda>p. fst p \<noteq> k) hs @ [(k, v)]"

text \<open>\<open>arr\<close> is the flat array \<open>[k0, v0, k1, v1, ...]\<close>.\<close>

fun header_pairs ::
  "('v, 'h, 'x) js_scheme \<Rightarrow> 'v qvalue \<Rightarrow> nat list \<Rightarrow> (string \<times> string) list \<Rightarrow> 'h
     \<Rightarrow> (string \<times> string) list \<times> 'h" where
  "header_pairs J arr [] hs h = (hs, h)"
| "header_pairs J arr (i # is) hs h =
     (case q_get J arr (show_nat i) h of (kv, h1) \<Rightarrow>
        (case q_get J arr (show_nat (i + 1)) h1 of (vv, h2) \<Rightarrow>
           (case q_to_std_string J kv h2 of (k, h3) \<Rightarrow>
              (case q_to_std_string J vv h3 of (v, h4) \<Rightarrow>
                 header_pairs J arr is
                   (case (k, v) of (Some a, Some b) \<Rightarrow> set_header a b hs | _ \<Rightarrow> hs) h4))))"

text \<open>\<open>flatten\<close> evaluates the snippet that flattens the headers object.\<close>

definition response_headers ::
  "('v, 'h, 'x) js_scheme \<Rightarrow> ('v \<Rightarrow> 'h \<Rightarrow> 'v \<times> 'h) \<Rightarrow> 'v qvalue \<Rightarrow> 'h
     \<Rightarrow> (string \<times> string) list \<times> 'h" where
  "response_headers J flatten data h =
     (case q_get J data ''headers'' h of
        (None, h1) \<Rightarrow> ([], h1)
      | (Some hv, h1) \<Rightarrow>
          (case flatten hv h1 of (arr, h2) \<Rightarrow>
             if js_is_exception J arr then ([], q_dump_exception J h2)
             else (case q_get J (Some arr) ''length'' h2 of (lv, h3) \<Rightarrow>
                     (case q_to_int32 J lv h3 of (c, h4) \<Rightarrow>
                        (let count = nat (case c of None \<Rightarrow> 0 | Some i \<Rightarrow> sint i)
                         in header_pairs J (Some arr) (map (\<lambda>k. 2 * k) [0..<(count + 1) div 2]) [] h4)))))"

definition native_response ::
  "('v, 'h, 'x) js_scheme \<Rightarrow> ('v \<Rightarrow> 'h \<Rightarrow> 'v \<times> 'h) \<Rightarrow> 'v qvalue \<Rightarrow> 'h \<Rightarrow> http_response \<times> 'h" where
  "native_response J flatten data h =
     (case response_status J data h of (st, h1) \<Rightarrow>
        (case response_text J data h1 of (tx, h2) \<Rightarrow>
           (case response_body J data h2 of (bd, h3) \<Rightarrow>
              (case response_headers J flatten data h3 of (hs, h4) \<Rightarrow>
                 (\<lparr>hs_status = st, hs_status_text = tx, hs_headers = hs, hs_body = bd\<rparr>, h4)))))"

text \<open>\<open>send_js_response\<close> only passes two headers on.\<close>

definition one_header ::
  "('v, 'h, 'x) js_scheme \<Rightarrow> 'v qvalue \<Rightarrow> string \<Rightarrow> (string \<times> string) list \<times> 'h
     \<Rightarrow> (string \<times> string) list \<times> 'h" where
  "one_header J hv name r =
     (case r of (hs, h) \<Rightarrow>
        (case q_get J hv name h of (v, h1) \<Rightarrow>
           (case q_to_std_string J v h1 of
              (None, h2) \<Rightarrow> (hs, h2)
            | (Some s, h2) \<Rightarrow> (set_header name s hs, h2))))"

definition direct_response ::
  "('v, 'h, 'x) js_scheme \<Rightarrow> 'v qvalue \<Rightarrow> 'h \<Rightarrow> http_response \<times> 'h" where
  "direct_response J data h =
     (case response_status J data h of (st, h1) \<Rightarrow>
        (case response_text J data h1 of (tx, h2) \<Rightarrow>
           (case response_body J data h2 of (bd, h3) \<Rightarrow>
              (case q_get J data ''headers'' h3 of (hv, h4) \<Rightarrow>
                 (case (if hv = None then ([], h4)
                        else one_header J hv ''x-test'' (one_header J hv ''content-type'' ([], h4))) of
                    (hs, h5) \<Rightarrow>
                      (\<lparr>hs_status = st, hs_status_text = tx, hs_headers = hs, hs_body = bd\<rparr>, h5))))))"

section \<open>The table of connections\<close>

text \<open>
  \<open>hh_tmp\<close> is the JS global \<open>__httpConnIdTmp\<close>; \<open>hh_open\<close> the requests whose promise has not settled;
  \<open>hh_sent\<close> the responses sent, latest first: connection, session, request answered, response;
  \<open>hh_streamed\<close> the requests that ended streamed, whose response did not go through the table.
  \<open>hh_log\<close> is what the server has delivered: which session came with which connection.
\<close>

record http_host =
  hh_next :: "64 word"
  hh_issued :: nat
  hh_conns :: "64 word \<Rightarrow> nat option"
  hh_tmp :: "32 word"
  hh_open :: "64 word list"
  hh_sent :: "(64 word \<times> nat \<times> 64 word \<times> http_response) list"
  hh_streamed :: "64 word list"
  hh_log :: "(64 word \<times> nat) list"

definition http_init :: http_host where
  "http_init =
     \<lparr>hh_next = 1, hh_issued = 0, hh_conns = (\<lambda>_. None), hh_tmp = 0, hh_open = [], hh_sent = [],
      hh_streamed = [], hh_log = []\<rparr>"

definition plain_response :: "string \<Rightarrow> (string \<times> string) list \<Rightarrow> http_response" where
  "plain_response body hs =
     \<lparr>hs_status = 500, hs_status_text = [], hs_headers = hs, hs_body = bytes_of_string body\<rparr>"

definition accept_request :: "nat \<Rightarrow> http_host \<Rightarrow> http_host" where
  "accept_request sess s =
     s\<lparr>hh_next := hh_next s + 1, hh_issued := Suc (hh_issued s),
       hh_conns := (hh_conns s)(hh_next s := Some sess)\<rparr>"

definition drop_conn :: "64 word \<Rightarrow> http_host \<Rightarrow> http_host" where
  "drop_conn c s = s\<lparr>hh_conns := (hh_conns s)(c := None)\<rparr>"

text \<open>Answer connection \<open>c\<close> for request \<open>r\<close>: \<open>send_js_response\<close>, \<open>send_http_response_native\<close>.\<close>

definition answer :: "64 word \<Rightarrow> 64 word \<Rightarrow> http_response \<Rightarrow> http_host \<Rightarrow> http_host" where
  "answer c r resp s =
     (case hh_conns s c of
        None \<Rightarrow> s
      | Some sess \<Rightarrow> (drop_conn c s)\<lparr>hh_sent := (c, sess, r, resp) # hh_sent s\<rparr>)"

definition send_http_response_native ::
  "32 word \<Rightarrow> 64 word \<Rightarrow> http_response \<Rightarrow> http_host \<Rightarrow> http_host" where
  "send_http_response_native conn_id r resp s = answer (scast conn_id) r resp s"

text \<open>How the evaluations in the request handler go.\<close>

datatype request_out =
    Ro_exception
  | Ro_direct http_response
  | Ro_then_exception
  | Ro_pending

definition start_request :: "nat \<Rightarrow> request_out \<Rightarrow> http_host \<Rightarrow> http_host" where
  "start_request sess out s =
     (let c = hh_next s; s1 = accept_request sess (s\<lparr>hh_log := (c, sess) # hh_log s\<rparr>)
      in case out of
           Ro_exception \<Rightarrow>
             drop_conn c (s1\<lparr>hh_sent := (c, sess, c, plain_response ''Internal Error'' []) # hh_sent s1\<rparr>)
         | Ro_direct resp \<Rightarrow> answer c c resp s1
         | Ro_then_exception \<Rightarrow>
             (let s2 = s1\<lparr>hh_tmp := ucast c\<rparr>
              in drop_conn c (s2\<lparr>hh_sent :=
                   (c, sess, c, plain_response ''Handler Error'' [(''content-type'', ''text/plain'')])
                     # hh_sent s2\<rparr>))
         | Ro_pending \<Rightarrow> s1\<lparr>hh_tmp := ucast c, hh_open := hh_open s1 @ [c]\<rparr>)"

text \<open>The promise of request \<open>r\<close> settles; a streamed response has been sent already.\<close>

datatype settle_out = Sx_streamed | Sx_response http_response

definition settle_request :: "64 word \<Rightarrow> settle_out \<Rightarrow> http_host \<Rightarrow> http_host" where
  "settle_request r out s =
     (let s1 = s\<lparr>hh_open := removeAll r (hh_open s)\<rparr>
      in case out of
           Sx_streamed \<Rightarrow> s1\<lparr>hh_streamed := r # hh_streamed s1\<rparr>
         | Sx_response resp \<Rightarrow> send_http_response_native (hh_tmp s1) r resp s1)"

datatype http_event = Hr_request nat request_out | Hr_settle "64 word" settle_out

fun http_step :: "http_event \<Rightarrow> http_host \<Rightarrow> http_host option" where
  "http_step (Hr_request sess out) s = Some (start_request sess out s)"
| "http_step (Hr_settle r out) s =
     (if r \<in> set (hh_open s) then Some (settle_request r out s) else None)"

section \<open>Each connection is answered once\<close>

definition conn_limit :: nat where
  "conn_limit = 2 ^ 31 - 1"

definition conns_ok :: "http_host \<Rightarrow> bool" where
  "conns_ok s \<longleftrightarrow>
     unat (hh_next s) = Suc (hh_issued s) \<and>
     (\<forall>c. hh_conns s c \<noteq> None \<longrightarrow> unat c \<le> hh_issued s) \<and>
     (\<forall>c \<in> set (hh_open s). unat c \<le> hh_issued s) \<and>
     distinct (hh_open s)"

definition sent_ok :: "http_host \<Rightarrow> bool" where
  "sent_ok s \<longleftrightarrow>
     distinct (map fst (hh_sent s)) \<and>
     (\<forall>c \<in> fst ` set (hh_sent s). unat c \<le> hh_issued s \<and> hh_conns s c = None)"

text \<open>A connection delivered is in the table with its session, or was answered on it.\<close>

definition log_ok :: "http_host \<Rightarrow> bool" where
  "log_ok s \<longleftrightarrow>
     distinct (map fst (hh_log s)) \<and> (\<forall>c \<in> fst ` set (hh_log s). unat c \<le> hh_issued s) \<and>
     (\<forall>c sess. (c, sess) \<in> set (hh_log s) \<longleftrightarrow>
        hh_conns s c = Some sess \<or> (c, sess) \<in> (\<lambda>(c, sess, r, resp). (c, sess)) ` set (hh_sent s))"

definition table_ok :: "http_host \<Rightarrow> bool" where
  "table_ok s \<longleftrightarrow> conns_ok s \<and> sent_ok s \<and> log_ok s"

definition http_inv :: "http_host \<Rightarrow> bool" where
  "http_inv s \<longleftrightarrow> (if hh_issued s < conn_limit then table_ok s else True)"

lemma next_conn:
  assumes "unat (n :: 64 word) = Suc m" and "Suc m < conn_limit"
  shows "unat (n + 1) = Suc (Suc m)"
  using assms unat_add_lem [of n 1] by (simp add: conn_limit_def)

interpretation conn_ids: id_table hh_next "\<lambda>s :: http_host. dom (hh_conns s)" "accept_request sess" drop_conn
  "\<lambda>s :: http_host. unat (hh_next s) = Suc (hh_issued s) \<and> (\<forall>c. hh_conns s c \<noteq> None \<longrightarrow> unat c \<le> hh_issued s)"
  "\<lambda>s :: http_host. Suc (hh_issued s) < conn_limit"
proof unfold_locales
  fix s :: http_host assume "unat (hh_next s) = Suc (hh_issued s) \<and> (\<forall>c. hh_conns s c \<noteq> None \<longrightarrow> unat c \<le> hh_issued s)"
  then show "hh_next s \<notin> dom (hh_conns s)" by (metis domIff Suc_n_not_le_n)
next
  fix s :: http_host assume "unat (hh_next s) = Suc (hh_issued s) \<and> (\<forall>c. hh_conns s c \<noteq> None \<longrightarrow> unat c \<le> hh_issued s)"
    and "Suc (hh_issued s) < conn_limit"
  then show "unat (hh_next (accept_request sess s)) = Suc (hh_issued (accept_request sess s)) \<and>
      (\<forall>c. hh_conns (accept_request sess s) c \<noteq> None \<longrightarrow> unat c \<le> hh_issued (accept_request sess s))"
    using next_conn by (auto simp: accept_request_def le_SucI)
qed (auto simp: accept_request_def drop_conn_def dom_def)

lemma answer_cases:
  obtains "hh_conns s c = None" "answer c r resp s = s"
  | sess where "hh_conns s c = Some sess"
      "answer c r resp s = s\<lparr>hh_conns := (hh_conns s)(c := None), hh_sent := (c, sess, r, resp) # hh_sent s\<rparr>"
  by (cases "hh_conns s c") (auto simp: answer_def drop_conn_def)

lemma answer_ok:
  assumes "table_ok s"
  shows "table_ok (answer c r resp s)"
proof (cases rule: answer_cases [of s c r resp])
  case 1
  then show ?thesis using assms by simp
next
  case (2 sess)
  then have "conns_ok (answer c r resp s)" "sent_ok (answer c r resp s)"
    using assms by (auto simp: table_ok_def conns_ok_def sent_ok_def)
  moreover have "log_ok (answer c r resp s)" using assms 2 by (auto simp: table_ok_def log_ok_def)
  ultimately show ?thesis by (simp add: table_ok_def)
qed

lemma accept_ok:
  fixes sess :: nat
  assumes "table_ok s" and "Suc (hh_issued s) < conn_limit"
  defines "t \<equiv> accept_request sess (s\<lparr>hh_log := (hh_next s, sess) # hh_log s\<rparr>)"
  shows "table_ok t" "hh_next s \<notin> set (hh_open s)"
proof -
  have conns: "conns_ok s" and sent: "sent_ok s" and log: "log_ok s" using assms(1) by (simp_all add: table_ok_def)
  have n: "unat (hh_next s) = Suc (hh_issued s)" using conns by (simp add: conns_ok_def)
  then have n1: "unat (hh_next s + 1) = Suc (Suc (hh_issued s))" using next_conn assms(2) by blast
  show o: "hh_next s \<notin> set (hh_open s)" using conns n by (fastforce simp: conns_ok_def)
  have x: "hh_next s \<notin> fst ` set (hh_sent s)" using sent n by (fastforce simp: sent_ok_def)
  have "\<forall>c \<in> fst ` set (hh_log s). unat c \<le> hh_issued s" using log unfolding log_ok_def by (elim conjE)
  then have l: "hh_next s \<notin> fst ` set (hh_log s)" using n by (metis Suc_n_not_le_n)
  have "conns_ok t" using conns n n1 by (auto simp: t_def conns_ok_def accept_request_def le_SucI)
  moreover have "sent_ok t" using sent x by (force simp: t_def sent_ok_def accept_request_def le_SucI)
  moreover have "log_ok t"
    unfolding log_ok_def
  proof (intro conjI allI)
    show "distinct (map fst (hh_log t))" using log l by (simp add: t_def accept_request_def log_ok_def)
    show "\<forall>c \<in> fst ` set (hh_log t). unat c \<le> hh_issued t"
      using log n by (auto simp: t_def accept_request_def log_ok_def le_SucI)
    fix c sess'
    have "(c, sess') \<in> set (hh_log s) \<longleftrightarrow>
        hh_conns s c = Some sess' \<or> (c, sess') \<in> (\<lambda>(c, sess, r, resp). (c, sess)) ` set (hh_sent s)"
      using log by (simp add: log_ok_def)
    moreover have "(c, sess') \<notin> (\<lambda>(c, sess, r, resp). (c, sess)) ` set (hh_sent s)" if "c = hh_next s"
      using x that by force
    moreover have "(c, sess') \<notin> set (hh_log s)" if "c = hh_next s" using l that by force
    ultimately show "(c, sess') \<in> set (hh_log t) \<longleftrightarrow>
        hh_conns t c = Some sess' \<or> (c, sess') \<in> (\<lambda>(c, sess, r, resp). (c, sess)) ` set (hh_sent t)"
      by (cases "c = hh_next s") (auto simp: t_def accept_request_def)
  qed
  ultimately show "table_ok t" by (simp add: table_ok_def)
qed

lemma other_fields_ok [simp]:
  "table_ok (u\<lparr>hh_tmp := x\<rparr>) = table_ok u" "table_ok (u\<lparr>hh_streamed := rs\<rparr>) = table_ok u"
  by (simp_all add: table_ok_def conns_ok_def sent_ok_def log_ok_def)

lemma http_inv_step:
  assumes inv: "http_inv s" and st: "http_step e s = Some t"
  shows "http_inv t"
proof (cases e)
  case (Hr_settle r out)
  then have t: "t = settle_request r out s" using st by (simp split: if_splits)
  let ?s = "s\<lparr>hh_open := removeAll r (hh_open s)\<rparr>"
  have "table_ok ?s" if "table_ok s"
    using that by (auto simp: table_ok_def conns_ok_def sent_ok_def log_ok_def distinct_removeAll)
  then have "table_ok t" if "table_ok s"
    using that answer_ok by (cases out) (auto simp: t settle_request_def send_http_response_native_def)
  moreover have "hh_issued t = hh_issued s"
    by (auto simp: t settle_request_def send_http_response_native_def answer_def drop_conn_def Let_def
        split: settle_out.splits option.splits)
  ultimately show ?thesis using inv by (simp add: http_inv_def split: if_splits)
next
  case (Hr_request sess out)
  then have t: "t = start_request sess out s" using st by simp
  have iss: "hh_issued t = Suc (hh_issued s)"
    by (auto simp: t start_request_def accept_request_def answer_def drop_conn_def Let_def
        split: request_out.splits option.splits)
  have "table_ok t" if lim: "hh_issued t < conn_limit"
  proof -
    have ok: "table_ok s" and l: "Suc (hh_issued s) < conn_limit"
      using inv lim iss by (auto simp: http_inv_def split: if_splits)
    let ?c = "hh_next s" and ?s1 = "accept_request sess (s\<lparr>hh_log := (hh_next s, sess) # hh_log s\<rparr>)"
    note acc = accept_ok(1) [OF ok l, where sess = sess] accept_ok(2) [OF ok l]
    have mine: "hh_conns ?s1 ?c = Some sess" by (simp add: accept_request_def)
    show ?thesis
    proof (cases out)
      case Ro_exception
      then have "t = answer ?c ?c (plain_response ''Internal Error'' []) ?s1"
        using mine by (simp add: t start_request_def answer_def drop_conn_def Let_def)
      then show ?thesis using answer_ok [OF acc(1)] by simp
    next
      case (Ro_direct resp)
      then have "t = answer ?c ?c resp ?s1" by (simp add: t start_request_def Let_def)
      then show ?thesis using answer_ok [OF acc(1)] by simp
    next
      case Ro_then_exception
      have "t = answer ?c ?c (plain_response ''Handler Error'' [(''content-type'', ''text/plain'')])
          (?s1\<lparr>hh_tmp := ucast ?c\<rparr>)"
        using mine Ro_then_exception by (simp add: t start_request_def answer_def drop_conn_def Let_def)
      then show ?thesis using answer_ok [of "?s1\<lparr>hh_tmp := ucast ?c\<rparr>"] acc(1) by simp
    next
      case Ro_pending
      have "unat ?c = Suc (hh_issued s)" using ok by (simp add: table_ok_def conns_ok_def)
      then have "table_ok (?s1\<lparr>hh_open := hh_open ?s1 @ [?c]\<rparr>)"
        using acc by (auto simp: table_ok_def conns_ok_def sent_ok_def log_ok_def accept_request_def)
      moreover have "t = ?s1\<lparr>hh_open := hh_open ?s1 @ [?c]\<rparr>\<lparr>hh_tmp := ucast ?c\<rparr>"
        using Ro_pending by (simp add: t start_request_def Let_def)
      ultimately show ?thesis by simp
    qed
  qed
  then show ?thesis by (simp add: http_inv_def)
qed

interpretation conns: machine http_step http_init http_inv
proof unfold_locales
  show "http_inv http_init"
    by (simp add: http_inv_def table_ok_def conns_ok_def sent_ok_def log_ok_def http_init_def)
qed (rule http_inv_step)

text \<open>
  C13: a connection is answered at most once through the table, and on the session it came with.  In every reachable state
  (below \<open>2 ^ 31\<close> requests) no connection has two such responses; and the connections that the server has delivered,
  each with its session, are exactly those that are still in the table with that session and those
  that were answered on it, which are in the table no more.
\<close>

theorem connections_answered_once:
  assumes "reachable http_step http_init s" and "hh_issued s < conn_limit"
  shows "distinct (map fst (hh_sent s)) \<and> distinct (map fst (hh_log s)) \<and>
    ((c, sess) \<in> set (hh_log s)) =
      (hh_conns s c = Some sess \<or> (c, sess) \<in> (\<lambda>(c, sess, r, resp). (c, sess)) ` set (hh_sent s)) \<and>
    (if c \<in> fst ` set (hh_sent s) then hh_conns s c = None else True)"
proof -
  have "table_ok s"
    using conns.reachable_inv [OF assms(1)] assms(2) by (simp add: http_inv_def)
  then show ?thesis by (auto simp: table_ok_def sent_ok_def log_ok_def)
qed

theorem connections_answered_once_witness:
  "\<exists>s. run http_step http_init [Hr_request 7 Ro_pending, Hr_settle 1 (Sx_response (plain_response ''x'' []))] =
       Some s \<and> map fst (hh_sent s) = [1] \<and> hh_conns s 1 = None \<and>
     (1, 7) \<in> (\<lambda>(c, sess, r, resp). (c, sess)) ` set (hh_sent s)"
proof -
  let ?es = "[Hr_request 7 Ro_pending, Hr_settle 1 (Sx_response (plain_response ''x'' []))]"
  have "case run http_step http_init ?es of None \<Rightarrow> False | Some s \<Rightarrow>
      hh_issued s = 1 \<and> map fst (hh_sent s) = [1] \<and> hh_log s = [(1, 7)]"
    by code_simp
  then obtain s where r: "run http_step http_init ?es = Some s"
    and q: "hh_issued s = 1 \<and> map fst (hh_sent s) = [1] \<and> hh_log s = [(1, 7)]" by (rule run_resultE)
  have lim: "hh_issued s < conn_limit" using q by (simp add: conn_limit_def)
  have "1 \<in> set (map fst (hh_sent s))" using q by simp
  then have n: "hh_conns s 1 = None"
    using connections_answered_once [OF run_reachable [OF r] lim, of 1] by simp
  moreover have "(1, 7) \<in> set (hh_log s)" using q by simp
  ultimately have "(1, 7) \<in> (\<lambda>(c, sess, r, resp). (c, sess)) ` set (hh_sent s)"
    using connections_answered_once [OF run_reachable [OF r] lim, of 1 7] by simp
  then show ?thesis using r q n by (intro exI [of _ s] conjI) simp_all
qed

lemma settle_sends:
  fixes r :: "64 word" and resp :: http_response
  assumes "scast (hh_tmp s) = c" and "hh_conns s c = Some sess"
  defines "t \<equiv> settle_request r (Sx_response resp) s"
  shows "hh_sent t = (c, sess, r, resp) # hh_sent s" "hh_conns t = (hh_conns s)(c := None)"
    "hh_tmp t = hh_tmp s"
  using assms by (simp_all add: settle_request_def send_http_response_native_def answer_def drop_conn_def Let_def)

lemma settle_drops:
  fixes r :: "64 word" and resp :: http_response
  assumes "scast (hh_tmp s) = c" and "hh_conns s c = None"
  defines "t \<equiv> settle_request r (Sx_response resp) s"
  shows "hh_sent t = hh_sent s" "hh_conns t = hh_conns s"
  using assms by (simp_all add: settle_request_def send_http_response_native_def answer_def Let_def)

text \<open>
  C35: a response goes to the connection of the latest request.  The settlement handler reads the
  connection id from one global when the promise settles, not when the request came: with no other
  request in between a response goes out on its own session, but if a second request has come and
  the first settles first, the first response is sent on the second session, the second response is
  dropped, and the first session is never answered.
\<close>

theorem response_routing:
  assumes "reachable http_step http_init s" and "hh_issued s + 2 < conn_limit"
    and "run http_step s [Hr_request sa Ro_pending] = Some s1"
    and "run http_step s1 [Hr_request sb Ro_pending] = Some s2" and "a = hh_next s" and "b = hh_next s1"
  shows "hh_sent (settle_request a (Sx_response ra) s1) = (a, sa, a, ra) # hh_sent s \<and>
    hh_sent (settle_request a (Sx_response ra) s2) = (b, sb, a, ra) # hh_sent s \<and>
    (let t = settle_request b (Sx_response rb) (settle_request a (Sx_response ra) s2)
     in hh_sent t = (b, sb, a, ra) # hh_sent s \<and> hh_conns t a = Some sa)"
proof -
  have ok: "conns_ok s" using conns.reachable_inv [OF assms(1)] assms(2) by (simp add: http_inv_def table_ok_def)
  have n: "unat a = Suc (hh_issued s)" using ok assms(5) by (simp add: conns_ok_def)
  have s1: "hh_next s1 = a + 1" "hh_tmp s1 = ucast a" "hh_sent s1 = hh_sent s"
    "hh_conns s1 = (hh_conns s)(a := Some sa)"
    using assms(3) unfolding assms(5) by (auto simp: start_request_def accept_request_def Let_def)
  have b: "b = a + 1" using s1 assms(6) by simp
  have s2: "hh_tmp s2 = ucast b" "hh_sent s2 = hh_sent s1" "hh_conns s2 = (hh_conns s1)(b := Some sb)"
    using assms(4) unfolding assms(6) by (auto simp: start_request_def accept_request_def Let_def)
  have nb: "unat b = Suc (Suc (hh_issued s))" unfolding b using next_conn [OF n] assms(2) by simp
  have k: "scast (hh_tmp s1) = a" "scast (hh_tmp s2) = b"
    unfolding s1 s2 by (rule small_id_cast, use n nb assms(2) in \<open>simp add: conn_limit_def\<close>)+
  have ne: "a \<noteq> b" using n nb by auto
  note x1 = settle_sends [OF k(1), where r = a and resp = ra and sess = sa] and x2 = settle_sends [OF k(2), where r = a and resp = ra and sess = sb]
  let ?t = "settle_request a (Sx_response ra) s2"
  have t: "scast (hh_tmp ?t) = b" "hh_conns ?t b = None" using x2 s2 k(2) by simp_all
  note x3 = settle_drops [OF t, where r = b and resp = rb]
  show ?thesis using x1 x2 x3 s1 s2 ne by (simp add: Let_def)
qed

theorem response_routing_witness:
  "\<exists>t r. map (\<lambda>(c, sess, q, resp). (sess, q)) (hh_sent t) = [(8, 1)] \<and> hh_conns t 1 = Some 7 \<and>
     t = settle_request 2 (Sx_response r) (settle_request 1 (Sx_response r)
           (start_request 8 Ro_pending (start_request 7 Ro_pending http_init)))"
proof -
  let ?r = "plain_response ''x'' []"
  let ?s1 = "start_request 7 Ro_pending http_init"
  have a: "1 = hh_next http_init" and b: "2 = hh_next ?s1"
    by (simp_all add: http_init_def start_request_def accept_request_def Let_def)
  have "hh_issued http_init + 2 < conn_limit" by (simp add: http_init_def conn_limit_def)
  from response_routing [OF reach_init this _ _ a b, of 7 8 "start_request 8 Ro_pending ?s1" ?r ?r]
  show ?thesis by (intro exI [of _ "settle_request 2 (Sx_response ?r) (settle_request 1 (Sx_response ?r)
           (start_request 8 Ro_pending ?s1))"] exI [of _ ?r]) (simp add: http_init_def Let_def)
qed

text \<open>
  A streamed response leaves its connection in the table.  When the later of two requests is streamed, the
  response of the earlier one, which settles after it, is sent on the session of the stream, which has had its
  whole response already.
\<close>

theorem stream_then_response:
  assumes "reachable http_step http_init s" and "hh_issued s + 2 < conn_limit"
    and "run http_step s [Hr_request sa Ro_pending, Hr_request sb Ro_pending] = Some s2"
    and "a = hh_next s" and "b = hh_next s + 1"
  shows "hh_streamed (settle_request b Sx_streamed s2) = b # hh_streamed s \<and>
    hh_conns (settle_request b Sx_streamed s2) b = Some sb \<and>
    hh_sent (settle_request a (Sx_response ra) (settle_request b Sx_streamed s2)) = (b, sb, a, ra) # hh_sent s"
proof -
  have "conns_ok s" using conns.reachable_inv [OF assms(1)] assms(2) by (simp add: http_inv_def table_ok_def)
  then have "unat a = Suc (hh_issued s)" using assms(4) by (simp add: conns_ok_def)
  then have "unat b = Suc (Suc (hh_issued s))" using next_conn [of a] assms(2,4,5) by simp
  then have k: "scast (ucast b :: 32 word) = b"
    by (intro small_id_cast) (use assms(2) in \<open>simp add: conn_limit_def\<close>)
  have s2: "hh_tmp s2 = ucast b" "hh_sent s2 = hh_sent s" "hh_conns s2 b = Some sb" "hh_streamed s2 = hh_streamed s"
    using assms(3-5) by (auto simp: start_request_def accept_request_def Let_def)
  let ?t = "settle_request b Sx_streamed s2"
  have t: "hh_tmp ?t = ucast b" "hh_conns ?t b = Some sb" "hh_sent ?t = hh_sent s" "hh_streamed ?t = b # hh_streamed s"
    using s2 by (simp_all add: settle_request_def Let_def)
  have "scast (hh_tmp ?t) = b" using t(1) k by simp
  from settle_sends(1) [OF this t(2), of a ra] show ?thesis using t by simp
qed

theorem stream_then_response_witness:
  "\<exists>t r. hh_streamed t = [2] \<and> map (\<lambda>(c, sess, q, resp). (sess, q)) (hh_sent (settle_request 1 (Sx_response r) t)) = [(8, 1)]"
proof -
  let ?r = "plain_response ''x'' []"
  let ?s2 = "start_request 8 Ro_pending (start_request 7 Ro_pending http_init)"
  have a: "1 = hh_next http_init" and b: "2 = hh_next http_init + 1"
    by (simp_all add: http_init_def)
  have "hh_issued http_init + 2 < conn_limit" by (simp add: http_init_def conn_limit_def)
  from stream_then_response [OF reach_init this _ a b, of 7 8 ?s2 ?r]
  show ?thesis by (intro exI [of _ "settle_request 2 Sx_streamed ?s2"] exI [of _ ?r]) (simp add: http_init_def)
qed

end
