(* ===== verification/Crypto.thy ===== *)
theory Crypto
  imports Prelude
begin

text \<open>
  The crypto natives (\<open>src/crypto.cpp\<close>).  OpenSSL is not part of the repository: its functions are
  the fields of a record \<open>evp\<close>, with \<open>'c\<close> the state of an \<open>EVP_CIPHER_CTX\<close> and \<open>None\<close> for a call that
  does not return 1.  A \<open>std::runtime_error\<close> is \<open>Inl\<close> of its message.
\<close>

unbundle bit_operations_syntax

type_synonym 'a result_or_error = "string + 'a"

section \<open>OpenSSL\<close>

datatype md = Md_md5 | Md_sha1 | Md_sha256 | Md_sha512

datatype cipher = Aes_ecb nat | Aes_cbc nat | Aes_gcm nat

record 'c evp =
  ev_digest :: "md \<Rightarrow> bytes \<Rightarrow> bytes option"
  ev_digest_ctx :: bool
  ev_hmac :: "md \<Rightarrow> bytes \<Rightarrow> bytes \<Rightarrow> bytes option"
  ev_ctx_new :: "'c option"
  ev_init :: "cipher \<Rightarrow> bool \<Rightarrow> 'c \<Rightarrow> 'c option"
  ev_set_key_length :: "nat \<Rightarrow> 'c \<Rightarrow> 'c option"
  ev_set_iv_length :: "nat \<Rightarrow> 'c \<Rightarrow> 'c option"
  ev_key_iv :: "bytes \<Rightarrow> bytes \<Rightarrow> bool \<Rightarrow> 'c \<Rightarrow> 'c option"
  ev_aad :: "bytes \<Rightarrow> 'c \<Rightarrow> 'c option"
  ev_update :: "bytes \<Rightarrow> 'c \<Rightarrow> (bytes \<times> 'c) option"
  ev_final :: "'c \<Rightarrow> (bytes \<times> 'c) option"
  ev_get_tag :: "'c \<Rightarrow> bytes option"
  ev_set_tag :: "bytes \<Rightarrow> 'c \<Rightarrow> 'c option"
  ev_rand :: "nat \<Rightarrow> bytes option"
  ev_pbkdf2 :: "bytes \<Rightarrow> bytes \<Rightarrow> int \<Rightarrow> md \<Rightarrow> int \<Rightarrow> bytes option"
  ev_memcmp :: "bytes \<Rightarrow> bytes \<Rightarrow> int"

text \<open>A call that must succeed, and an error otherwise.\<close>

definition require :: "string \<Rightarrow> 'a option \<Rightarrow> 'a result_or_error" where
  "require msg r = (case r of None \<Rightarrow> Inl msg | Some x \<Rightarrow> Inr x)"

definition then_do :: "'a result_or_error \<Rightarrow> ('a \<Rightarrow> 'b result_or_error) \<Rightarrow> 'b result_or_error" where
  "then_do r f = (case r of Inl e \<Rightarrow> Inl e | Inr x \<Rightarrow> f x)"

lemma then_do_simps [simp]: "then_do (Inl e) f = Inl e" "then_do (Inr x) f = f x"
  by (simp_all add: then_do_def)

lemma require_simps [simp]: "require m None = Inl m" "require m (Some x) = Inr x"
  by (simp_all add: require_def)

lemma then_do_Inr_iff: "then_do r f = Inr y \<longleftrightarrow> (\<exists>x. r = Inr x \<and> f x = Inr y)"
  by (cases r) auto

lemma require_Inr_iff: "require m r = Inr y \<longleftrightarrow> r = Some y"
  by (cases r) auto

section \<open>Choice of algorithms\<close>

definition digest_md :: "string \<Rightarrow> md option" where
  "digest_md name =
     (if name = ''sha1'' \<or> name = ''sha-1'' then Some Md_sha1
      else if name = ''sha256'' \<or> name = ''sha-256'' then Some Md_sha256
      else if name = ''sha512'' \<or> name = ''sha-512'' then Some Md_sha512
      else if name = ''md5'' then Some Md_md5
      else None)"

definition aes_cipher :: "bool \<Rightarrow> nat \<Rightarrow> cipher option" where
  "aes_cipher cbc key_len =
     (if cbc then
        (if key_len = 16 then Some (Aes_cbc 128) else if key_len = 24 then Some (Aes_cbc 192)
         else if key_len = 32 then Some (Aes_cbc 256) else None)
      else
        (if key_len = 16 then Some (Aes_ecb 128) else if key_len = 24 then Some (Aes_ecb 192)
         else if key_len = 32 then Some (Aes_ecb 256) else None))"

definition aes_gcm_cipher :: "nat \<Rightarrow> cipher option" where
  "aes_gcm_cipher key_len =
     (if key_len = 16 then Some (Aes_gcm 128) else if key_len = 24 then Some (Aes_gcm 192)
      else if key_len = 32 then Some (Aes_gcm 256) else None)"

text \<open>\<open>EVP_CIPHER_block_size\<close> of the AES block modes.\<close>

definition aes_block :: nat where
  "aes_block = 16"

section \<open>PKCS#7\<close>

definition pkcs7_pad :: "bytes \<Rightarrow> nat \<Rightarrow> bytes" where
  "pkcs7_pad data block_size =
     (let pad_len = block_size - length data mod block_size
      in data @ replicate pad_len (word_of_nat pad_len))"

definition pkcs7_unpad :: "bytes \<Rightarrow> bytes result_or_error" where
  "pkcs7_unpad data =
     (if data = [] then Inr []
      else
        (let pad = data ! (length data - 1); n = unat pad
         in if n = 0 \<or> n > 16 \<or> n > length data then Inl ''invalid pkcs7 padding''
            else if list_all (\<lambda>i. data ! (length data - 1 - i) = pad) [0..<n]
            then Inr (take (length data - n) data)
            else Inl ''invalid pkcs7 padding''))"

section \<open>Digests\<close>

definition evp_hash :: "('c, 'x) evp_scheme \<Rightarrow> bytes \<Rightarrow> md \<Rightarrow> bytes result_or_error" where
  "evp_hash E data m =
     (if \<not> ev_digest_ctx E then Inl ''hash: failed to create context''
      else require ''hash: failed'' (ev_digest E m data))"

definition evp_hmac :: "('c, 'x) evp_scheme \<Rightarrow> bytes \<Rightarrow> bytes \<Rightarrow> md \<Rightarrow> bytes result_or_error" where
  "evp_hmac E key data m = require ''hmac: failed'' (ev_hmac E m key data)"

section \<open>Ciphers\<close>

definition evp_cipher ::
  "('c, 'x) evp_scheme \<Rightarrow> bytes \<Rightarrow> bytes \<Rightarrow> bytes \<Rightarrow> cipher \<Rightarrow> bool \<Rightarrow> bytes result_or_error" where
  "evp_cipher E input key iv c encrypt =
     then_do (require ''cipher: failed to create context'' (ev_ctx_new E)) (\<lambda>x.
     then_do (require ''cipher: init failed'' (ev_init E c encrypt x)) (\<lambda>x.
     then_do (require ''cipher: invalid key length'' (ev_set_key_length E (length key) x)) (\<lambda>x.
     then_do (require ''cipher: key/iv failed'' (ev_key_iv E key iv encrypt x)) (\<lambda>x.
     then_do (require ''cipher: update failed'' (ev_update E input x)) (\<lambda>(out1, x).
     then_do (require ''cipher: final failed'' (ev_final E x)) (\<lambda>(out2, x).
     Inr (out1 @ out2)))))))"

definition aes_gcm_start ::
  "('c, 'x) evp_scheme \<Rightarrow> bytes \<Rightarrow> bytes \<Rightarrow> bytes \<Rightarrow> bool \<Rightarrow> 'c result_or_error" where
  "aes_gcm_start E key nonce aad encrypt =
     then_do (require ''aes gcm: invalid key length'' (aes_gcm_cipher (length key))) (\<lambda>c.
     if length nonce < 1 then Inl ''aes gcm: nonce required''
     else
       then_do (require ''aes gcm: failed to create context'' (ev_ctx_new E)) (\<lambda>x.
       then_do (require ''aes gcm: init failed'' (ev_init E c encrypt x)) (\<lambda>x.
       then_do (require ''aes gcm: set iv len failed'' (ev_set_iv_length E (length nonce) x)) (\<lambda>x.
       then_do (require ''aes gcm: key/nonce failed'' (ev_key_iv E key nonce encrypt x)) (\<lambda>x.
       if aad \<noteq> [] then require ''aes gcm: aad failed'' (ev_aad E aad x) else Inr x)))))"

definition aes_gcm_finish :: "('c, 'x) evp_scheme \<Rightarrow> bytes \<Rightarrow> 'c \<Rightarrow> (bytes \<times> 'c) result_or_error" where
  "aes_gcm_finish E data x =
     then_do (require ''aes gcm: update failed'' (ev_update E data x)) (\<lambda>(out1, x).
     then_do (require ''aes gcm: final failed'' (ev_final E x)) (\<lambda>(out2, x).
     Inr (out1 @ out2, x)))"

definition aes_gcm_crypt ::
  "('c, 'x) evp_scheme \<Rightarrow> bytes \<Rightarrow> bytes \<Rightarrow> bytes \<Rightarrow> bytes \<Rightarrow> bool \<Rightarrow> bytes result_or_error" where
  "aes_gcm_crypt E input key nonce aad encrypt =
     then_do (aes_gcm_start E key nonce aad encrypt) (\<lambda>x.
     if encrypt then
       then_do (aes_gcm_finish E input x) (\<lambda>(out, x).
       then_do (require ''aes gcm: get tag failed'' (ev_get_tag E x)) (\<lambda>tag. Inr (out @ tag)))
     else if length input < 16 then Inl ''aes gcm: input too short for tag''
     else
       (let cipher_len = length input - 16
        in then_do (require ''aes gcm: set tag failed'' (ev_set_tag E (drop cipher_len input) x)) (\<lambda>x.
           then_do (aes_gcm_finish E (take cipher_len input) x) (\<lambda>(out, x). Inr out))))"

section \<open>The natives\<close>

definition hash_md5 :: "('c, 'x) evp_scheme \<Rightarrow> bytes \<Rightarrow> bytes result_or_error" where
  "hash_md5 E data = evp_hash E data Md_md5"

definition hash_sha1 :: "('c, 'x) evp_scheme \<Rightarrow> bytes \<Rightarrow> bytes result_or_error" where
  "hash_sha1 E data = evp_hash E data Md_sha1"

definition hash_sha256 :: "('c, 'x) evp_scheme \<Rightarrow> bytes \<Rightarrow> bytes result_or_error" where
  "hash_sha256 E data = evp_hash E data Md_sha256"

definition hash_sha512 :: "('c, 'x) evp_scheme \<Rightarrow> bytes \<Rightarrow> bytes result_or_error" where
  "hash_sha512 E data = evp_hash E data Md_sha512"

definition hmac_sha1 :: "('c, 'x) evp_scheme \<Rightarrow> bytes \<Rightarrow> bytes \<Rightarrow> bytes result_or_error" where
  "hmac_sha1 E key data = evp_hmac E key data Md_sha1"

definition hmac_sha256 :: "('c, 'x) evp_scheme \<Rightarrow> bytes \<Rightarrow> bytes \<Rightarrow> bytes result_or_error" where
  "hmac_sha256 E key data = evp_hmac E key data Md_sha256"

definition hmac_sha512 :: "('c, 'x) evp_scheme \<Rightarrow> bytes \<Rightarrow> bytes \<Rightarrow> bytes result_or_error" where
  "hmac_sha512 E key data = evp_hmac E key data Md_sha512"

definition aes_ecb_encrypt :: "('c, 'x) evp_scheme \<Rightarrow> bytes \<Rightarrow> bytes \<Rightarrow> bytes result_or_error" where
  "aes_ecb_encrypt E input key =
     (case aes_cipher False (length key) of
        None \<Rightarrow> Inl ''aes ecb: invalid key length''
      | Some c \<Rightarrow> evp_cipher E (pkcs7_pad input aes_block) key [] c True)"

definition aes_ecb_decrypt :: "('c, 'x) evp_scheme \<Rightarrow> bytes \<Rightarrow> bytes \<Rightarrow> bytes result_or_error" where
  "aes_ecb_decrypt E input key =
     (case aes_cipher False (length key) of
        None \<Rightarrow> Inl ''aes ecb: invalid key length''
      | Some c \<Rightarrow> then_do (evp_cipher E input key [] c False) pkcs7_unpad)"

definition aes_cbc_encrypt ::
  "('c, 'x) evp_scheme \<Rightarrow> bytes \<Rightarrow> bytes \<Rightarrow> bytes \<Rightarrow> bytes result_or_error" where
  "aes_cbc_encrypt E input key iv =
     (case aes_cipher True (length key) of
        None \<Rightarrow> Inl ''aes cbc: invalid key length''
      | Some c \<Rightarrow>
          if length iv \<noteq> 16 then Inl ''aes cbc: iv must be 16 bytes''
          else evp_cipher E (pkcs7_pad input aes_block) key iv c True)"

definition aes_cbc_decrypt ::
  "('c, 'x) evp_scheme \<Rightarrow> bytes \<Rightarrow> bytes \<Rightarrow> bytes \<Rightarrow> bytes result_or_error" where
  "aes_cbc_decrypt E input key iv =
     (case aes_cipher True (length key) of
        None \<Rightarrow> Inl ''aes cbc: invalid key length''
      | Some c \<Rightarrow>
          if length iv \<noteq> 16 then Inl ''aes cbc: iv must be 16 bytes''
          else then_do (evp_cipher E input key iv c False) pkcs7_unpad)"

definition aes_gcm_encrypt ::
  "('c, 'x) evp_scheme \<Rightarrow> bytes \<Rightarrow> bytes \<Rightarrow> bytes \<Rightarrow> bytes \<Rightarrow> bytes result_or_error" where
  "aes_gcm_encrypt E input key nonce aad = aes_gcm_crypt E input key nonce aad True"

definition aes_gcm_decrypt ::
  "('c, 'x) evp_scheme \<Rightarrow> bytes \<Rightarrow> bytes \<Rightarrow> bytes \<Rightarrow> bytes \<Rightarrow> bytes result_or_error" where
  "aes_gcm_decrypt E input key nonce aad = aes_gcm_crypt E input key nonce aad False"

definition random_bytes :: "('c, 'x) evp_scheme \<Rightarrow> int \<Rightarrow> bytes result_or_error" where
  "random_bytes E len =
     (if len < 0 then Inl ''random_bytes: negative length''
      else require ''random_bytes: failed'' (ev_rand E (nat len)))"

definition hex_digit :: "byte \<Rightarrow> char" where
  "hex_digit b = ''0123456789abcdef'' ! unat b"

fun uuid_text :: "nat \<Rightarrow> bytes \<Rightarrow> string" where
  "uuid_text i [] = []"
| "uuid_text i (b # bs) =
     hex_digit (drop_bit 4 b) # hex_digit (b AND 0x0f) #
     (if i = 3 \<or> i = 5 \<or> i = 7 \<or> i = 9 then ''-'' else []) @ uuid_text (Suc i) bs"

definition random_uuid :: "('c, 'x) evp_scheme \<Rightarrow> string result_or_error" where
  "random_uuid E =
     then_do (random_bytes E 16) (\<lambda>bs0.
       let bs1 = bs0[6 := (bs0 ! 6 AND 0x0f) OR 0x40];
           bs2 = bs1[8 := (bs1 ! 8 AND 0x3f) OR 0x80]
       in Inr (uuid_text 0 bs2))"

definition timing_safe_equal :: "('c, 'x) evp_scheme \<Rightarrow> bytes \<Rightarrow> bytes \<Rightarrow> bool" where
  "timing_safe_equal E a b = (if length a \<noteq> length b then False else ev_memcmp E a b = 0)"

definition pbkdf2_sync ::
  "('c, 'x) evp_scheme \<Rightarrow> bytes \<Rightarrow> bytes \<Rightarrow> int \<Rightarrow> int \<Rightarrow> string \<Rightarrow> bytes result_or_error" where
  "pbkdf2_sync E password salt iterations key_len digest =
     (case digest_md digest of
        None \<Rightarrow> Inl ''pbkdf2: unsupported digest''
      | Some m \<Rightarrow>
          if iterations < 1 \<or> key_len < 1 then Inl ''pbkdf2: invalid iterations or key length''
          else require ''pbkdf2: failed'' (ev_pbkdf2 E password salt iterations m key_len))"

section \<open>Padding\<close>

lemma pad_split:
  assumes "n \<le> length d"
  shows "list_all (\<lambda>i. d ! (length d - 1 - i) = p) [0..<n] \<longleftrightarrow> d = take (length d - n) d @ replicate n p"
proof
  assume a: "list_all (\<lambda>i. d ! (length d - 1 - i) = p) [0..<n]"
  have "drop (length d - n) d = replicate n p"
  proof (rule nth_equalityI)
    fix i assume "i < length (drop (length d - n) d)"
    then have i: "i < n" using assms by simp
    then have "n - 1 - i \<in> set [0..<n]" by simp
    then have "d ! (length d - 1 - (n - 1 - i)) = p" using a unfolding list_all_iff by blast
    moreover have "length d - 1 - (n - 1 - i) = length d - n + i" using i assms by linarith
    ultimately show "drop (length d - n) d ! i = replicate n p ! i" using i assms by simp
  qed (use assms in simp)
  then show "d = take (length d - n) d @ replicate n p" by (metis append_take_drop_id)
next
  assume a: "d = take (length d - n) d @ replicate n p"
  have "d ! (length d - 1 - i) = p" if "i < n" for i
  proof -
    have k: "length d - 1 - i = length (take (length d - n) d) + (n - 1 - i)" using that assms by simp
    have "d ! (length d - 1 - i) = (take (length d - n) d @ replicate n p) ! (length d - 1 - i)"
      using a by simp
    also have "\<dots> = replicate n p ! (n - 1 - i)" unfolding k by (rule nth_append_length_plus)
    finally show ?thesis using that by simp
  qed
  then show "list_all (\<lambda>i. d ! (length d - 1 - i) = p) [0..<n]" by (simp add: list_all_iff)
qed

lemma unpad_padded:
  assumes "1 \<le> n" and "n \<le> 16"
  shows "pkcs7_unpad (x @ replicate n (word_of_nat n)) = Inr x"
proof -
  let ?p = "word_of_nat n :: byte" and ?d = "x @ replicate n (word_of_nat n :: byte)"
  have u: "unat ?p = n" using assms by (simp add: unsigned_of_nat take_bit_nat_eq_self)
  have ne: "?d \<noteq> []" using assms by simp
  have "last ?d = ?p" using assms by simp
  then have l: "?d ! (length ?d - 1) = ?p" using last_conv_nth [OF ne] by simp
  have "list_all (\<lambda>i. ?d ! (length ?d - 1 - i) = ?p) [0..<n]"
    using pad_split [of n ?d ?p] by simp
  moreover have "n \<le> length ?d" "take (length ?d - n) ?d = x" by simp_all
  ultimately show ?thesis
    using assms l u ne by (simp only: pkcs7_unpad_def Let_def if_False if_True) simp
qed

lemma unpad_pad: "pkcs7_unpad (pkcs7_pad x aes_block) = Inr x"
proof -
  have "length x mod 16 < 16" by simp
  then show ?thesis unfolding pkcs7_pad_def aes_block_def Let_def by (intro unpad_padded) linarith+
qed

lemma length_pad: "length (pkcs7_pad y 16) = 16 * (length y div 16) + 16"
proof -
  have "length y = length y div 16 * 16 + length y mod 16" "length y mod 16 < 16"
    by (rule div_mult_mod_eq [symmetric]) simp
  then have "length y + (16 - length y mod 16) = 16 * (length y div 16) + 16" by linarith
  then show ?thesis by (simp only: pkcs7_pad_def Let_def length_append length_replicate)
qed

text \<open>
  C33: unpadding accepts exactly PKCS#7.  It yields \<open>x\<close> for the empty input (with \<open>x\<close> empty) and for
  \<open>x\<close> followed by \<open>n\<close> bytes of value \<open>n\<close> with \<open>n\<close> between 1 and 16, and throws for anything else;
  padding always appends such a block, up to the next multiple of 16.
\<close>

theorem pkcs7_unpad_exact:
  "(pkcs7_unpad d = Inr x) =
     (if d = [] then x = [] else \<exists>n. 1 \<le> n \<and> n \<le> 16 \<and> d = x @ replicate n (word_of_nat n)) \<and>
   pkcs7_unpad (pkcs7_pad y 16) = Inr y \<and>
   length (pkcs7_pad y 16) = 16 * (length y div 16) + 16"
proof -
  have "\<exists>n. 1 \<le> n \<and> n \<le> 16 \<and> d = x @ replicate n (word_of_nat n)" if r: "pkcs7_unpad d = Inr x" and ne: "d \<noteq> []"
  proof -
    let ?p = "d ! (length d - 1)"
    let ?n = "unat ?p"
    have n: "1 \<le> ?n" "?n \<le> 16" "?n \<le> length d" and x: "x = take (length d - ?n) d"
      and all: "list_all (\<lambda>i. d ! (length d - 1 - i) = ?p) [0..<?n]"
      using r ne by (auto simp: pkcs7_unpad_def Let_def split: if_splits)
    have "d = x @ replicate ?n ?p" using all pad_split [OF n(3), of ?p] x by simp
    moreover have "?p = word_of_nat ?n" by simp
    ultimately show ?thesis using n(1,2) by (intro exI [of _ ?n] conjI) simp_all
  qed
  moreover have "pkcs7_unpad d = Inr x" if "1 \<le> n" "n \<le> 16" "d = x @ replicate n (word_of_nat n)" for n
    using that unpad_padded by simp
  moreover have "(pkcs7_unpad [] = Inr x) = (x = [])" by (auto simp: pkcs7_unpad_def)
  moreover have "length (pkcs7_pad y 16) = 16 * (length y div 16) + 16" by (rule length_pad)
  moreover have "pkcs7_unpad (pkcs7_pad y 16) = Inr y" using unpad_pad [of y] by (simp add: aes_block_def)
  ultimately show ?thesis by (cases "d = []") (simp_all, blast)
qed

section \<open>AES\<close>

text \<open>
  What OpenSSL documents of the EVP calls on an AES block mode with default padding.  \<open>enc\<close> and \<open>dec\<close> are the mode
  itself, on whole blocks.  A fresh context accepts the cipher, the key length that belongs to it, the key and the IV.
  Encrypting, \<open>EVP_CipherUpdate\<close> gives out the complete blocks of its input and \<open>EVP_CipherFinal_ex\<close> the last block with
  the padding; decrypting, \<open>EVP_CipherUpdate\<close> holds back the last block, and \<open>EVP_CipherFinal_ex\<close> gives it without its
  padding, if that is right.
\<close>

definition block_padded :: "bytes \<Rightarrow> bytes" where
  "block_padded d = d @ replicate (16 - length d mod 16) (word_of_nat (16 - length d mod 16))"

definition evp_context :: "('c, 'x) evp_scheme \<Rightarrow> cipher \<Rightarrow> bytes \<Rightarrow> bytes \<Rightarrow> bool \<Rightarrow> 'c \<Rightarrow> bool" where
  "evp_context E c key iv encrypt x \<longleftrightarrow>
     (\<exists>x0 x1 x2. ev_ctx_new E = Some x0 \<and> ev_init E c encrypt x0 = Some x1 \<and>
        ev_set_key_length E (length key) x1 = Some x2 \<and> ev_key_iv E key iv encrypt x2 = Some x)"

definition evp_block_mode ::
  "('c, 'x) evp_scheme \<Rightarrow> cipher \<Rightarrow> bytes \<Rightarrow> bytes \<Rightarrow> (bytes \<Rightarrow> bytes) \<Rightarrow> (bytes \<Rightarrow> bytes) \<Rightarrow> bool" where
  "evp_block_mode E c key iv enc dec \<longleftrightarrow>
     (\<forall>d. 16 dvd length d \<longrightarrow> length (enc d) = length d \<and> dec (enc d) = d) \<and>
     (\<exists>x. evp_context E c key iv True x \<and>
        (\<forall>d. \<exists>y z. ev_update E d x = Some (take (16 * (length d div 16)) (enc (block_padded d)), y) \<and>
           ev_final E y = Some (drop (16 * (length d div 16)) (enc (block_padded d)), z))) \<and>
     (\<exists>x. evp_context E c key iv False x \<and>
        (\<forall>d rest n. 16 dvd length d \<longrightarrow> d \<noteq> [] \<longrightarrow> 1 \<le> n \<longrightarrow> n \<le> 16 \<longrightarrow>
           drop (length d - 16) (dec d) = rest @ replicate n (word_of_nat n) \<longrightarrow>
           (\<exists>y z. ev_update E d x = Some (take (length d - 16) (dec d), y) \<and> ev_final E y = Some (rest, z))))"

lemma block_padded_length: "length (block_padded d) = 16 * (length d div 16) + 16"
proof -
  have "length d = length d div 16 * 16 + length d mod 16" "length d mod 16 < 16"
    by (rule div_mult_mod_eq [symmetric]) simp
  then show ?thesis by (simp only: block_padded_def length_append length_replicate)
qed

lemma block_padded_pad: "pkcs7_pad d aes_block = block_padded d"
  by (simp add: pkcs7_pad_def block_padded_def aes_block_def Let_def)

lemma evp_encrypts:
  assumes "evp_block_mode E c key iv enc dec"
  shows "evp_cipher E d key iv c True = Inr (enc (block_padded d))"
proof -
  obtain x where x: "evp_context E c key iv True x"
    and u: "\<exists>y z. ev_update E d x = Some (take (16 * (length d div 16)) (enc (block_padded d)), y) \<and>
           ev_final E y = Some (drop (16 * (length d div 16)) (enc (block_padded d)), z)"
    using assms unfolding evp_block_mode_def by blast
  then show ?thesis unfolding evp_context_def evp_cipher_def by auto
qed

lemma evp_decrypts:
  assumes "evp_block_mode E c key iv enc dec"
  shows "evp_cipher E (enc (block_padded d)) key iv c False = Inr d"
proof -
  let ?p = "block_padded d" and ?m = "length d mod 16" and ?k = "16 * (length d div 16)"
  have l: "length ?p = ?k + 16" by (rule block_padded_length)
  then have "16 dvd length ?p" by simp
  with assms have e: "length (enc ?p) = length ?p" "dec (enc ?p) = ?p" unfolding evp_block_mode_def by blast+
  have m: "?m < 16" by simp
  have k: "?k \<le> length d" by simp
  then have split: "drop (length (enc ?p) - 16) (dec (enc ?p)) = drop ?k d @ replicate (16 - ?m) (word_of_nat (16 - ?m))"
    and front: "take (length (enc ?p) - 16) (dec (enc ?p)) = take ?k d"
    unfolding e l by (simp_all add: block_padded_def)
  obtain x where x: "evp_context E c key iv False x"
    and u: "\<And>y rest n. 16 dvd length y \<Longrightarrow> y \<noteq> [] \<Longrightarrow> 1 \<le> n \<Longrightarrow> n \<le> 16 \<Longrightarrow>
           drop (length y - 16) (dec y) = rest @ replicate n (word_of_nat n) \<Longrightarrow>
           \<exists>u z. ev_update E y x = Some (take (length y - 16) (dec y), u) \<and> ev_final E u = Some (rest, z)"
    using assms unfolding evp_block_mode_def by blast
  have "enc ?p \<noteq> []" using e(1) l by auto
  then have "\<exists>u z. ev_update E (enc ?p) x = Some (take ?k d, u) \<and> ev_final E u = Some (drop ?k d, z)"
    using u [of "enc ?p" "16 - ?m" "drop ?k d"] split m e(1) l unfolding front by simp
  moreover have "take ?k d @ drop ?k d = d" by simp
  ultimately show ?thesis using x unfolding evp_context_def evp_cipher_def by (elim exE conjE) simp
qed

text \<open>
  C34: AES round trip, and what the double padding costs.  With a valid key and IV the natives encrypt the message
  padded twice, once by themselves and once by OpenSSL, and decrypting that gives the message back, in both
  modes; the ciphertext is one block longer than PKCS#7 asks for, and the ciphertext another
  implementation makes of \<open>data\<close> does not decrypt to \<open>data\<close> but to what is left of it when its own
  last bytes are taken as padding.
\<close>

theorem aes_round_trip:
  assumes "aes_cipher True (length key) = Some c" and "length iv = 16" and "evp_block_mode E c key iv enc dec"
    and "aes_cipher False (length key) = Some e" and "evp_block_mode E e key [] enc' dec'"
  shows "aes_cbc_encrypt E data key iv = Inr (enc (block_padded (block_padded data))) \<and>
    aes_cbc_decrypt E (enc (block_padded (block_padded data))) key iv = Inr data \<and>
    aes_ecb_encrypt E data key = Inr (enc' (block_padded (block_padded data))) \<and>
    aes_ecb_decrypt E (enc' (block_padded (block_padded data))) key = Inr data \<and>
    length (enc (block_padded (block_padded data))) = 16 * (length data div 16) + 32 \<and>
    aes_cbc_decrypt E (enc (block_padded data)) key iv = pkcs7_unpad data \<and>
    aes_ecb_decrypt E (enc' (block_padded data)) key = pkcs7_unpad data"
proof -
  let ?p = "block_padded data"
  have "16 dvd length (block_padded ?p)" by (simp add: block_padded_length)
  then have "length (enc (block_padded ?p)) = length (block_padded ?p)"
    using assms(3) unfolding evp_block_mode_def by blast
  then have "length (enc (block_padded ?p)) = 16 * (length data div 16) + 32" by (simp add: block_padded_length)
  moreover have "pkcs7_unpad ?p = Inr data" using unpad_pad [of data] by (simp add: block_padded_pad)
  ultimately show ?thesis
    using assms(1,2,4) evp_encrypts [OF assms(3)] evp_encrypts [OF assms(5)]
      evp_decrypts [OF assms(3)] evp_decrypts [OF assms(5)]
    by (simp add: aes_cbc_encrypt_def aes_cbc_decrypt_def aes_ecb_encrypt_def aes_ecb_decrypt_def block_padded_pad)
qed

text \<open>
  A stand-in for OpenSSL: its block modes only pad, its GCM mode leaves the data alone and tags it
  with its length.
\<close>

record plain_ctx =
  pc_gcm :: bool
  pc_encrypt :: bool
  pc_data :: bytes
  pc_tag :: bytes

definition is_gcm :: "cipher \<Rightarrow> bool" where
  "is_gcm c = (case c of Aes_gcm n \<Rightarrow> True | _ \<Rightarrow> False)"

definition plain_tag :: "bytes \<Rightarrow> bytes" where
  "plain_tag data = replicate 16 (word_of_nat (length data))"

definition plain_final :: "plain_ctx \<Rightarrow> (bytes \<times> plain_ctx) option" where
  "plain_final x =
     (if pc_gcm x
      then (if pc_encrypt x then Some ([], x\<lparr>pc_tag := plain_tag (pc_data x)\<rparr>)
            else if pc_tag x = plain_tag (pc_data x) then Some ([], x) else None)
      else if pc_encrypt x then Some (block_padded (pc_data x), x)
      else (case pkcs7_unpad (pc_data x) of Inl e \<Rightarrow> None | Inr d \<Rightarrow> Some (d, x)))"

definition plain_evp :: "plain_ctx evp" where
  "plain_evp =
     \<lparr>ev_digest = (\<lambda>m d. Some d), ev_digest_ctx = True, ev_hmac = (\<lambda>m k d. Some d),
      ev_ctx_new = Some \<lparr>pc_gcm = False, pc_encrypt = False, pc_data = [], pc_tag = []\<rparr>,
      ev_init = (\<lambda>c b x. Some (x\<lparr>pc_gcm := is_gcm c, pc_encrypt := b\<rparr>)),
      ev_set_key_length = (\<lambda>n x. Some x), ev_set_iv_length = (\<lambda>n x. Some x),
      ev_key_iv = (\<lambda>k i b x. Some x), ev_aad = (\<lambda>a x. Some x),
      ev_update = (\<lambda>d x.
        if pc_gcm x then Some (d, x\<lparr>pc_data := d\<rparr>)
        else let n = (if pc_encrypt x then 16 * (length d div 16) else length d - 16)
             in Some (take n d, x\<lparr>pc_data := drop n d\<rparr>)),
      ev_final = plain_final, ev_get_tag = (\<lambda>x. Some (pc_tag x)),
      ev_set_tag = (\<lambda>t x. Some (x\<lparr>pc_tag := t\<rparr>)), ev_rand = (\<lambda>n. Some (replicate n 255)),
      ev_pbkdf2 = (\<lambda>p s i m k. Some []), ev_memcmp = (\<lambda>a b. if a = b then 0 else 1)\<rparr>"

lemma block_padded_drop: "drop (16 * (length d div 16)) (block_padded d) = block_padded (drop (16 * (length d div 16)) d)"
proof -
  have "length d - 16 * (length d div 16) = length d mod 16" by (simp add: minus_mult_div_eq_mod)
  then show ?thesis by (simp add: block_padded_def)
qed

lemma block_padded_take: "take (16 * (length d div 16)) (block_padded d) = take (16 * (length d div 16)) d"
  by (simp add: block_padded_def)

lemma plain_block_mode:
  assumes "\<not> is_gcm c"
  shows "evp_block_mode plain_evp c key iv id id"
  unfolding evp_block_mode_def
proof (intro conjI)
  let ?x = "\<lambda>b. \<lparr>pc_gcm = False, pc_encrypt = b, pc_data = [], pc_tag = []\<rparr>"
  have x: "evp_context plain_evp c key iv b (?x b)" for b
    using assms by (simp add: evp_context_def plain_evp_def)
  show "\<exists>x. evp_context plain_evp c key iv True x \<and>
      (\<forall>d. \<exists>y z. ev_update plain_evp d x = Some (take (16 * (length d div 16)) (id (block_padded d)), y) \<and>
         ev_final plain_evp y = Some (drop (16 * (length d div 16)) (id (block_padded d)), z))"
    by (intro exI [of _ "?x True"] conjI x)
      (simp add: plain_evp_def plain_final_def Let_def block_padded_drop block_padded_take)
  show "\<exists>x. evp_context plain_evp c key iv False x \<and>
      (\<forall>d rest n. 16 dvd length d \<longrightarrow> d \<noteq> [] \<longrightarrow> 1 \<le> n \<longrightarrow> n \<le> 16 \<longrightarrow>
         drop (length d - 16) (id d) = rest @ replicate n (word_of_nat n) \<longrightarrow>
         (\<exists>y z. ev_update plain_evp d x = Some (take (length d - 16) (id d), y) \<and>
            ev_final plain_evp y = Some (rest, z)))"
    by (intro exI [of _ "?x False"] conjI x)
      (auto simp: plain_evp_def plain_final_def Let_def unpad_padded)
qed simp

theorem aes_round_trip_witness:
  "\<exists>y. aes_cbc_encrypt plain_evp [1, 2, 3] (replicate 16 0) (replicate 16 0) = Inr y \<and>
     aes_cbc_decrypt plain_evp y (replicate 16 0) (replicate 16 0) = Inr [1, 2, 3] \<and> length y = 32"
proof -
  have c: "aes_cipher True (length (replicate 16 0 :: bytes)) = Some (Aes_cbc 128)"
    and e: "aes_cipher False (length (replicate 16 0 :: bytes)) = Some (Aes_ecb 128)"
    and i: "length (replicate 16 0 :: bytes) = 16" by (simp_all add: aes_cipher_def)
  have g: "\<not> is_gcm (Aes_cbc 128)" "\<not> is_gcm (Aes_ecb 128)" by (simp_all add: is_gcm_def)
  from aes_round_trip [OF c i plain_block_mode [OF g(1)] e plain_block_mode [OF g(2)], of "[1, 2, 3]"]
  show ?thesis by auto
qed

section \<open>AES-GCM\<close>

text \<open>What OpenSSL documents of GCM: decryption of a ciphertext with its tag gives the data back.\<close>

definition gcm_inverts :: "('c, 'x) evp_scheme \<Rightarrow> bytes \<Rightarrow> bytes \<Rightarrow> bytes \<Rightarrow> bytes \<Rightarrow> bool" where
  "gcm_inverts E key nonce aad data \<longleftrightarrow>
     (\<exists>x x' y y' y'' c tag.
        aes_gcm_start E key nonce aad True = Inr x \<and> aes_gcm_finish E data x = Inr (c, x') \<and>
        ev_get_tag E x' = Some tag \<and> length tag = 16 \<and>
        aes_gcm_start E key nonce aad False = Inr y \<and> ev_set_tag E tag y = Some y' \<and>
        aes_gcm_finish E c y' = Inr (data, y''))"

text \<open>
  AES-GCM round trip.  The tag is appended to the ciphertext and split off again, so decrypting
  an encrypted message gives it back; and no input shorter than a tag is ever accepted.
\<close>

theorem aes_gcm_round_trip:
  assumes "gcm_inverts E key nonce aad data" and "length short < 16"
  shows "\<exists>out. aes_gcm_encrypt E data key nonce aad = Inr out \<and> 16 \<le> length out \<and>
    aes_gcm_decrypt E out key nonce aad = Inr data \<and>
    aes_gcm_decrypt E short key nonce aad = Inl ''aes gcm: input too short for tag''"
proof -
  obtain x x' y y' y'' c tag where
    "aes_gcm_start E key nonce aad True = Inr x" "aes_gcm_finish E data x = Inr (c, x')"
    "ev_get_tag E x' = Some tag" "length tag = 16"
    "aes_gcm_start E key nonce aad False = Inr y" "ev_set_tag E tag y = Some y'"
    "aes_gcm_finish E c y' = Inr (data, y'')"
    using assms(1) unfolding gcm_inverts_def by blast
  then show ?thesis
    using assms(2) by (simp add: aes_gcm_encrypt_def aes_gcm_decrypt_def aes_gcm_crypt_def)
qed

theorem aes_gcm_round_trip_witness:
  "aes_gcm_decrypt plain_evp ([7, 8] @ replicate 16 2) (replicate 32 0) [1] [] = Inr [7, 8]"
proof -
  have enc: "aes_gcm_encrypt plain_evp [7, 8] (replicate 32 0) [1] [] = Inr ([7, 8] @ replicate 16 2)"
    by (simp add: aes_gcm_encrypt_def aes_gcm_crypt_def aes_gcm_start_def aes_gcm_finish_def
        aes_gcm_cipher_def plain_evp_def plain_final_def is_gcm_def plain_tag_def)
  have "gcm_inverts plain_evp (replicate 32 0) [1] [] [7, 8]"
    by (simp add: gcm_inverts_def aes_gcm_start_def aes_gcm_finish_def aes_gcm_cipher_def
        plain_evp_def plain_final_def is_gcm_def plain_tag_def)
  from aes_gcm_round_trip [OF this, of "[]"] enc show ?thesis by auto
qed

section \<open>UUIDs\<close>

lemma nibbles: "unat (drop_bit 4 (b :: byte)) < 16" "unat (b AND 15) < 16"
proof -
  have "unat b < 256" using unsigned_less [of b] by simp
  moreover have "unat (drop_bit 4 b) = drop_bit 4 (unat b)" by (rule unat_drop_bit_eq)
  ultimately show "unat (drop_bit 4 b) < 16" by (simp only: drop_bit_eq_div) simp
  have "b AND 15 = take_bit 4 b" by (simp add: take_bit_eq_mask mask_eq_exp_minus_1)
  moreover have "unat (take_bit 4 b) = take_bit 4 (unat b)" by (rule unsigned_take_bit_eq)
  ultimately show "unat (b AND 15) < 16" by (simp only: take_bit_eq_mod) simp
qed

lemma hex_digit_in: "unat b < 16 \<Longrightarrow> hex_digit b \<in> set ''0123456789abcdef''"
  unfolding hex_digit_def by (rule nth_mem) simp

lemma version_nibble: "drop_bit 4 ((b AND 15) OR 64 :: byte) = 4"
proof -
  have "drop_bit 4 ((b AND 15) OR 64 :: byte) = (drop_bit 4 b AND drop_bit 4 15) OR drop_bit 4 64"
    by (simp only: drop_bit_or drop_bit_and)
  then show ?thesis by simp
qed

lemma variant_nibble: "hex_digit (drop_bit 4 ((b AND 63) OR 128 :: byte)) \<in> set ''89ab''"
proof -
  have eq: "drop_bit 4 ((b AND 63) OR 128 :: byte) = (drop_bit 4 b AND 3) OR 8"
    by (simp only: drop_bit_or drop_bit_and) simp
  have "drop_bit 4 b AND 3 = take_bit 2 (drop_bit 4 b)" by (simp add: take_bit_eq_mask mask_eq_exp_minus_1)
  moreover have "unat (take_bit 2 w) = take_bit 2 (unat w)" for w :: byte by (rule unsigned_take_bit_eq)
  ultimately have "unat (drop_bit 4 b AND 3) < 4" by (simp only: take_bit_eq_mod) simp
  then have "unat (drop_bit 4 b AND 3) \<in> {0, 1, 2, 3}" by auto
  then have "drop_bit 4 b AND 3 \<in> {0, 1, 2, 3}"
    by (auto dest: arg_cong [of _ _ "word_of_nat :: nat \<Rightarrow> byte"])
  then show ?thesis unfolding eq by (auto simp: hex_digit_def)
qed

lemma list16:
  assumes "length xs = 16"
  obtains b0 b1 b2 b3 b4 b5 b6 b7 b8 b9 b10 b11 b12 b13 b14 b15 where
    "xs = [b0, b1, b2, b3, b4, b5, b6, b7, b8, b9, b10, b11, b12, b13, b14, b15]"
  using assms by (auto simp: numeral_eq_Suc length_Suc_conv)

text \<open>
  Random UUIDs are version 4, variant 1.  Whatever 16 bytes the generator yields, the text has the
  shape 8-4-4-4-12 of lower-case hexadecimal digits, its version digit is \<open>4\<close> and its variant digit
  one of \<open>8\<close>, \<open>9\<close>, \<open>a\<close>, \<open>b\<close>.
\<close>

theorem random_uuid_format:
  assumes "ev_rand E 16 = Some bs" and "length bs = 16"
  shows "\<exists>a b c d e. random_uuid E = Inr (a @ ''-'' @ b @ ''-4'' @ c @ ''-'' @ d @ ''-'' @ e) \<and>
    map length [a, b, c, d, e] = [8, 4, 3, 4, 12] \<and> hd d \<in> set ''89ab'' \<and>
    set (a @ b @ c @ d @ e) \<subseteq> set ''0123456789abcdef''"
proof -
  obtain b0 b1 b2 b3 b4 b5 b6 b7 b8 b9 b10 b11 b12 b13 b14 b15 where
    bs: "bs = [b0, b1, b2, b3, b4, b5, b6, b7, b8, b9, b10, b11, b12, b13, b14, b15]"
    by (rule list16 [OF assms(2)])
  define H where "H x = hex_digit (drop_bit 4 x)" for x
  define L where "L x = hex_digit (x AND 15)" for x
  have hl: "H x \<in> set ''0123456789abcdef''" "L x \<in> set ''0123456789abcdef''" for x
    unfolding H_def L_def by (rule hex_digit_in, rule nibbles)+
  let ?v = "(b6 AND 15) OR 64" and ?w = "(b8 AND 63) OR 128"
  have v: "H ?v = CHR ''4''" unfolding H_def version_nibble by (simp add: hex_digit_def)
  have w: "H ?w \<in> set ''89ab''" unfolding H_def by (rule variant_nibble)
  have u: "random_uuid E = Inr
     ([H b0, L b0, H b1, L b1, H b2, L b2, H b3, L b3] @ ''-'' @ [H b4, L b4, H b5, L b5] @ ''-4'' @
      [L ?v, H b7, L b7] @ ''-'' @ [H ?w, L ?w, H b9, L b9] @ ''-'' @
      [H b10, L b10, H b11, L b11, H b12, L b12, H b13, L b13, H b14, L b14, H b15, L b15])"
    using assms(1) v unfolding bs H_def L_def
    by (simp add: random_uuid_def random_bytes_def numeral_eq_Suc)
  show ?thesis
    unfolding u using hl w by (intro exI conjI) (rule refl, simp_all)
qed

theorem random_uuid_format_witness:
  "random_uuid plain_evp = Inr ''ffffffff-ffff-4fff-bfff-ffffffffffff'' \<and>
     (\<exists>a b c d e. random_uuid plain_evp = Inr (a @ ''-'' @ b @ ''-4'' @ c @ ''-'' @ d @ ''-'' @ e) \<and>
        map length [a, b, c, d, e] = [8, 4, 3, 4, 12] \<and> hd d \<in> set ''89ab'' \<and>
        set (a @ b @ c @ d @ e) \<subseteq> set ''0123456789abcdef'')"
proof
  have r: "ev_rand plain_evp 16 = Some (replicate 16 255)" by (simp add: plain_evp_def)
  show "\<exists>a b c d e. random_uuid plain_evp = Inr (a @ ''-'' @ b @ ''-4'' @ c @ ''-'' @ d @ ''-'' @ e) \<and>
      map length [a, b, c, d, e] = [8, 4, 3, 4, 12] \<and> hd d \<in> set ''89ab'' \<and>
      set (a @ b @ c @ d @ e) \<subseteq> set ''0123456789abcdef''"
    by (rule random_uuid_format [OF r]) simp
qed code_simp

end
