(* ===== verification/HostLoop.thy ===== *)
theory HostLoop
  imports JsApi
begin

text \<open>
  The event loop of a host (\<open>run_loop\<close> of \<open>src/host.cpp\<close>).  The state \<open>'h\<close> is that of the whole host, its
  JS runtime included.  asio's \<open>io_context\<close> and what its handlers do are the fields of a record \<open>loop_env\<close>.

  A loop that never returns is \<open>None\<close>; that it returns is proved from a measure.
\<close>

section \<open>The loop\<close>

record 'h loop_env =
  lp_pending :: "'h \<Rightarrow> int"
  lp_http :: "'h \<Rightarrow> bool"
  lp_stopped :: "'h \<Rightarrow> bool"
  lp_restart :: "'h \<Rightarrow> 'h"
  lp_run_one :: "'h \<Rightarrow> 'h"

definition loop_poll :: "('h, 'y) loop_env_scheme \<Rightarrow> 'h \<Rightarrow> 'h" where
  "loop_poll L h = lp_run_one L (if lp_stopped L h then lp_restart L h else h)"

text \<open>The condition of the loop, and the one under which it breaks after the jobs have run.\<close>

definition loop_busy :: "('v, 'h, 'x) js_scheme \<Rightarrow> ('h, 'y) loop_env_scheme \<Rightarrow> 'h \<Rightarrow> bool" where
  "loop_busy J L h \<longleftrightarrow> 0 < lp_pending L h \<or> js_job_pending J h \<or> lp_http L h"

definition loop_done :: "('v, 'h, 'x) js_scheme \<Rightarrow> ('h, 'y) loop_env_scheme \<Rightarrow> 'h \<Rightarrow> bool" where
  "loop_done J L h \<longleftrightarrow> lp_pending L h = 0 \<and> \<not> js_job_pending J h \<and> \<not> lp_http L h"

partial_function (option) run_loop ::
  "('v, 'h, 'x) js_scheme \<Rightarrow> ('h, 'y) loop_env_scheme \<Rightarrow> 'h \<Rightarrow> 'h option" where
  "run_loop J L h =
     (if loop_busy J L h
      then Option.bind (drain_jobs J h) (\<lambda>(good, h1).
             if loop_done J L h1 then map_option snd (drain_jobs J h1)
             else run_loop J L (loop_poll L h1))
      else map_option snd (drain_jobs J h))"

section \<open>It returns\<close>

text \<open>
  What asio documents of the calls the loop makes.  On a stopped \<open>io_context\<close>, \<open>run_one\<close> returns at once and runs
  nothing; \<open>restart\<close> clears that flag and touches nothing of the host.
\<close>

definition asio_context :: "('v, 'h, 'x) js_scheme \<Rightarrow> ('h, 'y) loop_env_scheme \<Rightarrow> bool" where
  "asio_context J L \<longleftrightarrow>
     (\<forall>h. lp_stopped L h \<longrightarrow> lp_run_one L h = h) \<and>
     (\<forall>h. \<not> lp_stopped L (lp_restart L h) \<and> lp_pending L (lp_restart L h) = lp_pending L h \<and>
        lp_http L (lp_restart L h) = lp_http L h \<and> js_job_pending J (lp_restart L h) = js_job_pending J h)"

text \<open>
  The work a host has left, for a script that ends.  \<open>m\<close> bounds the handlers still to be run and the turns
  the loop spins for the thread pool.  The microtasks end and start nothing that \<open>m\<close> does not have, \<open>restart\<close> is no
  work, and \<open>run_one\<close> takes something off it when the context is not stopped and the host not idle.
\<close>

definition loop_progress ::
  "('v, 'h, 'x) js_scheme \<Rightarrow> ('h, 'y) loop_env_scheme \<Rightarrow> ('h \<Rightarrow> bool) \<Rightarrow> ('h \<Rightarrow> nat) \<Rightarrow> bool" where
  "loop_progress J L P m \<longleftrightarrow>
     asio_context J L \<and>
     (\<forall>h. P h \<longrightarrow> (\<exists>good h1. drain_jobs J h = Some (good, h1) \<and> P h1 \<and> m h1 \<le> m h)) \<and>
     (\<forall>h. P h \<longrightarrow> P (lp_restart L h) \<and> m (lp_restart L h) = m h) \<and>
     (\<forall>h. P h \<longrightarrow> \<not> lp_stopped L h \<longrightarrow> lp_pending L h \<noteq> 0 \<or> js_job_pending J h \<or> lp_http L h \<longrightarrow>
        P (lp_run_one L h) \<and> m (lp_run_one L h) < m h)"

text \<open>So does every turn of the loop, stopped context or not.\<close>

lemma poll_progress:
  assumes prog: "loop_progress J L P m" and h: "P h" and n: "\<not> loop_done J L h"
  shows "P (loop_poll L h) \<and> m (loop_poll L h) < m h"
proof (cases "lp_stopped L h")
  case True
  let ?k = "lp_restart L h"
  have k: "P ?k" "m ?k = m h" "\<not> lp_stopped L ?k"
    and f: "lp_pending L ?k = lp_pending L h" "lp_http L ?k = lp_http L h" "js_job_pending J ?k = js_job_pending J h"
    using prog h unfolding loop_progress_def asio_context_def by blast+
  have "lp_pending L ?k \<noteq> 0 \<or> js_job_pending J ?k \<or> lp_http L ?k" using n unfolding f loop_done_def by blast
  then have "P (lp_run_one L ?k) \<and> m (lp_run_one L ?k) < m ?k" using prog k unfolding loop_progress_def by blast
  then show ?thesis using True k(2) by (simp add: loop_poll_def)
next
  case False
  have "lp_pending L h \<noteq> 0 \<or> js_job_pending J h \<or> lp_http L h" using n unfolding loop_done_def by blast
  then have "P (lp_run_one L h) \<and> m (lp_run_one L h) < m h" using prog h False unfolding loop_progress_def by blast
  then show ?thesis using False by (simp add: loop_poll_def)
qed

lemma drain_idle_same: "\<not> js_job_pending J h \<Longrightarrow> map_option snd (drain_jobs J h) = Some h"
  by (simp add: drain_jobs_idle)

lemma run_loop_ends:
  assumes "loop_progress J L P m" and "P h"
  shows "\<exists>t. run_loop J L h = Some t \<and> P t \<and> \<not> loop_busy J L t"
  using assms(2)
proof (induction "m h" arbitrary: h rule: less_induct)
  case less
  obtain good h1 where d: "drain_jobs J h = Some (good, h1)" "P h1"
    and le: "m h1 \<le> m h"
    using assms(1) less.prems unfolding loop_progress_def by blast
  note n = poll_progress [OF assms(1) d(2)]
  have j1: "\<not> js_job_pending J h1" using d(1) by (rule drain_jobs_empties)
  show ?case
  proof (cases "loop_busy J L h")
    case False
    then have "\<not> js_job_pending J h" by (simp add: loop_busy_def)
    then have "run_loop J L h = Some h" using False by (subst run_loop.simps) (simp add: drain_idle_same)
    then show ?thesis using False less.prems by blast
  next
    case True
    show ?thesis
    proof (cases "loop_done J L h1")
      case True
      then have "run_loop J L h = Some h1"
        using \<open>loop_busy J L h\<close> d(1) j1 by (subst run_loop.simps) (simp add: drain_idle_same)
      moreover have "\<not> loop_busy J L h1" using True by (simp add: loop_busy_def loop_done_def)
      ultimately show ?thesis using d(2) by blast
    next
      case False
      then have "run_loop J L h = run_loop J L (loop_poll L h1)"
        using True d(1) by (subst run_loop.simps) simp
      moreover have "\<exists>t. run_loop J L (loop_poll L h1) = Some t \<and> P t \<and> \<not> loop_busy J L t"
        using n [OF False] le by (intro less.hyps) auto
      ultimately show ?thesis by simp
    qed
  qed
qed

text \<open>What microtasks and turns keep, the loop keeps; and however it was entered, it returns only with an idle host.\<close>

lemma run_loop_partial:
  assumes "run_loop J L h = Some t" and "P h"
    and "\<And>h good h1. P h \<Longrightarrow> drain_jobs J h = Some (good, h1) \<Longrightarrow> P h1"
    and "\<And>h. P h \<Longrightarrow> P (loop_poll L h)"
  shows "P t \<and> \<not> loop_busy J L t"
proof -
  let ?keeps = "\<lambda>J L. (\<forall>h good h1. P h \<longrightarrow> drain_jobs J h = Some (good, h1) \<longrightarrow> P h1) \<and> (\<forall>h. P h \<longrightarrow> P (loop_poll L h))"
  have "?keeps J L \<longrightarrow> P h \<longrightarrow> P t \<and> \<not> loop_busy J L t"
  proof (rule run_loop.raw_induct [where P = "\<lambda>J L h t. ?keeps J L \<longrightarrow> P h \<longrightarrow> P t \<and> \<not> loop_busy J L t", OF _ assms(1)])
    fix f J L h t
    assume IH: "\<And>J L h t. f J L h = Some t \<Longrightarrow> ?keeps J L \<longrightarrow> P h \<longrightarrow> P t \<and> \<not> loop_busy J L t"
      and eq: "(if loop_busy J L h
         then Option.bind (drain_jobs J h) (\<lambda>(good, h1).
                if loop_done J L h1 then map_option snd (drain_jobs J h1) else f J L (loop_poll L h1))
         else map_option snd (drain_jobs J h)) = Some t"
    show "?keeps J L \<longrightarrow> P h \<longrightarrow> P t \<and> \<not> loop_busy J L t"
    proof (intro impI)
      assume k: "?keeps J L" and h: "P h"
      show "P t \<and> \<not> loop_busy J L t"
      proof (cases "loop_busy J L h")
        case False
        then have "\<not> js_job_pending J h" by (simp add: loop_busy_def)
        then show ?thesis using eq False h by (simp add: drain_idle_same)
      next
        case True
        then obtain good h1 where d: "drain_jobs J h = Some (good, h1)"
          and r: "(if loop_done J L h1 then map_option snd (drain_jobs J h1) else f J L (loop_poll L h1)) = Some t"
          using eq by (auto simp: bind_eq_Some_conv)
        have h1: "P h1" using k h d by blast
        show ?thesis
        proof (cases "loop_done J L h1")
          case True
          then have "h1 = t" using r by (simp add: drain_idle_same loop_done_def)
          then show ?thesis using True h1 by (simp add: loop_done_def loop_busy_def)
        next
          case False
          then have "f J L (loop_poll L h1) = Some t" using r by simp
          moreover have "P (loop_poll L h1)" using k h1 by blast
          ultimately show ?thesis using IH k by blast
        qed
      qed
    qed
  qed
  then show ?thesis using assms(2-4) by blast
qed

lemma run_loop_idle: "run_loop J L h = Some t \<Longrightarrow> \<not> loop_busy J L t"
  by (rule conjunct2 [OF run_loop_partial [where P = "\<lambda>h. True"]]) simp_all

lemma run_loop_keeps:
  assumes "run_loop J L h = Some t"
    and "\<And>h good h1. P h \<Longrightarrow> drain_jobs J h = Some (good, h1) \<Longrightarrow> P h1"
    and "\<And>h. P h \<Longrightarrow> P (loop_poll L h)" and "P h"
  shows "P t"
  by (rule conjunct1 [OF run_loop_partial [where P = P, OF assms(1,4)]]) (fact assms(2,3))+

text \<open>
  The event loop returns, and only with an idle host.  For an \<open>io_context\<close> that behaves as asio documents and
  a script that leaves only a bounded amount of work, \<open>run_loop\<close> returns, also when it finds the context stopped, and then
  no operation is pending, no microtask is pending and no HTTP server is active.
\<close>

theorem run_loop_returns:
  assumes "loop_progress J L P m" and "P h"
  shows "\<exists>t. run_loop J L h = Some t \<and> P t \<and> lp_pending L t \<le> 0 \<and> \<not> js_job_pending J t \<and> \<not> lp_http L t"
proof -
  obtain t where t: "run_loop J L h = Some t" "P t" "\<not> loop_busy J L t" using run_loop_ends [OF assms] by blast
  then show ?thesis by (intro exI [of _ t]) (auto simp: loop_busy_def)
qed

text \<open>
  Conversely: as long as something keeps the host busy, an active HTTP server that nobody stops or a count in
  \<open>pending_ops\<close> that nobody takes back.
\<close>

definition keeps_busy :: "('v, 'h, 'x) js_scheme \<Rightarrow> ('h, 'y) loop_env_scheme \<Rightarrow> ('h \<Rightarrow> bool) \<Rightarrow> bool" where
  "keeps_busy J L K \<longleftrightarrow>
     (\<forall>h. K h \<longrightarrow> 0 < lp_pending L h \<or> lp_http L h) \<and>
     (\<forall>h good h1. K h \<longrightarrow> drain_jobs J h = Some (good, h1) \<longrightarrow> K h1) \<and>
     (\<forall>h. K h \<longrightarrow> K (lp_restart L h) \<and> K (lp_run_one L h))"

lemma run_loop_serves:
  assumes "keeps_busy J L K" and "K h"
  shows "run_loop J L h = None"
proof (rule ccontr)
  assume "run_loop J L h \<noteq> None"
  then obtain t where t: "run_loop J L h = Some t" by blast
  have "keeps_busy J L K \<longrightarrow> K h \<longrightarrow> False"
  proof (rule run_loop.raw_induct [where P = "\<lambda>J L h t. keeps_busy J L K \<longrightarrow> K h \<longrightarrow> False", OF _ t])
    fix f J L h t
    assume IH: "\<And>J L h t. f J L h = Some t \<Longrightarrow> keeps_busy J L K \<longrightarrow> K h \<longrightarrow> False"
      and eq: "(if loop_busy J L h
         then Option.bind (drain_jobs J h) (\<lambda>(good, h1).
                if loop_done J L h1 then map_option snd (drain_jobs J h1) else f J L (loop_poll L h1))
         else map_option snd (drain_jobs J h)) = Some t"
    show "keeps_busy J L K \<longrightarrow> K h \<longrightarrow> False"
    proof (intro impI)
      assume k: "keeps_busy J L K" and h: "K h"
      then have "loop_busy J L h" unfolding keeps_busy_def loop_busy_def by blast
      then obtain good h1 where d: "drain_jobs J h = Some (good, h1)"
        and r: "(if loop_done J L h1 then map_option snd (drain_jobs J h1) else f J L (loop_poll L h1)) = Some t"
        using eq by (auto simp: bind_eq_Some_conv)
      have h1: "K h1" using k h d unfolding keeps_busy_def by blast
      then have "0 < lp_pending L h1 \<or> lp_http L h1" using k unfolding keeps_busy_def by blast
      then have "\<not> loop_done J L h1" unfolding loop_done_def by auto
      moreover have "K (loop_poll L h1)" using k h1 unfolding keeps_busy_def loop_poll_def by simp
      ultimately show False using IH r k by auto
    qed
  qed
  then show False using assms by blast
qed

text \<open>
  The event loop does not return early.  As long as every microtask, restart and handler leaves the HTTP
  server active or something in \<open>pending_ops\<close>, \<open>run_loop\<close> never returns.
\<close>

theorem run_loop_stays:
  assumes "keeps_busy J L K" and "K h"
  shows "run_loop J L h = None"
  using assms by (rule run_loop_serves)

section \<open>A loop to evaluate\<close>

text \<open>
  An engine with nothing to do, and a host with some timers on an \<open>io_context\<close> that stops when it
  is out of them; an HTTP server adds nothing to what there is to run.
\<close>

definition quiet_js :: "'v \<Rightarrow> ('v, 'h) js" where
  "quiet_js u =
     \<lparr>js_undefined = u, js_global = u,
      js_is_exception = (\<lambda>v. False), js_is_undefined = (\<lambda>v. True), js_is_null = (\<lambda>v. False),
      js_is_string = (\<lambda>v. False), js_is_object = (\<lambda>v. False), js_is_number = (\<lambda>v. False),
      js_is_bool = (\<lambda>v. False), js_is_function = (\<lambda>v. False), js_is_array_buffer = (\<lambda>v. False),
      js_is_array = (\<lambda>v. False), js_get_array_buffer = (\<lambda>v h. (None, h)),
      js_get_uint8_array = (\<lambda>v h. (None, h)), js_to_cstring = (\<lambda>v h. (None, h)),
      js_to_int32 = (\<lambda>v h. (None, h)), js_to_int64 = (\<lambda>v h. (None, h)), js_to_bool = (\<lambda>v h. (0, h)),
      js_new_string = (\<lambda>s h. (u, h)), js_new_uint8_array = (\<lambda>b h. (u, h)),
      js_parse_json = (\<lambda>s h. (u, h)), js_json_stringify = (\<lambda>v h. (u, h)),
      js_get_property = (\<lambda>v n h. (u, h)), js_call = (\<lambda>f t as h. (u, h)),
      js_get_exception = (\<lambda>h. (u, h)), js_throw_type_error = (\<lambda>m h. h),
      js_promise_state = (\<lambda>v h. PS_not_a_promise), js_promise_result = (\<lambda>v h. (u, h)),
      js_bridge_fn = (\<lambda>i m h. (u, h)), js_job_pending = (\<lambda>h. False),
      js_execute_job = (\<lambda>h. (False, h))\<rparr>"

record demo_loop =
  dl_timers :: nat
  dl_http :: bool
  dl_stopped :: bool

definition loop_demo :: "demo_loop loop_env" where
  "loop_demo =
     \<lparr>lp_pending = (\<lambda>h. int (dl_timers h)), lp_http = dl_http, lp_stopped = dl_stopped,
      lp_restart = (\<lambda>h. h\<lparr>dl_stopped := False\<rparr>),
      lp_run_one = (\<lambda>h.
        if dl_stopped h then h
        else if dl_timers h = 0 then h\<lparr>dl_stopped := True\<rparr>
        else h\<lparr>dl_timers := dl_timers h - 1\<rparr>)\<rparr>"

lemma quiet_js_drains: "drain_jobs (quiet_js u) h = Some (True, h)"
  by (rule drain_jobs_idle) (simp add: quiet_js_def)

lemma loop_demo_progress: "loop_progress (quiet_js ()) loop_demo (\<lambda>h. \<not> dl_http h) dl_timers"
  unfolding loop_progress_def quiet_js_drains asio_context_def by (auto simp: loop_demo_def quiet_js_def)

theorem run_loop_returns_witness:
  "\<exists>t. run_loop (quiet_js ()) loop_demo \<lparr>dl_timers = 3, dl_http = False, dl_stopped = True\<rparr> = Some t \<and> dl_timers t = 0"
proof -
  let ?h = "\<lparr>dl_timers = 3, dl_http = False, dl_stopped = True\<rparr>"
  have "\<not> dl_http ?h" by simp
  from run_loop_returns [OF loop_demo_progress this] show ?thesis by (auto simp: loop_demo_def)
qed

lemma loop_demo_busy: "keeps_busy (quiet_js ()) loop_demo dl_http"
  unfolding keeps_busy_def quiet_js_drains by (simp add: loop_demo_def)

theorem run_loop_stays_witness:
  "run_loop (quiet_js ()) loop_demo \<lparr>dl_timers = 3, dl_http = True, dl_stopped = False\<rparr> = None"
  by (rule run_loop_stays [OF loop_demo_busy]) simp

end
