(* ===== verification/FsOs.thy ===== *)
theory FsOs
  imports JsApi
begin

text \<open>
  The file system as \<open>src/fs.cpp\<close> sees it.  The operating system behind \<open>std::filesystem\<close> and the
  file streams is not part of the repository: its calls are the fields of a record \<open>os\<close> over a
  state \<open>'s\<close> (the disk).  A call that throws \<open>fs::filesystem_error\<close> yields \<open>None\<close>; a stream that does
  not open yields \<open>None\<close> in \<open>os_open_ate\<close> and \<open>False\<close> in \<open>os_open_stream\<close>.  A stream open for writing is named
  by its path and mode: \<open>os_write\<close> says whether it is still good and which bytes it keeps in its buffer,
  \<open>os_close\<close> flushes those and says whether that worked.  \<open>os_alloc\<close> tells which sizes of buffer the
  process can have.

  On top of it: what a native does (\<open>'a outcome\<close>), the composition of its steps, \<open>run_fs\<close> and the two
  helpers that read and write whole files.
\<close>

section \<open>Paths\<close>

text \<open>\<open>fs::path::filename\<close> and \<open>fs::path::parent_path\<close>, on POSIX paths.\<close>

definition filename :: "string \<Rightarrow> string" where
  "filename p = rev (takeWhile (\<lambda>c. c \<noteq> CHR ''/'') (rev p))"

definition parent_path :: "string \<Rightarrow> string" where
  "parent_path p =
     (let d = dropWhile (\<lambda>c. c \<noteq> CHR ''/'') (rev p);
          t = dropWhile (\<lambda>c. c = CHR ''/'') d
      in if d \<noteq> [] \<and> t = [] then ''/'' else rev t)"

lemma parent_of_plain: "CHR ''/'' \<notin> set p \<Longrightarrow> parent_path p = []"
proof -
  assume "CHR ''/'' \<notin> set p"
  then have e: "dropWhile (\<lambda>c. c \<noteq> CHR ''/'') (rev p) = []" by (auto simp: dropWhile_eq_Nil_conv)
  show ?thesis unfolding parent_path_def Let_def e by simp
qed

section \<open>The operating system\<close>

datatype file_type = Ft_not_found | Ft_regular | Ft_directory | Ft_symlink | Ft_other

text \<open>The open mode of \<open>std::fstream\<close>, \<open>binary\<close> being always set.\<close>

record open_mode =
  om_in :: bool
  om_out :: bool
  om_trunc :: bool
  om_app :: bool

record 's os =
  os_alloc :: "nat \<Rightarrow> bool"
  os_open_ate :: "string \<Rightarrow> 's \<Rightarrow> (int \<times> bytes) option"
  os_open_stream :: "string \<Rightarrow> open_mode \<Rightarrow> 's \<Rightarrow> bool \<times> 's"
  os_write :: "string \<Rightarrow> open_mode \<Rightarrow> bytes \<Rightarrow> 's \<Rightarrow> bool \<times> bytes \<times> 's"
  os_close :: "string \<Rightarrow> open_mode \<Rightarrow> bytes \<Rightarrow> 's \<Rightarrow> bool \<times> 's"
  os_create_directories :: "string \<Rightarrow> 's \<Rightarrow> bool option \<times> 's"
  os_create_directory :: "string \<Rightarrow> 's \<Rightarrow> bool option \<times> 's"
  os_exists :: "string \<Rightarrow> 's \<Rightarrow> bool option"
  os_remove :: "string \<Rightarrow> 's \<Rightarrow> bool option \<times> 's"
  os_remove_all :: "string \<Rightarrow> 's \<Rightarrow> 64 word option \<times> 's"
  os_directory :: "string \<Rightarrow> 's \<Rightarrow> string list option"
  os_walk :: "string \<Rightarrow> 's \<Rightarrow> string list"
  os_copy_file :: "string \<Rightarrow> string \<Rightarrow> 's \<Rightarrow> unit option \<times> 's"
  os_copy :: "bool \<Rightarrow> string \<Rightarrow> string \<Rightarrow> 's \<Rightarrow> unit option \<times> 's"
  os_rename :: "string \<Rightarrow> string \<Rightarrow> 's \<Rightarrow> unit option \<times> 's"
  os_status :: "string \<Rightarrow> 's \<Rightarrow> file_type option"
  os_symlink_status :: "string \<Rightarrow> 's \<Rightarrow> file_type option"
  os_file_size :: "string \<Rightarrow> 's \<Rightarrow> 64 word option"
  os_permissions :: "string \<Rightarrow> 32 word \<Rightarrow> 's \<Rightarrow> unit option \<times> 's"
  os_canonical :: "string \<Rightarrow> 's \<Rightarrow> string option"
  os_create_symlink :: "string \<Rightarrow> string \<Rightarrow> 's \<Rightarrow> unit option \<times> 's"
  os_read_symlink :: "string \<Rightarrow> 's \<Rightarrow> string option"
  os_create_hard_link :: "string \<Rightarrow> string \<Rightarrow> 's \<Rightarrow> unit option \<times> 's"
  os_resize_file :: "string \<Rightarrow> 64 word \<Rightarrow> 's \<Rightarrow> unit option \<times> 's"
  os_last_write_time :: "string \<Rightarrow> 64 word \<Rightarrow> 's \<Rightarrow> unit option \<times> 's"
  os_space :: "string \<Rightarrow> 's \<Rightarrow> (64 word \<times> 64 word \<times> 64 word) option"
  os_temp_directory :: "'s \<Rightarrow> string option"
  os_clock :: "'s \<Rightarrow> nat"

section \<open>What a native does\<close>

text \<open>
  A native returns, throws a \<open>std::exception\<close> with a text, or takes the process down: an exception
  that leaves a task of the file thread pool ends its thread's \<open>ioc.run()\<close> and so the process.
  The state of a host that matters here is the disk and whether a JS exception is pending.
\<close>

datatype 'a outcome = Returns 'a | Throws string | Terminates

record 's fs_host =
  fh_disk :: 's
  fh_exception :: bool

type_synonym ('s, 'a) fs_native = "'s fs_host \<Rightarrow> 'a outcome \<times> 's fs_host"

definition fs_return :: "'a \<Rightarrow> ('s, 'a) fs_native" where
  "fs_return x w = (Returns x, w)"

definition fs_then :: "('s, 'a) fs_native \<Rightarrow> ('a \<Rightarrow> ('s, 'b) fs_native) \<Rightarrow> ('s, 'b) fs_native" where
  "fs_then m f w =
     (case m w of
        (Returns x, w1) \<Rightarrow> f x w1
      | (Throws e, w1) \<Rightarrow> (Throws e, w1)
      | (Terminates, w1) \<Rightarrow> (Terminates, w1))"

text \<open>\<open>Host::throw_reference_error\<close>: the exception's text does not depend on the message.\<close>

definition throw_reference_error :: "('s, 'a) fs_native" where
  "throw_reference_error w = (Throws ''reference error'', w\<lparr>fh_exception := True\<rparr>)"

text \<open>\<open>run_fs\<close>, and the hand-written copies of it: the task runs on the pool, the caller waits.\<close>

definition run_fs :: "('s \<Rightarrow> 'a option \<times> 's) \<Rightarrow> ('s, 'a) fs_native" where
  "run_fs f w =
     (case f (fh_disk w) of
        (Some x, d) \<Rightarrow> (Returns x, w\<lparr>fh_disk := d\<rparr>)
      | (None, d) \<Rightarrow> (Terminates, w\<lparr>fh_disk := d\<rparr>))"

text \<open>A call that only looks at the disk.\<close>

definition peek :: "('s \<Rightarrow> 'a option) \<Rightarrow> 's \<Rightarrow> 'a option \<times> 's" where
  "peek f d = (f d, d)"

named_theorems fs_simps

lemma fs_return_run [fs_simps]: "fs_return x w = (Returns x, w)"
  by (simp add: fs_return_def)

lemma fs_then_run [fs_simps]:
  "m w = (Returns x, w1) \<Longrightarrow> fs_then m f w = f x w1"
  "m w = (Throws e, w1) \<Longrightarrow> fs_then m f w = (Throws e, w1)"
  "m w = (Terminates, w1) \<Longrightarrow> fs_then m f w = (Terminates, w1)"
  by (simp_all add: fs_then_def)

lemma run_fs_run [fs_simps]:
  "f (fh_disk w) = (Some x, d) \<Longrightarrow> run_fs f w = (Returns x, w\<lparr>fh_disk := d\<rparr>)"
  "f (fh_disk w) = (None, d) \<Longrightarrow> run_fs f w = (Terminates, w\<lparr>fh_disk := d\<rparr>)"
  by (simp_all add: run_fs_def)

section \<open>Whole files\<close>

text \<open>
  \<open>os_open_ate\<close> gives what \<open>tellg\<close> says at the end of the file and what \<open>read\<close> can read.  \<open>None\<close> is the
  \<open>std::bad_alloc\<close> of a buffer of the size that \<open>tellg\<close> said.
\<close>

definition read_file_sync :: "('s, 'x) os_scheme \<Rightarrow> string \<Rightarrow> 's \<Rightarrow> bytes option" where
  "read_file_sync S path d =
     (case os_open_ate S path d of
        None \<Rightarrow> Some []
      | Some (sz, content) \<Rightarrow>
          if sz \<le> 0 then Some []
          else if \<not> os_alloc S (nat sz) then None
          else Some (take (nat sz) (content @ replicate (nat sz) 0)))"

text \<open>The modes of \<open>std::ofstream\<close>: \<open>binary\<close>, and \<open>binary | app\<close>; the stream itself adds \<open>out\<close>.\<close>

definition out_mode :: open_mode where
  "out_mode = \<lparr>om_in = False, om_out = True, om_trunc = False, om_app = False\<rparr>"

definition app_mode :: open_mode where
  "app_mode = \<lparr>om_in = False, om_out = True, om_trunc = False, om_app = True\<rparr>"

text \<open>
  A local \<open>std::ofstream\<close>: it is opened, written once and asked whether it is good; its destructor flushes
  and closes it.  The result is the answer, \<open>None\<close> if it did not open, and what became of the flush,
  which no caller gets to see.
\<close>

definition stream_write ::
  "('s, 'x) os_scheme \<Rightarrow> string \<Rightarrow> open_mode \<Rightarrow> bytes \<Rightarrow> 's \<Rightarrow> bool option \<times> bool \<times> 's" where
  "stream_write S path mode data d =
     (case os_open_stream S path mode d of
        (False, d1) \<Rightarrow> (None, True, d1)
      | (True, d1) \<Rightarrow>
          (case os_write S path mode data d1 of
             (good, rest, d2) \<Rightarrow> (Some good, os_close S path mode rest d2)))"

definition make_parent :: "('s, 'x) os_scheme \<Rightarrow> string \<Rightarrow> 's \<Rightarrow> bool option \<times> 's" where
  "make_parent S path d =
     (if parent_path path \<noteq> [] then os_create_directories S (parent_path path) d else (Some True, d))"

definition write_file_sync ::
  "('s, 'x) os_scheme \<Rightarrow> string \<Rightarrow> bytes \<Rightarrow> 's \<Rightarrow> bool option \<times> 's" where
  "write_file_sync S path data d =
     (case make_parent S path d of
        (None, d1) \<Rightarrow> (None, d1)
      | (Some _, d1) \<Rightarrow>
          (case stream_write S path out_mode data d1 of
             (None, _, d2) \<Rightarrow> (Some False, d2)
           | (Some good, _, d2) \<Rightarrow> (Some good, d2)))"

end
