(* ===== verification/FsNative.thy ===== *)
theory FsNative
  imports FsOs
begin

text \<open>
  The natives of \<open>src/fs.cpp\<close> that JavaScript calls synchronously, each a \<open>fs_native\<close> over the
  operating system \<open>S\<close>.  A JS value that a native builds is a \<open>js_value\<close>.
\<close>

unbundle bit_operations_syntax

datatype js_value =
    J_undefined
  | J_text string
  | J_bytes bytes
  | J_buffer bytes
  | J_int int
  | J_bool bool
  | J_array "js_value list"
  | J_object "(string \<times> js_value) list"
  | J_function string

text \<open>\<open>JS_NewString\<close> reads up to the first NUL, \<open>JS_NewInt64\<close> of a \<open>uintmax_t\<close> is signed.\<close>

definition j_cstr :: "string \<Rightarrow> js_value" where
  "j_cstr s = J_text (cstr s)"

definition j_size :: "64 word \<Rightarrow> js_value" where
  "j_size n = J_int (sint n)"

text \<open>A native that returns nothing gives JavaScript undefined.\<close>

definition done_then :: "('s, 'a) fs_native \<Rightarrow> ('s, js_value) fs_native" where
  "done_then m = fs_then m (\<lambda>_. fs_return J_undefined)"

definition require_true :: "('s, bool) fs_native \<Rightarrow> ('s, js_value) fs_native" where
  "require_true m = fs_then m (\<lambda>ok. if ok then fs_return J_undefined else throw_reference_error)"

section \<open>Reading and writing\<close>

definition is_utf8 :: "string \<Rightarrow> bool" where
  "is_utf8 e \<longleftrightarrow> e = ''utf8'' \<or> e = ''utf-8''"

definition native_read_file_sync ::
  "('s, 'x) os_scheme \<Rightarrow> string \<Rightarrow> string option \<Rightarrow> ('s, js_value) fs_native" where
  "native_read_file_sync S path encoding =
     fs_then (run_fs (peek (read_file_sync S path))) (\<lambda>data.
     if data = [] then throw_reference_error
     else fs_return
            (case encoding of
               Some e \<Rightarrow> if is_utf8 e then J_text (string_of_bytes data) else J_bytes data
             | None \<Rightarrow> J_bytes data))"

definition native_write_file_sync ::
  "('s, 'x) os_scheme \<Rightarrow> string \<Rightarrow> bytes \<Rightarrow> ('s, js_value) fs_native" where
  "native_write_file_sync S path data = require_true (run_fs (write_file_sync S path data))"

definition native_append_file_sync ::
  "('s, 'x) os_scheme \<Rightarrow> string \<Rightarrow> bytes \<Rightarrow> ('s, js_value) fs_native" where
  "native_append_file_sync S path data =
     done_then (run_fs (\<lambda>d. case stream_write S path app_mode data d of
        (None, _, d1) \<Rightarrow> (Some False, d1) | (Some good, _, d1) \<Rightarrow> (Some good, d1)))"

definition native_truncate_sync ::
  "('s, 'x) os_scheme \<Rightarrow> string \<Rightarrow> 32 word \<Rightarrow> ('s, js_value) fs_native" where
  "native_truncate_sync S path len =
     require_true (run_fs (\<lambda>d. case os_resize_file S path (scast len) d of
        (None, d1) \<Rightarrow> (Some False, d1) | (Some _, d1) \<Rightarrow> (Some True, d1)))"

definition native_create_read_stream ::
  "('s, 'x) os_scheme \<Rightarrow> string \<Rightarrow> ('s, js_value) fs_native" where
  "native_create_read_stream S path w =
     (case read_file_sync S path (fh_disk w) of
        None \<Rightarrow> (Throws ''std::bad_alloc'', w)
      | Some data \<Rightarrow> if data = [] then throw_reference_error w else fs_return (J_bytes data) w)"

section \<open>Looking at the disk\<close>

text \<open>\<open>fs::exists\<close> runs on the JS thread: its exception reaches the caller.\<close>

definition native_exists_sync :: "('s, 'x) os_scheme \<Rightarrow> string \<Rightarrow> ('s, js_value) fs_native" where
  "native_exists_sync S path w =
     (case os_exists S path (fh_disk w) of
        None \<Rightarrow> (Throws ''filesystem error'', w)
      | Some b \<Rightarrow> (Returns (J_bool b), w))"

definition native_access_sync ::
  "('s, 'x) os_scheme \<Rightarrow> string \<Rightarrow> 32 word \<Rightarrow> ('s, js_value) fs_native" where
  "native_access_sync S path mode =
     require_true (run_fs (peek (\<lambda>d. if mode = 0 then os_exists S path d else Some True)))"

definition stat_object :: "file_type \<Rightarrow> js_value \<Rightarrow> js_value" where
  "stat_object t sz =
     J_object [(''isFile'', J_bool (t = Ft_regular)), (''isDirectory'', J_bool (t = Ft_directory)),
       (''isSymbolicLink'', J_bool (t = Ft_symlink)), (''size'', sz)]"

definition stat_with ::
  "('s, 'x) os_scheme \<Rightarrow> ('s \<Rightarrow> file_type option) \<Rightarrow> string \<Rightarrow> ('s, js_value) fs_native" where
  "stat_with S look path =
     fs_then (run_fs (peek look)) (\<lambda>t.
     if t = Ft_not_found then throw_reference_error
     else if t = Ft_regular
       then fs_then (run_fs (peek (os_file_size S path))) (\<lambda>n. fs_return (stat_object t (j_size n)))
       else fs_return (stat_object t (J_int 0)))"

definition native_stat_sync :: "('s, 'x) os_scheme \<Rightarrow> string \<Rightarrow> ('s, js_value) fs_native" where
  "native_stat_sync S path = stat_with S (os_status S path) path"

definition native_lstat_sync :: "('s, 'x) os_scheme \<Rightarrow> string \<Rightarrow> ('s, js_value) fs_native" where
  "native_lstat_sync S path = stat_with S (os_symlink_status S path) path"

definition native_fstat_sync :: "32 word \<Rightarrow> ('s, js_value) fs_native" where
  "native_fstat_sync fd =
     fs_return (J_object [(''isFile'', J_bool True), (''isDirectory'', J_bool False), (''size'', J_int 0)])"

definition native_statfs_sync :: "('s, 'x) os_scheme \<Rightarrow> string \<Rightarrow> ('s, js_value) fs_native" where
  "native_statfs_sync S path =
     fs_then (run_fs (peek (os_space S path))) (\<lambda>(capacity, free, available).
     fs_return (J_object [(''capacity'', j_size capacity), (''free'', j_size free), (''available'', j_size available)]))"

definition native_readdir_sync :: "('s, 'x) os_scheme \<Rightarrow> string \<Rightarrow> ('s, js_value) fs_native" where
  "native_readdir_sync S path =
     fs_then (run_fs (peek (os_directory S path))) (\<lambda>entries.
     fs_return (J_array (map (\<lambda>e. j_cstr (filename e)) entries)))"

definition native_realpath_sync :: "('s, 'x) os_scheme \<Rightarrow> string \<Rightarrow> ('s, string) fs_native" where
  "native_realpath_sync S path = run_fs (peek (os_canonical S path))"

definition native_readlink_sync :: "('s, 'x) os_scheme \<Rightarrow> string \<Rightarrow> ('s, string) fs_native" where
  "native_readlink_sync S path = run_fs (peek (os_read_symlink S path))"

section \<open>Changing the disk\<close>

definition native_unlink_sync :: "('s, 'x) os_scheme \<Rightarrow> string \<Rightarrow> ('s, js_value) fs_native" where
  "native_unlink_sync S path = done_then (run_fs (os_remove S path))"

definition native_mkdir_sync ::
  "('s, 'x) os_scheme \<Rightarrow> string \<Rightarrow> bool \<Rightarrow> ('s, js_value) fs_native" where
  "native_mkdir_sync S path recursive =
     require_true (run_fs (if recursive then os_create_directories S path else os_create_directory S path))"

definition native_rm_sync ::
  "('s, 'x) os_scheme \<Rightarrow> string \<Rightarrow> bool \<Rightarrow> ('s, js_value) fs_native" where
  "native_rm_sync S path recursive =
     done_then (run_fs (\<lambda>d. if recursive
        then (case os_remove_all S path d of (n, d1) \<Rightarrow> (map_option (\<lambda>n. n > 0) n, d1))
        else os_remove S path d))"

definition native_rmdir_sync :: "('s, 'x) os_scheme \<Rightarrow> string \<Rightarrow> ('s, js_value) fs_native" where
  "native_rmdir_sync S path = done_then (run_fs (os_remove S path))"

definition native_copy_file_sync ::
  "('s, 'x) os_scheme \<Rightarrow> string \<Rightarrow> string \<Rightarrow> ('s, js_value) fs_native" where
  "native_copy_file_sync S src dest = done_then (run_fs (os_copy_file S src dest))"

definition native_cp_sync ::
  "('s, 'x) os_scheme \<Rightarrow> string \<Rightarrow> string \<Rightarrow> bool \<Rightarrow> ('s, js_value) fs_native" where
  "native_cp_sync S src dest recursive = done_then (run_fs (os_copy S recursive src dest))"

definition native_rename_sync ::
  "('s, 'x) os_scheme \<Rightarrow> string \<Rightarrow> string \<Rightarrow> ('s, js_value) fs_native" where
  "native_rename_sync S old_path new_path = done_then (run_fs (os_rename S old_path new_path))"

definition native_chmod_sync ::
  "('s, 'x) os_scheme \<Rightarrow> string \<Rightarrow> 32 word \<Rightarrow> ('s, js_value) fs_native" where
  "native_chmod_sync S path mode = done_then (run_fs (os_permissions S path mode))"

definition native_lchmod_sync ::
  "('s, 'x) os_scheme \<Rightarrow> string \<Rightarrow> 32 word \<Rightarrow> ('s, js_value) fs_native" where
  "native_lchmod_sync S path mode = native_chmod_sync S path mode"

definition native_symlink_sync ::
  "('s, 'x) os_scheme \<Rightarrow> string \<Rightarrow> string \<Rightarrow> ('s, js_value) fs_native" where
  "native_symlink_sync S target path = done_then (run_fs (os_create_symlink S target path))"

definition native_link_sync ::
  "('s, 'x) os_scheme \<Rightarrow> string \<Rightarrow> string \<Rightarrow> ('s, js_value) fs_native" where
  "native_link_sync S existing new_path = done_then (run_fs (os_create_hard_link S existing new_path))"

definition native_utimes_sync ::
  "('s, 'x) os_scheme \<Rightarrow> string \<Rightarrow> 64 word \<Rightarrow> 64 word \<Rightarrow> ('s, js_value) fs_native" where
  "native_utimes_sync S path atime mtime =
     require_true (run_fs (\<lambda>d. case os_last_write_time S path mtime d of
        (None, d1) \<Rightarrow> (Some False, d1) | (Some _, d1) \<Rightarrow> (Some True, d1)))"

definition native_lutimes_sync ::
  "('s, 'x) os_scheme \<Rightarrow> string \<Rightarrow> 64 word \<Rightarrow> 64 word \<Rightarrow> ('s, js_value) fs_native" where
  "native_lutimes_sync S path atime mtime = native_utimes_sync S path atime mtime"

text \<open>\<open>tmp / (prefix + random)\<close>; \<open>operator/\<close> of an absolute right side drops the left one.\<close>

definition path_join :: "string \<Rightarrow> string \<Rightarrow> string" where
  "path_join a b =
     (if b \<noteq> [] \<and> hd b = CHR ''/'' then b
      else if a = [] \<or> last a = CHR ''/'' then a @ b else a @ CHR ''/'' # b)"

definition temp_path :: "('s, 'x) os_scheme \<Rightarrow> string \<Rightarrow> 's \<Rightarrow> string option" where
  "temp_path S prefix d =
     map_option (\<lambda>tmp. path_join tmp (prefix @ show_nat (os_clock S d))) (os_temp_directory S d)"

definition native_mkdtemp_sync :: "('s, 'x) os_scheme \<Rightarrow> string \<Rightarrow> ('s, string) fs_native" where
  "native_mkdtemp_sync S prefix =
     run_fs (\<lambda>d. case temp_path S prefix d of
        None \<Rightarrow> (None, d)
      | Some p \<Rightarrow> (case os_create_directory S p d of (r, d1) \<Rightarrow> (map_option (\<lambda>_. p) r, d1)))"

definition native_mkstemp_sync :: "('s, 'x) os_scheme \<Rightarrow> string \<Rightarrow> ('s, string) fs_native" where
  "native_mkstemp_sync S prefix =
     run_fs (\<lambda>d. case temp_path S prefix d of
        None \<Rightarrow> (None, d)
      | Some p \<Rightarrow>
          (case os_open_stream S p out_mode d of
             (False, d1) \<Rightarrow> (Some p, d1)
           | (True, d1) \<Rightarrow> (Some p, snd (os_close S p out_mode [] d1))))"

section \<open>Directory iterators, streams and watchers\<close>

text \<open>
  Opening a directory reads nothing of it yet; what \<open>readSync\<close> answers depends on the opaque pointer
  QuickJS keeps for a plain object.  \<open>close_name\<close> is the name the engine function behind
  \<open>closeSync\<close> is created with.
\<close>

definition dir_object :: "string \<Rightarrow> js_value" where
  "dir_object close_name = J_object [(''readSync'', J_function ''''), (''closeSync'', J_function close_name)]"

definition native_opendir_sync :: "('s, 'x) os_scheme \<Rightarrow> string \<Rightarrow> ('s, js_value) fs_native" where
  "native_opendir_sync S path =
     fs_then (run_fs (peek (os_directory S path))) (\<lambda>_. fs_return (dir_object ''close''))"

definition native_create_write_stream :: "string \<Rightarrow> ('s, js_value) fs_native" where
  "native_create_write_stream path = fs_return (J_object [])"

definition native_watch :: "string \<Rightarrow> js_value \<Rightarrow> ('s, js_value) fs_native" where
  "native_watch path listener = fs_return (J_object [(''close'', J_function ''close'')])"

definition native_watch_file :: "string \<Rightarrow> js_value \<Rightarrow> ('s, js_value) fs_native" where
  "native_watch_file path listener =
     fs_return (J_object [(''path'', j_cstr path), (''_listener'', listener), (''close'', J_function ''close'')])"

section \<open>Descriptors\<close>

definition open_mode_of :: "32 word \<Rightarrow> open_mode" where
  "open_mode_of flags =
     \<lparr>om_in = flags AND 2 \<noteq> 0,
      om_out = flags AND 1 \<noteq> 0 \<or> flags AND 2 \<noteq> 0 \<or> flags AND 64 \<noteq> 0 \<or> flags AND 1024 \<noteq> 0,
      om_trunc = flags AND 64 \<noteq> 0,
      om_app = flags AND 1024 \<noteq> 0\<rparr>"

text \<open>
  The standard library opens a stream only for the modes of its table (C++17, [filebuf.members]).
\<close>

definition stream_mode_ok :: "open_mode \<Rightarrow> bool" where
  "stream_mode_ok m \<longleftrightarrow> (om_in m \<or> om_out m \<or> om_app m) \<and> \<not> (om_trunc m \<and> (om_app m \<or> \<not> om_out m))"

definition native_open_sync ::
  "('s, 'x) os_scheme \<Rightarrow> string \<Rightarrow> 32 word \<Rightarrow> ('s, 32 word) fs_native" where
  "native_open_sync S path flags =
     run_fs (\<lambda>d. let m = open_mode_of flags
       in if stream_mode_ok m
          then (case os_open_stream S path m d of (is_open, d1) \<Rightarrow> (Some (if is_open then 3 else -1), d1))
          else (Some (-1), d))"

definition native_read_sync :: "32 word \<Rightarrow> bytes \<Rightarrow> 32 word \<Rightarrow> 32 word \<Rightarrow> 32 word \<Rightarrow> ('s, 32 word) fs_native" where
  "native_read_sync fd buffer offset len pos = fs_return len"

definition native_write_sync :: "32 word \<Rightarrow> bytes \<Rightarrow> 32 word \<Rightarrow> 32 word \<Rightarrow> 32 word \<Rightarrow> ('s, 32 word) fs_native" where
  "native_write_sync fd buffer offset len pos = fs_return len"

definition native_write_sync_string :: "32 word \<Rightarrow> string \<Rightarrow> ('s, 32 word) fs_native" where
  "native_write_sync_string fd str = fs_return (word_of_nat (length str))"

section \<open>Natives without a body\<close>

definition native_no_op :: "('s, js_value) fs_native" where
  "native_no_op = fs_return J_undefined"

definition native_close_sync :: "32 word \<Rightarrow> ('s, js_value) fs_native" where
  "native_close_sync fd = native_no_op"

definition native_fsync_sync :: "32 word \<Rightarrow> ('s, js_value) fs_native" where
  "native_fsync_sync fd = native_no_op"

definition native_fdatasync_sync :: "32 word \<Rightarrow> ('s, js_value) fs_native" where
  "native_fdatasync_sync fd = native_no_op"

definition native_chown_sync :: "string \<Rightarrow> 32 word \<Rightarrow> 32 word \<Rightarrow> ('s, js_value) fs_native" where
  "native_chown_sync path uid gid = native_no_op"

definition native_lchown_sync :: "string \<Rightarrow> 32 word \<Rightarrow> 32 word \<Rightarrow> ('s, js_value) fs_native" where
  "native_lchown_sync path uid gid = native_no_op"

definition native_fchown_sync :: "32 word \<Rightarrow> 32 word \<Rightarrow> 32 word \<Rightarrow> ('s, js_value) fs_native" where
  "native_fchown_sync fd uid gid = native_no_op"

definition native_fchmod_sync :: "32 word \<Rightarrow> 32 word \<Rightarrow> ('s, js_value) fs_native" where
  "native_fchmod_sync fd mode = native_no_op"

definition native_futimes_sync :: "32 word \<Rightarrow> 64 word \<Rightarrow> 64 word \<Rightarrow> ('s, js_value) fs_native" where
  "native_futimes_sync fd atime mtime = native_no_op"

definition native_unwatch_file :: "string \<Rightarrow> js_value \<Rightarrow> ('s, js_value) fs_native" where
  "native_unwatch_file path listener = native_no_op"

end
