(* ===== verification/FsPromises.thy ===== *)
theory FsPromises
  imports FsNative
begin

text \<open>
  The promise natives of \<open>src/fs.cpp\<close>.  Each makes a promise capability, runs the synchronous native
  and settles the promise with its result, or with an \<open>Error\<close> that carries the text of the exception.
  \<open>cap\<close> says whether the capability could be made.
\<close>

text \<open>The promise returned, with the settlements called on it in order: \<open>Inl\<close> rejects.\<close>

datatype promise_result = No_promise | Promise "(string + js_value) list"

definition promise_native ::
  "bool \<Rightarrow> ('s, js_value) fs_native \<Rightarrow> ('s, promise_result) fs_native" where
  "promise_native cap m w =
     (if \<not> cap then (Returns No_promise, w)
      else case m w of
             (Returns v, w1) \<Rightarrow> (Returns (Promise [Inr v]), w1)
           | (Throws e, w1) \<Rightarrow> (Returns (Promise [Inl (cstr e)]), w1)
           | (Terminates, w1) \<Rightarrow> (Terminates, w1))"

definition text_then :: "('s, string) fs_native \<Rightarrow> ('s, js_value) fs_native" where
  "text_then m = fs_then m (\<lambda>s. fs_return (j_cstr s))"

section \<open>The natives\<close>

definition native_promises_read_file ::
  "('s, 'x) os_scheme \<Rightarrow> bool \<Rightarrow> string \<Rightarrow> ('s, promise_result) fs_native" where
  "native_promises_read_file S cap path =
     promise_native cap (native_read_file_sync S path None)"

definition native_promises_write_file ::
  "('s, 'x) os_scheme \<Rightarrow> bool \<Rightarrow> string \<Rightarrow> bytes \<Rightarrow> ('s, promise_result) fs_native" where
  "native_promises_write_file S cap path data =
     promise_native cap (native_write_file_sync S path data)"

definition native_promises_mkdir ::
  "('s, 'x) os_scheme \<Rightarrow> bool \<Rightarrow> string \<Rightarrow> bool \<Rightarrow> ('s, promise_result) fs_native" where
  "native_promises_mkdir S cap path recursive =
     promise_native cap (native_mkdir_sync S path recursive)"

definition native_promises_rm ::
  "('s, 'x) os_scheme \<Rightarrow> bool \<Rightarrow> string \<Rightarrow> bool \<Rightarrow> ('s, promise_result) fs_native" where
  "native_promises_rm S cap path recursive =
     promise_native cap (native_rm_sync S path recursive)"

definition native_promises_readdir ::
  "('s, 'x) os_scheme \<Rightarrow> bool \<Rightarrow> string \<Rightarrow> ('s, promise_result) fs_native" where
  "native_promises_readdir S cap path =
     promise_native cap (native_readdir_sync S path)"

definition native_promises_stat ::
  "('s, 'x) os_scheme \<Rightarrow> bool \<Rightarrow> string \<Rightarrow> ('s, promise_result) fs_native" where
  "native_promises_stat S cap path =
     promise_native cap (native_stat_sync S path)"

definition native_promises_lstat ::
  "('s, 'x) os_scheme \<Rightarrow> bool \<Rightarrow> string \<Rightarrow> ('s, promise_result) fs_native" where
  "native_promises_lstat S cap path =
     promise_native cap (native_lstat_sync S path)"

definition native_promises_access ::
  "('s, 'x) os_scheme \<Rightarrow> bool \<Rightarrow> string \<Rightarrow> 32 word \<Rightarrow> ('s, promise_result) fs_native" where
  "native_promises_access S cap path mode =
     promise_native cap (native_access_sync S path mode)"

definition native_promises_rename ::
  "('s, 'x) os_scheme \<Rightarrow> bool \<Rightarrow> string \<Rightarrow> string \<Rightarrow> ('s, promise_result) fs_native" where
  "native_promises_rename S cap old_path new_path =
     promise_native cap (native_rename_sync S old_path new_path)"

definition native_promises_unlink ::
  "('s, 'x) os_scheme \<Rightarrow> bool \<Rightarrow> string \<Rightarrow> ('s, promise_result) fs_native" where
  "native_promises_unlink S cap path =
     promise_native cap (native_unlink_sync S path)"

definition native_promises_copy_file ::
  "('s, 'x) os_scheme \<Rightarrow> bool \<Rightarrow> string \<Rightarrow> string \<Rightarrow> ('s, promise_result) fs_native" where
  "native_promises_copy_file S cap src dest =
     promise_native cap (native_copy_file_sync S src dest)"

definition native_promises_chmod ::
  "('s, 'x) os_scheme \<Rightarrow> bool \<Rightarrow> string \<Rightarrow> 32 word \<Rightarrow> ('s, promise_result) fs_native" where
  "native_promises_chmod S cap path mode =
     promise_native cap (native_chmod_sync S path mode)"

definition native_promises_append_file ::
  "('s, 'x) os_scheme \<Rightarrow> bool \<Rightarrow> string \<Rightarrow> bytes \<Rightarrow> ('s, promise_result) fs_native" where
  "native_promises_append_file S cap path data =
     promise_native cap (native_append_file_sync S path data)"

definition native_promises_symlink ::
  "('s, 'x) os_scheme \<Rightarrow> bool \<Rightarrow> string \<Rightarrow> string \<Rightarrow> ('s, promise_result) fs_native" where
  "native_promises_symlink S cap target path =
     promise_native cap (native_symlink_sync S target path)"

definition native_promises_readlink ::
  "('s, 'x) os_scheme \<Rightarrow> bool \<Rightarrow> string \<Rightarrow> ('s, promise_result) fs_native" where
  "native_promises_readlink S cap path =
     promise_native cap (text_then (native_readlink_sync S path))"

definition native_promises_realpath ::
  "('s, 'x) os_scheme \<Rightarrow> bool \<Rightarrow> string \<Rightarrow> ('s, promise_result) fs_native" where
  "native_promises_realpath S cap path =
     promise_native cap (text_then (native_realpath_sync S path))"

definition native_promises_chown ::
  "('s, 'x) os_scheme \<Rightarrow> bool \<Rightarrow> string \<Rightarrow> 32 word \<Rightarrow> 32 word \<Rightarrow> ('s, promise_result) fs_native" where
  "native_promises_chown S cap path uid gid =
     promise_native cap (native_chown_sync path uid gid)"

definition native_promises_utimes ::
  "('s, 'x) os_scheme \<Rightarrow> bool \<Rightarrow> string \<Rightarrow> 64 word \<Rightarrow> 64 word \<Rightarrow> ('s, promise_result) fs_native" where
  "native_promises_utimes S cap path atime mtime =
     promise_native cap (native_utimes_sync S path atime mtime)"

definition native_promises_mkdtemp ::
  "('s, 'x) os_scheme \<Rightarrow> bool \<Rightarrow> string \<Rightarrow> ('s, promise_result) fs_native" where
  "native_promises_mkdtemp S cap prefix =
     promise_native cap (text_then (native_mkdtemp_sync S prefix))"

definition native_promises_opendir ::
  "('s, 'x) os_scheme \<Rightarrow> bool \<Rightarrow> string \<Rightarrow> ('s, promise_result) fs_native" where
  "native_promises_opendir S cap path =
     promise_native cap (native_opendir_sync S path)"

section \<open>A promise is settled as the synchronous native ends\<close>

text \<open>A call of the file system interface, in its synchronous and in its promise form.\<close>

datatype fs_call =
    P_read_file string
  | P_write_file string bytes
  | P_mkdir string bool
  | P_rm string bool
  | P_readdir string
  | P_stat string
  | P_lstat string
  | P_access string "32 word"
  | P_rename string string
  | P_unlink string
  | P_copy_file string string
  | P_chmod string "32 word"
  | P_append_file string bytes
  | P_symlink string string
  | P_readlink string
  | P_realpath string
  | P_chown string "32 word" "32 word"
  | P_utimes string "64 word" "64 word"
  | P_mkdtemp string
  | P_opendir string

fun sync_call :: "('s, 'x) os_scheme \<Rightarrow> fs_call \<Rightarrow> ('s, js_value) fs_native" where
  "sync_call S (P_read_file path) = native_read_file_sync S path None"
| "sync_call S (P_write_file path data) = native_write_file_sync S path data"
| "sync_call S (P_mkdir path recursive) = native_mkdir_sync S path recursive"
| "sync_call S (P_rm path recursive) = native_rm_sync S path recursive"
| "sync_call S (P_readdir path) = native_readdir_sync S path"
| "sync_call S (P_stat path) = native_stat_sync S path"
| "sync_call S (P_lstat path) = native_lstat_sync S path"
| "sync_call S (P_access path mode) = native_access_sync S path mode"
| "sync_call S (P_rename old_path new_path) = native_rename_sync S old_path new_path"
| "sync_call S (P_unlink path) = native_unlink_sync S path"
| "sync_call S (P_copy_file src dest) = native_copy_file_sync S src dest"
| "sync_call S (P_chmod path mode) = native_chmod_sync S path mode"
| "sync_call S (P_append_file path data) = native_append_file_sync S path data"
| "sync_call S (P_symlink target path) = native_symlink_sync S target path"
| "sync_call S (P_readlink path) = text_then (native_readlink_sync S path)"
| "sync_call S (P_realpath path) = text_then (native_realpath_sync S path)"
| "sync_call S (P_chown path uid gid) = native_chown_sync path uid gid"
| "sync_call S (P_utimes path atime mtime) = native_utimes_sync S path atime mtime"
| "sync_call S (P_mkdtemp prefix) = text_then (native_mkdtemp_sync S prefix)"
| "sync_call S (P_opendir path) = native_opendir_sync S path"

fun promise_call :: "('s, 'x) os_scheme \<Rightarrow> bool \<Rightarrow> fs_call \<Rightarrow> ('s, promise_result) fs_native" where
  "promise_call S cap (P_read_file path) = native_promises_read_file S cap path"
| "promise_call S cap (P_write_file path data) = native_promises_write_file S cap path data"
| "promise_call S cap (P_mkdir path recursive) = native_promises_mkdir S cap path recursive"
| "promise_call S cap (P_rm path recursive) = native_promises_rm S cap path recursive"
| "promise_call S cap (P_readdir path) = native_promises_readdir S cap path"
| "promise_call S cap (P_stat path) = native_promises_stat S cap path"
| "promise_call S cap (P_lstat path) = native_promises_lstat S cap path"
| "promise_call S cap (P_access path mode) = native_promises_access S cap path mode"
| "promise_call S cap (P_rename old_path new_path) = native_promises_rename S cap old_path new_path"
| "promise_call S cap (P_unlink path) = native_promises_unlink S cap path"
| "promise_call S cap (P_copy_file src dest) = native_promises_copy_file S cap src dest"
| "promise_call S cap (P_chmod path mode) = native_promises_chmod S cap path mode"
| "promise_call S cap (P_append_file path data) = native_promises_append_file S cap path data"
| "promise_call S cap (P_symlink target path) = native_promises_symlink S cap target path"
| "promise_call S cap (P_readlink path) = native_promises_readlink S cap path"
| "promise_call S cap (P_realpath path) = native_promises_realpath S cap path"
| "promise_call S cap (P_chown path uid gid) = native_promises_chown S cap path uid gid"
| "promise_call S cap (P_utimes path atime mtime) = native_promises_utimes S cap path atime mtime"
| "promise_call S cap (P_mkdtemp prefix) = native_promises_mkdtemp S cap prefix"
| "promise_call S cap (P_opendir path) = native_promises_opendir S cap path"

lemmas promise_defs =
  native_promises_read_file_def native_promises_write_file_def native_promises_mkdir_def
  native_promises_rm_def native_promises_readdir_def native_promises_stat_def
  native_promises_lstat_def native_promises_access_def native_promises_rename_def
  native_promises_unlink_def native_promises_copy_file_def native_promises_chmod_def
  native_promises_append_file_def native_promises_symlink_def native_promises_readlink_def
  native_promises_realpath_def native_promises_chown_def native_promises_utimes_def
  native_promises_mkdtemp_def native_promises_opendir_def

lemma promise_call_native: "promise_call S cap c = promise_native cap (sync_call S c)"
  by (cases c) (simp_all add: promise_defs)

text \<open>
  How a native that is not the boolean query \<open>existsSync\<close> can end: it returns and raises nothing, it
  throws through \<open>throw_reference_error\<close>, or the process ends.
\<close>

definition fs_ends :: "('s, 'a) fs_native \<Rightarrow> bool" where
  "fs_ends m \<longleftrightarrow>
     (\<forall>w. \<exists>w1. (\<exists>v. m w = (Returns v, w1) \<and> fh_exception w1 = fh_exception w)
        \<or> m w = (Throws ''reference error'', w1) \<and> fh_exception w1
        \<or> m w = (Terminates, w1))"

named_theorems fs_ends_intros

lemma fs_ends_return [fs_ends_intros]: "fs_ends (fs_return x)"
  by (simp add: fs_ends_def fs_return_def)

lemma fs_ends_throw [fs_ends_intros]: "fs_ends throw_reference_error"
  by (simp add: fs_ends_def throw_reference_error_def)

lemma fs_ends_run [fs_ends_intros]: "fs_ends (run_fs f)"
  unfolding fs_ends_def
proof
  fix w :: "'a fs_host"
  obtain r d where "f (fh_disk w) = (r, d)" by (cases "f (fh_disk w)")
  then show "\<exists>w1. (\<exists>v. run_fs f w = (Returns v, w1) \<and> fh_exception w1 = fh_exception w)
      \<or> run_fs f w = (Throws ''reference error'', w1) \<and> fh_exception w1 \<or> run_fs f w = (Terminates, w1)"
    by (cases r) (simp_all add: fs_simps)
qed

lemma fs_ends_then [fs_ends_intros]:
  assumes "fs_ends m" and "\<And>x. fs_ends (f x)"
  shows "fs_ends (fs_then m f)"
  unfolding fs_ends_def
proof
  fix w
  obtain w1 where "(\<exists>v. m w = (Returns v, w1) \<and> fh_exception w1 = fh_exception w)
      \<or> m w = (Throws ''reference error'', w1) \<and> fh_exception w1 \<or> m w = (Terminates, w1)"
    using assms(1) unfolding fs_ends_def by blast
  then show "\<exists>w1. (\<exists>v. fs_then m f w = (Returns v, w1) \<and> fh_exception w1 = fh_exception w)
      \<or> fs_then m f w = (Throws ''reference error'', w1) \<and> fh_exception w1 \<or> fs_then m f w = (Terminates, w1)"
  proof (elim disjE exE conjE)
    fix v assume v: "m w = (Returns v, w1)" and e: "fh_exception w1 = fh_exception w"
    have "fs_then m f w = f v w1" using v by (simp add: fs_then_def)
    then show ?thesis using assms(2) [of v] e unfolding fs_ends_def by metis
  qed (auto simp: fs_simps)
qed

lemma fs_ends_if [fs_ends_intros]: "fs_ends a \<Longrightarrow> fs_ends b \<Longrightarrow> fs_ends (if c then a else b)"
  by simp

lemmas native_defs =
  native_read_file_sync_def native_write_file_sync_def native_mkdir_sync_def native_rm_sync_def
  native_readdir_sync_def native_stat_sync_def native_lstat_sync_def native_access_sync_def
  native_rename_sync_def native_unlink_sync_def native_copy_file_sync_def native_chmod_sync_def
  native_append_file_sync_def native_symlink_sync_def native_readlink_sync_def
  native_realpath_sync_def native_chown_sync_def native_no_op_def native_utimes_sync_def native_mkdtemp_sync_def
  native_opendir_sync_def stat_with_def text_then_def done_then_def require_true_def

lemma sync_call_ends: "fs_ends (sync_call S c)"
  by (cases c) (simp only: sync_call.simps native_defs, intro fs_ends_intros)+

text \<open>
  C36: every \<open>fs.promises\<close> native settles its promise exactly once, as the synchronous native ends: it
  resolves with the result that one returns, raising nothing; or it rejects, and then the text is
  always that of \<open>throw_reference_error\<close> and the JS exception raised along with it is still
  pending although the call returned; or the process ends with the synchronous native.
\<close>

theorem fs_promises_settle_once:
  "\<exists>w1. (\<exists>v. sync_call S c w = (Returns v, w1) \<and>
            promise_call S True c w = (Returns (Promise [Inr v]), w1) \<and> fh_exception w1 = fh_exception w)
      \<or> sync_call S c w = (Throws ''reference error'', w1) \<and>
            promise_call S True c w = (Returns (Promise [Inl ''reference error'']), w1) \<and> fh_exception w1
      \<or> sync_call S c w = (Terminates, w1) \<and> promise_call S True c w = (Terminates, w1)"
proof -
  have "cstr ''reference error'' = ''reference error''" by code_simp
  moreover obtain w1 where "(\<exists>v. sync_call S c w = (Returns v, w1) \<and> fh_exception w1 = fh_exception w)
      \<or> sync_call S c w = (Throws ''reference error'', w1) \<and> fh_exception w1
      \<or> sync_call S c w = (Terminates, w1)"
    using sync_call_ends [of S c] unfolding fs_ends_def by metis
  ultimately show ?thesis unfolding promise_call_native by (auto simp: promise_native_def)
qed

end
