(* ===== verification/FsFiles.thy ===== *)
theory FsFiles
  imports FsPromises
begin

text \<open>
  What is written to a file is what is read back, and where the natives of \<open>src/fs.cpp\<close> fall short of
  it: empty files, appending, descriptors.  \<open>mem_os\<close> is an operating system small enough to evaluate,
  on which the witnesses run.
\<close>

section \<open>A disk in memory\<close>

text \<open>
  Paths are names without directories: a disk maps them to contents.  What the witnesses do not use
  always fails.
\<close>

type_synonym mem_disk = "(string \<times> bytes) list"

definition mem_put :: "string \<Rightarrow> bytes \<Rightarrow> mem_disk \<Rightarrow> mem_disk" where
  "mem_put p b d = (p, b) # filter (\<lambda>e. fst e \<noteq> p) d"

definition mem_append :: "string \<Rightarrow> bytes \<Rightarrow> mem_disk \<Rightarrow> mem_disk" where
  "mem_append p b d = mem_put p ((case map_of d p of None \<Rightarrow> [] | Some a \<Rightarrow> a) @ b) d"

text \<open>A mode that empties the file when it is opened (the \<open>"w"\<close> of the table in [filebuf.members]).\<close>

definition truncates :: "open_mode \<Rightarrow> bool" where
  "truncates m \<longleftrightarrow> om_trunc m \<or> om_out m \<and> \<not> om_in m \<and> \<not> om_app m"

definition mem_os :: "mem_disk os" where
  "mem_os =
     \<lparr>os_alloc = (\<lambda>n. n < 1000),
      os_open_ate = (\<lambda>p d. map_option (\<lambda>b. (int (length b), b)) (map_of d p)),
      os_open_stream = (\<lambda>p m d.
        if p = [] then (False, d)
        else if truncates m then (True, mem_put p [] d)
        else if om_app m then (True, mem_append p [] d)
        else (map_of d p \<noteq> None, d)),
      os_write = (\<lambda>p m b d. (True, b, d)),
      os_close = (\<lambda>p m rest d. (True, mem_append p rest d)),
      os_create_directories = (\<lambda>p d. (Some True, d)),
      os_create_directory = (\<lambda>p d. (Some True, d)),
      os_exists = (\<lambda>p d. Some (map_of d p \<noteq> None)),
      os_remove = (\<lambda>p d. (Some (map_of d p \<noteq> None), filter (\<lambda>e. fst e \<noteq> p) d)),
      os_remove_all = (\<lambda>p d. (None, d)),
      os_directory = (\<lambda>p d. Some (map fst d)),
      os_walk = (\<lambda>p d. map fst d),
      os_copy_file = (\<lambda>a b d. (None, d)),
      os_copy = (\<lambda>r a b d. (None, d)),
      os_rename = (\<lambda>a b d. (None, d)),
      os_status = (\<lambda>p d. Some (if map_of d p = None then Ft_not_found else Ft_regular)),
      os_symlink_status = (\<lambda>p d. Some (if map_of d p = None then Ft_not_found else Ft_regular)),
      os_file_size = (\<lambda>p d. map_option (\<lambda>b. word_of_nat (length b)) (map_of d p)),
      os_permissions = (\<lambda>p m d. (None, d)),
      os_canonical = (\<lambda>p d. None),
      os_create_symlink = (\<lambda>a b d. (None, d)),
      os_read_symlink = (\<lambda>p d. None),
      os_create_hard_link = (\<lambda>a b d. (None, d)),
      os_resize_file = (\<lambda>p n d. (None, d)),
      os_last_write_time = (\<lambda>p t d. (None, d)),
      os_space = (\<lambda>p d. None),
      os_temp_directory = (\<lambda>d. None),
      os_clock = (\<lambda>d. 0)\<rparr>"

text \<open>The same disk when it is full: nothing that is still in a buffer can be flushed.\<close>

definition full_os :: "mem_disk os" where
  "full_os = mem_os\<lparr>os_close := (\<lambda>p m rest d. (rest = [], d))\<rparr>"

section \<open>What a regular file promises\<close>

text \<open>
  Nobody else writes to the file.  Opening it in a truncating mode leaves it empty, opening it to append
  leaves it as it is.  A write that leaves the stream good has put a first part of the data at the end of
  the file and kept the rest in the buffer; a flush that works puts that rest there too.  Nothing is promised of a
  flush that fails.
\<close>

definition holds :: "('s, 'x) os_scheme \<Rightarrow> string \<Rightarrow> bytes \<Rightarrow> 's \<Rightarrow> bool" where
  "holds S path content d \<longleftrightarrow> os_open_ate S path d = Some (int (length content), content)"

definition os_keeps_file :: "('s, 'x) os_scheme \<Rightarrow> string \<Rightarrow> bool" where
  "os_keeps_file S path \<longleftrightarrow>
     (\<forall>m n. m \<le> n \<longrightarrow> os_alloc S n \<longrightarrow> os_alloc S m) \<and>
     (\<forall>m d d1. os_open_stream S path m d = (True, d1) \<longrightarrow> truncates m \<longrightarrow> holds S path [] d1) \<and>
     (\<forall>m old d d1. os_open_stream S path m d = (True, d1) \<longrightarrow> om_app m \<and> \<not> truncates m \<longrightarrow>
        holds S path old d \<longrightarrow> holds S path old d1) \<and>
     (\<forall>m old data rest d d1. os_write S path m data d = (True, rest, d1) \<longrightarrow> om_app m \<or> truncates m \<and> old = [] \<longrightarrow>
        holds S path old d \<longrightarrow> (\<exists>part. data = part @ rest \<and> holds S path (old @ part) d1)) \<and>
     (\<forall>m old rest d d1. os_close S path m rest d = (True, d1) \<longrightarrow> om_app m \<or> truncates m \<longrightarrow>
        holds S path old d \<longrightarrow> holds S path (old @ rest) d1)"

lemma mem_os_keeps_file: "os_keeps_file mem_os path"
  unfolding os_keeps_file_def holds_def
  by (intro conjI) (auto simp: mem_os_def mem_put_def mem_append_def split: if_splits)

lemma full_os_keeps_file: "os_keeps_file full_os path"
  unfolding os_keeps_file_def holds_def
  by (intro conjI) (auto simp: full_os_def mem_os_def mem_put_def mem_append_def split: if_splits)

lemma stream_write_holds:
  assumes os: "os_keeps_file S path" and w: "stream_write S path m data d = (Some True, True, d3)"
    and m: "if om_app m then \<not> truncates m \<and> holds S path old d else truncates m \<and> old = []"
  shows "holds S path (old @ data) d3"
proof -
  obtain d1 d2 rest where o: "os_open_stream S path m d = (True, d1)"
    and wr: "os_write S path m data d1 = (True, rest, d2)" and cl: "os_close S path m rest d2 = (True, d3)"
    using w unfolding stream_write_def by (auto split: prod.splits bool.splits)
  have h1: "holds S path old d1" using os o m unfolding os_keeps_file_def by (auto split: if_splits)
  have "om_app m \<or> truncates m \<and> old = []" using m by (auto split: if_splits)
  with os wr h1 obtain part where p: "data = part @ rest" "holds S path (old @ part) d2"
    unfolding os_keeps_file_def by blast
  have "om_app m \<or> truncates m" using m by (auto split: if_splits)
  with os cl p(2) have "holds S path ((old @ part) @ rest) d3" unfolding os_keeps_file_def by blast
  then show ?thesis using p(1) by simp
qed

lemma out_mode_truncates: "truncates out_mode" "\<not> om_app out_mode"
  by (simp_all add: truncates_def out_mode_def)

lemma app_mode_appends: "om_app app_mode" "\<not> truncates app_mode"
  by (simp_all add: truncates_def app_mode_def)

lemma read_file_exact:
  "holds S path data d \<Longrightarrow> os_alloc S (length data) \<Longrightarrow> read_file_sync S path d = Some data"
  by (simp add: read_file_sync_def holds_def)

text \<open>Whether the bytes of a \<open>writeFileSync\<close> reached the file when its stream was closed.\<close>

definition write_flushed :: "('s, 'x) os_scheme \<Rightarrow> string \<Rightarrow> bytes \<Rightarrow> 's \<Rightarrow> bool" where
  "write_flushed S path data d = fst (snd (stream_write S path out_mode data (snd (make_parent S path d))))"

lemma native_write_wrote:
  assumes "native_write_file_sync S path data w = (Returns v, w1)"
  shows "stream_write S path out_mode data (snd (make_parent S path (fh_disk w))) =
      (Some True, write_flushed S path data (fh_disk w), fh_disk w1) \<and> fh_exception w1 = fh_exception w"
proof -
  obtain r d1 where p: "make_parent S path (fh_disk w) = (r, d1)" by fastforce
  obtain g f d2 where s: "stream_write S path out_mode data d1 = (g, f, d2)" by (cases "stream_write S path out_mode data d1")
  show ?thesis using assms
    by (auto simp: native_write_file_sync_def require_true_def fs_then_def run_fs_def fs_return_def
        throw_reference_error_def write_file_sync_def write_flushed_def p s split: option.splits if_splits)
qed

definition file_value :: "string option \<Rightarrow> bytes \<Rightarrow> js_value" where
  "file_value encoding data =
     (case encoding of
        Some e \<Rightarrow> if is_utf8 e then J_text (string_of_bytes data) else J_bytes data
      | None \<Rightarrow> J_bytes data)"

lemma native_read_of_file:
  "read_file_sync S path (fh_disk w) = Some data \<Longrightarrow>
   native_read_file_sync S path encoding w =
     (if data = [] then (Throws ''reference error'', w\<lparr>fh_exception := True\<rparr>)
      else (Returns (file_value encoding data), w))"
  by (cases w) (auto simp: native_read_file_sync_def file_value_def fs_then_def run_fs_def peek_def
      fs_return_def throw_reference_error_def)

text \<open>
  C37: a file that was written without an error and whose stream could be flushed when it was closed reads back as
  written, through \<open>readFileSync\<close> in both encodings and as a read stream, and appending to it extends it, while
  there is memory for it; but a file written empty cannot be read: the natives report it as missing.
  The flush has to be a hypothesis: the natives ask whether the stream is good before it.
\<close>

theorem file_round_trip:
  assumes "os_keeps_file S path"
    and "native_write_file_sync S path data w = (Returns v, w1)"
    and "write_flushed S path data (fh_disk w)"
    and "stream_write S path app_mode extra (fh_disk w1) = (Some True, True, d2)"
    and "os_alloc S (length (data @ extra))"
  shows "native_read_file_sync S path encoding w1 =
      (if data = [] then (Throws ''reference error'', w1\<lparr>fh_exception := True\<rparr>)
       else (Returns (file_value encoding data), w1)) \<and>
    native_create_read_stream S path w1 = native_read_file_sync S path None w1 \<and>
    native_append_file_sync S path extra w1 = (Returns J_undefined, w1\<lparr>fh_disk := d2\<rparr>) \<and>
    native_read_file_sync S path encoding (w1\<lparr>fh_disk := d2\<rparr>) =
      (if data @ extra = [] then (Throws ''reference error'', w1\<lparr>fh_disk := d2, fh_exception := True\<rparr>)
       else (Returns (file_value encoding (data @ extra)), w1\<lparr>fh_disk := d2\<rparr>))"
proof -
  have "stream_write S path out_mode data (snd (make_parent S path (fh_disk w))) = (Some True, True, fh_disk w1)"
    using native_write_wrote [OF assms(2)] assms(3) by simp
  then have o: "holds S path data (fh_disk w1)"
    using stream_write_holds [OF assms(1), where old = "[]"] out_mode_truncates by simp
  have "holds S path (data @ extra) d2"
    using stream_write_holds [OF assms(1,4)] app_mode_appends o by simp
  then have r2: "read_file_sync S path d2 = Some (data @ extra)" using assms(5) by (rule read_file_exact)
  have "length data \<le> length (data @ extra)" by simp
  then have "os_alloc S (length data)" using assms(1,5) unfolding os_keeps_file_def by blast
  with o have r1: "read_file_sync S path (fh_disk w1) = Some data" by (rule read_file_exact)
  have "native_create_read_stream S path w1 = native_read_file_sync S path None w1"
    unfolding native_read_of_file [OF r1] using r1
    by (simp add: native_create_read_stream_def throw_reference_error_def fs_return_def file_value_def)
  moreover have "native_append_file_sync S path extra w1 = (Returns J_undefined, w1\<lparr>fh_disk := d2\<rparr>)"
    using assms(4) by (simp add: native_append_file_sync_def done_then_def fs_then_def run_fs_def fs_return_def)
  ultimately show ?thesis
    using native_read_of_file [OF r1, of encoding] native_read_of_file [of S path "w1\<lparr>fh_disk := d2\<rparr>" _ encoding]
      r2 by simp
qed

theorem file_round_trip_witness:
  "\<exists>w1 d2. native_write_file_sync mem_os ''notes.txt'' [104, 105] \<lparr>fh_disk = [], fh_exception = False\<rparr> = (Returns J_undefined, w1) \<and>
     native_read_file_sync mem_os ''notes.txt'' (Some ''utf8'') w1 = (Returns (J_text ''hi''), w1) \<and>
     native_append_file_sync mem_os ''notes.txt'' [33] w1 = (Returns J_undefined, w1\<lparr>fh_disk := d2\<rparr>) \<and>
     native_read_file_sync mem_os ''notes.txt'' None (w1\<lparr>fh_disk := d2\<rparr>) = (Returns (J_bytes [104, 105, 33]), w1\<lparr>fh_disk := d2\<rparr>)"
proof -
  let ?w1 = "\<lparr>fh_disk = [(''notes.txt'', [104, 105])], fh_exception = False\<rparr> :: mem_disk fs_host"
  let ?d2 = "[(''notes.txt'', [104, 105, 33])] :: mem_disk"
  have w: "native_write_file_sync mem_os ''notes.txt'' [104, 105] \<lparr>fh_disk = [], fh_exception = False\<rparr> = (Returns J_undefined, ?w1)"
    by code_simp
  have f: "write_flushed mem_os ''notes.txt'' [104, 105] (fh_disk (\<lparr>fh_disk = [], fh_exception = False\<rparr> :: mem_disk fs_host))"
    by code_simp
  have a: "stream_write mem_os ''notes.txt'' app_mode [33] (fh_disk ?w1) = (Some True, True, ?d2)" by code_simp
  have t: "file_value (Some ''utf8'') [104, 105] = J_text ''hi''" by code_simp
  have m: "os_alloc mem_os (length ([104, 105] @ [33 :: 8 word]))" by (simp add: mem_os_def)
  note r = file_round_trip [OF mem_os_keeps_file w f a m]
  have "native_read_file_sync mem_os ''notes.txt'' (Some ''utf8'') ?w1 = (Returns (J_text ''hi''), ?w1)"
    using r [of "Some ''utf8''"] t by simp
  moreover have "native_read_file_sync mem_os ''notes.txt'' None (?w1\<lparr>fh_disk := ?d2\<rparr>) =
      (Returns (J_bytes [104, 105, 33]), ?w1\<lparr>fh_disk := ?d2\<rparr>)"
    using r [of None] by (simp add: file_value_def)
  ultimately show ?thesis using w r by blast
qed

section \<open>Failures that are not reported, and one that is fatal\<close>

text \<open>
  A write is reported done before its bytes are flushed.  There is an operating system that keeps
  every promise above, a full disk, on which \<open>writeFileSync\<close> returns without an error and raises no
  exception, the flush of its stream fails, and reading the file reports it missing; \<open>appendFileSync\<close> is as silent.
\<close>

theorem write_reported_before_flush:
  "\<exists>S :: mem_disk os. os_keeps_file S ''a'' \<and>
     (\<exists>w w1. native_write_file_sync S ''a'' [104, 105] w = (Returns J_undefined, w1) \<and> \<not> fh_exception w1 \<and>
        \<not> write_flushed S ''a'' [104, 105] (fh_disk w) \<and>
        native_read_file_sync S ''a'' None w1 = (Throws ''reference error'', w1\<lparr>fh_exception := True\<rparr>) \<and>
        native_append_file_sync S ''a'' [33] w1 = (Returns J_undefined, w1) \<and> holds S ''a'' [] (fh_disk w1))"
proof (intro exI conjI)
  let ?w = "\<lparr>fh_disk = [], fh_exception = False\<rparr> :: mem_disk fs_host"
  let ?w1 = "\<lparr>fh_disk = [(''a'', [])], fh_exception = False\<rparr> :: mem_disk fs_host"
  show "os_keeps_file full_os ''a''" by (rule full_os_keeps_file)
  show "native_write_file_sync full_os ''a'' [104, 105] ?w = (Returns J_undefined, ?w1)" by code_simp
  show "\<not> fh_exception ?w1" by simp
  show "\<not> write_flushed full_os ''a'' [104, 105] (fh_disk ?w)" by code_simp
  show "native_read_file_sync full_os ''a'' None ?w1 = (Throws ''reference error'', ?w1\<lparr>fh_exception := True\<rparr>)"
    by code_simp
  show "native_append_file_sync full_os ''a'' [33] ?w1 = (Returns J_undefined, ?w1)" by code_simp
  show "holds full_os ''a'' [] (fh_disk ?w1)" by code_simp
qed

text \<open>
  The buffer is as long as \<open>tellg\<close> says.  A directory can be opened for reading, and its end can be at
  \<open>2 ^ 63 - 1\<close>: then the allocation fails on the thread pool, where nothing catches the exception.
\<close>

lemma read_too_large:
  assumes "os_open_ate S path (fh_disk w) = Some (sz, content)" and "0 < sz" and "\<not> os_alloc S (nat sz)"
  shows "native_read_file_sync S path encoding w = (Terminates, w) \<and>
    native_create_read_stream S path w = (Throws ''std::bad_alloc'', w) \<and>
    native_promises_read_file S True path w = (Terminates, w)"
proof -
  have r: "read_file_sync S path (fh_disk w) = None" using assms by (simp add: read_file_sync_def)
  then have "native_read_file_sync S path enc w = (Terminates, w)" for enc
    by (cases w) (simp add: native_read_file_sync_def fs_then_def run_fs_def peek_def)
  then show ?thesis using r
    by (simp add: native_create_read_stream_def native_promises_read_file_def promise_native_def)
qed

text \<open>An append that fails is not reported; a directory that exists already is an error even with \<open>recursive\<close>.\<close>

lemma append_failure_silent:
  "stream_write S path app_mode data (fh_disk w) = (r, f, d) \<Longrightarrow>
   native_append_file_sync S path data w = (Returns J_undefined, w\<lparr>fh_disk := d\<rparr>)"
  by (cases r) (simp_all add: native_append_file_sync_def done_then_def fs_then_def run_fs_def fs_return_def)

lemma mkdir_existing_fails:
  "os_create_directories S path (fh_disk w) = (Some False, d) \<Longrightarrow>
   native_mkdir_sync S path True w = (Throws ''reference error'', w\<lparr>fh_disk := d, fh_exception := True\<rparr>)"
  by (simp add: native_mkdir_sync_def require_true_def fs_then_def run_fs_def throw_reference_error_def)

lemma access_mode_unchecked:
  "mode \<noteq> 0 \<Longrightarrow> native_access_sync S path mode w = (Returns J_undefined, w)"
  by (cases w) (simp add: native_access_sync_def require_true_def fs_then_def run_fs_def peek_def fs_return_def)

text \<open>
  What \<open>openSync\<close> gives is no descriptor of an open file: it is 3 whenever a stream could be opened
  and -1 otherwise, so two open files share it; and a file is never opened for reading only, because
  the flags \<open>O_RDONLY\<close>, 0, select no stream mode at all.  A later \<open>readSync\<close> on any descriptor claims to
  have read all it was asked for and touches nothing.
\<close>

theorem open_sync_descriptors:
  "native_open_sync S path 0 w = (Returns (-1), w) \<and>
   (\<exists>fd w1. native_open_sync S path flags w = (Returns fd, w1) \<and> fd \<in> {3, -1} \<and>
      (fd = 3) = (stream_mode_ok (open_mode_of flags) \<and>
         fst (os_open_stream S path (open_mode_of flags) (fh_disk w)))) \<and>
   native_read_sync fd' buffer offset len pos w = (Returns len, w)"
proof -
  have "\<not> stream_mode_ok (open_mode_of 0)" by (simp add: stream_mode_ok_def open_mode_of_def)
  then have "native_open_sync S path 0 w = (Returns (-1), w)" by (simp add: native_open_sync_def run_fs_def)
  moreover have "\<exists>fd w1. native_open_sync S path flags w = (Returns fd, w1) \<and> fd \<in> {3, -1} \<and>
      (fd = 3) = (stream_mode_ok (open_mode_of flags) \<and>
         fst (os_open_stream S path (open_mode_of flags) (fh_disk w)))"
    by (cases "os_open_stream S path (open_mode_of flags) (fh_disk w)")
      (simp add: native_open_sync_def run_fs_def Let_def)
  ultimately show ?thesis by (simp add: native_read_sync_def fs_return_def)
qed

end
