(* ===== verification/FsGlob.thy ===== *)
theory FsGlob
  imports FsFiles
begin

text \<open>
  Glob patterns of \<open>src/fs.cpp\<close>: the matcher, which never goes back, and the native that matches the
  names of files under a base directory.
\<close>

abbreviation star :: char where
  "star \<equiv> CHR ''*''"

abbreviation slash :: char where
  "slash \<equiv> CHR ''/''"

text \<open>The two indices of the loop are the rests of the pattern and of the name.\<close>

fun glob_match :: "string \<Rightarrow> string \<Rightarrow> bool" where
  "glob_match [] n = (n = [])"
| "glob_match (c # p) [] = False"
| "glob_match (c # p) (x # n) =
     (if c = star
      then (if p \<noteq> [] \<and> hd p = star then True
            else glob_match p (dropWhile (\<lambda>y. y \<noteq> slash) (x # n)))
      else if c = x then glob_match p n
      else False)"

text \<open>\<open>pattern.find("**")\<close>.\<close>

fun find_stars :: "string \<Rightarrow> nat option" where
  "find_stars (a # b # s) =
     (if a = star \<and> b = star then Some 0 else map_option Suc (find_stars (b # s)))"
| "find_stars _ = None"

definition glob_base :: "string \<Rightarrow> string" where
  "glob_base pattern =
     (case find_stars pattern of
        None \<Rightarrow> ''/tmp''
      | Some pos \<Rightarrow>
          (case find_char slash pattern of
             None \<Rightarrow> ''/tmp''
           | Some i \<Rightarrow> if i < pos then take i pattern else ''/tmp''))"

definition native_glob_sync :: "('s, 'x) os_scheme \<Rightarrow> string \<Rightarrow> ('s, js_value) fs_native" where
  "native_glob_sync S pattern =
     fs_then (run_fs (peek (\<lambda>d. Some
       (filter (\<lambda>e. glob_match pattern (filename e)) (os_walk S (glob_base pattern) d))))) (\<lambda>files.
     fs_return (J_array (map j_cstr files)))"

section \<open>What a pattern matches\<close>

lemma glob_match_literal:
  "star \<notin> set p \<Longrightarrow> glob_match (p @ q) n \<longleftrightarrow> (\<exists>s. n = p @ s \<and> glob_match q s)"
proof (induction p arbitrary: n)
  case Nil
  then show ?case by simp
next
  case (Cons c p)
  then show ?case by (cases n) auto
qed

lemma drop_before_slash: "slash \<notin> set r \<Longrightarrow> dropWhile (\<lambda>y. y \<noteq> slash) (r @ slash # t) = slash # t"
  by (induction r) auto

lemma drop_to_slash:
  "dropWhile (\<lambda>y. y \<noteq> slash) s = slash # t \<longleftrightarrow> (\<exists>r. s = r @ slash # t \<and> slash \<notin> set r)"
proof
  assume d: "dropWhile (\<lambda>y. y \<noteq> slash) s = slash # t"
  have "s = takeWhile (\<lambda>y. y \<noteq> slash) s @ slash # t" unfolding d [symmetric] by simp
  moreover have "slash \<notin> set (takeWhile (\<lambda>y. y \<noteq> slash) s)" by (blast dest: set_takeWhileD)
  ultimately show "\<exists>r. s = r @ slash # t \<and> slash \<notin> set r" by blast
qed (auto simp: drop_before_slash)

lemma star_step:
  assumes "s \<noteq> []" and "p \<noteq> [] \<Longrightarrow> hd p \<noteq> star"
  shows "glob_match (star # p) s = glob_match p (dropWhile (\<lambda>y. y \<noteq> slash) s)"
  using assms by (cases s) auto

lemma star_end: "glob_match [star] s \<longleftrightarrow> s \<noteq> [] \<and> slash \<notin> set s"
proof (cases "s = []")
  case False
  have "glob_match [star] s = (dropWhile (\<lambda>y. y \<noteq> slash) s = [])" using star_step [OF False, of "[]"] by simp
  then show ?thesis using False unfolding dropWhile_eq_Nil_conv by blast
qed simp

lemma star_star: "glob_match (star # star # q) s \<longleftrightarrow> s \<noteq> []"
  by (cases s) auto

lemma star_char:
  assumes "c \<noteq> star" and "c \<noteq> slash"
  shows "\<not> glob_match (star # c # q) s"
proof (cases "s = []")
  case False
  have "\<not> glob_match (c # q) (dropWhile (\<lambda>y. y \<noteq> slash) s)"
  proof (cases "dropWhile (\<lambda>y. y \<noteq> slash) s")
    case (Cons y t)
    have "y = slash" using hd_dropWhile [of "\<lambda>y. y \<noteq> slash" s] Cons by simp
    then show ?thesis using assms unfolding Cons by simp
  next
    case Nil
    show ?thesis unfolding Nil by simp
  qed
  then show ?thesis using star_step [OF False, of "c # q"] assms(1) by simp
qed simp

lemma star_slash:
  "glob_match (star # slash # q) s \<longleftrightarrow> (\<exists>r t. s = r @ slash # t \<and> slash \<notin> set r \<and> glob_match q t)"
proof
  assume g: "glob_match (star # slash # q) s"
  then have ne: "s \<noteq> []" by auto
  have "glob_match (slash # q) (dropWhile (\<lambda>y. y \<noteq> slash) s)"
    using g star_step [OF ne, of "slash # q"] by simp
  then obtain t where t: "dropWhile (\<lambda>y. y \<noteq> slash) s = slash # t" "glob_match q t"
    by (cases "dropWhile (\<lambda>y. y \<noteq> slash) s") (auto split: if_splits)
  then obtain r where "s = r @ slash # t" "slash \<notin> set r" using drop_to_slash [THEN iffD1] by metis
  then show "\<exists>r t. s = r @ slash # t \<and> slash \<notin> set r \<and> glob_match q t" using t(2) by (intro exI conjI)
next
  assume "\<exists>r t. s = r @ slash # t \<and> slash \<notin> set r \<and> glob_match q t"
  then obtain r t where r: "s = r @ slash # t" "slash \<notin> set r" "glob_match q t" by (elim exE conjE)
  have ne: "s \<noteq> []" using r(1) by simp
  have d: "dropWhile (\<lambda>y. y \<noteq> slash) s = slash # t" unfolding r(1) using r(2) by (rule drop_before_slash)
  show "glob_match (star # slash # q) s" using star_step [OF ne, of "slash # q"] r(3) unfolding d by simp
qed

text \<open>
  C38: what a glob pattern matches, by its first star (\<open>p\<close> holds none, \<open>c\<close> is neither star nor slash).
  Without a star: the name itself.  A star at the end: one or more characters without slash.  Two
  stars: anything but nothing, whatever follows them in the pattern.  A star before a slash: up to
  the next slash.  A star before any other character, as in \<open>*.txt\<close>: no name at all.
\<close>

theorem glob_match_exact:
  assumes "star \<notin> set p" and "c \<noteq> star" and "c \<noteq> slash"
  shows "glob_match p n = (n = p) \<and>
    glob_match (p @ [star]) n = (\<exists>r. n = p @ r \<and> r \<noteq> [] \<and> slash \<notin> set r) \<and>
    glob_match (p @ star # star # q) n = (\<exists>r. n = p @ r \<and> r \<noteq> []) \<and>
    glob_match (p @ star # slash # q) n =
      (\<exists>r s. n = p @ r @ slash # s \<and> slash \<notin> set r \<and> glob_match q s) \<and>
    \<not> glob_match (p @ star # c # q) n"
  unfolding glob_match_literal [OF assms(1)] star_end star_star star_slash
proof (intro conjI)
  show "glob_match p n = (n = p)" using glob_match_literal [OF assms(1), of "[]" n] by auto
qed (use star_char [OF assms(2,3)] in blast)+

theorem glob_match_exact_witness:
  "\<not> glob_match ''*.txt'' ''notes.txt'' \<and> glob_match ''notes.*'' ''notes.txt'' \<and>
   glob_match ''src/**.cpp'' ''src/a/b.hpp'' \<and> glob_match ''src/*/fs'' ''src/x/fs''"
  using glob_match_exact [of "[]" "CHR ''.''" "''notes.txt''" "''txt''"]
    glob_match_exact [of "''notes.''" "CHR ''x''" "''notes.txt''" "[]"]
    glob_match_exact [of "''src/''" "CHR ''x''" "''src/a/b.hpp''" "''.cpp''"]
    glob_match_exact [of "''src/''" "CHR ''x''" "''src/x/fs''" "''fs''"]
  by simp

section \<open>What a glob search finds\<close>

lemma filename_no_slash: "slash \<notin> set (filename e)"
  by (auto simp: filename_def dest: set_takeWhileD)

lemma find_stars_Some: "find_stars p = Some i \<Longrightarrow> \<exists>a b. p = a @ star # star # b \<and> length a = i"
proof (induction p arbitrary: i rule: find_stars.induct)
  case (1 x y s)
  show ?case
  proof (cases "x = star \<and> y = star")
    case False
    then obtain j where j: "find_stars (y # s) = Some j" "i = Suc j" using 1(2) by auto
    then obtain a b where "y # s = a @ star # star # b" "length a = j" using 1(1) False by blast
    then show ?thesis using j by (intro exI [of _ "x # a"] exI [of _ b]) simp
  qed (use 1 in auto)
qed auto

text \<open>A star before the first slash of the pattern is the end of a name, a slash in it of none.\<close>

lemma glob_match_no_slash:
  assumes "slash \<notin> set n" and "find_char slash p = Some i" and "find_stars p = Some j" and "i < j"
  shows "\<not> glob_match p n"
  using assms
proof (induction p n arbitrary: i j rule: glob_match.induct)
  case (3 c p x n)
  show ?case
  proof (cases "c = star")
    case True
    then have i: "find_char slash p \<noteq> None" and h: "p \<noteq> [] \<Longrightarrow> hd p \<noteq> star"
      using 3(4-6) by (auto split: if_splits simp: neq_Nil_conv)
    have d: "dropWhile (\<lambda>y. y \<noteq> slash) (x # n) = []" using 3(3) unfolding dropWhile_eq_Nil_conv by blast
    have "glob_match (c # p) (x # n) = glob_match p []"
      unfolding True d [symmetric] by (rule star_step) (use h in simp_all)
    moreover have "p \<noteq> []" using i by auto
    ultimately show ?thesis by (cases p) simp_all
  next
    case False
    show ?thesis
    proof (cases "c = x")
      case True
      then obtain k where k: "find_char slash p = Some k" "i = Suc k" using 3(3,4) by (auto split: if_splits)
      moreover obtain l where "find_stars p = Some l" "j = Suc l" using 3(5) False by (cases p) auto
      ultimately have "\<not> glob_match p n" using 3(2) [OF False True] 3(3,6) by auto
      then show ?thesis using True False by simp
    qed (use False in simp)
  qed
qed auto

text \<open>
  A glob search never leaves \<open>/tmp\<close>.  It returns in every case; a pattern with a slash before its
  two stars selects another directory to walk, but finds nothing in it, because the pattern with
  its directory part is matched against bare file names; every other pattern is matched against
  the names of what is under \<open>/tmp\<close>, in the order of the walk.
\<close>

theorem glob_sync_finds:
  "native_glob_sync S pattern w =
     (Returns (J_array (if glob_base pattern = ''/tmp''
        then map j_cstr (filter (\<lambda>e. glob_match pattern (filename e)) (os_walk S ''/tmp'' (fh_disk w)))
        else [])), w)"
proof -
  have "\<not> glob_match pattern (filename e)" if b: "glob_base pattern \<noteq> ''/tmp''" for e
  proof -
    obtain i j where "find_stars pattern = Some j" "find_char slash pattern = Some i" "i < j"
      using b by (auto simp: glob_base_def split: option.splits if_splits)
    then show ?thesis using glob_match_no_slash filename_no_slash by blast
  qed
  then show ?thesis
    by (cases w) (simp add: native_glob_sync_def fs_then_def run_fs_def peek_def fs_return_def)
qed

end
