(* ===== verification/HostEval.thy ===== *)
theory HostEval
  imports JsApi
begin

text \<open>
  Scripts and the text of scripts (\<open>src/host.cpp\<close>): \<open>eval_source\<close>, \<open>eval_file\<close>, \<open>eval_module\<close> and
  \<open>install_bootstrap_js\<close>, and the script that \<open>start_http_server\<close> writes for each request, with the
  request's method, URL and headers spliced into string literals.
\<close>

section \<open>Evaluating scripts\<close>

text \<open>
  \<open>eval J\<close> is \<open>JS_Eval\<close> of a text under a file name, as a module or as a script.  \<open>None\<close> is an
  evaluation whose microtasks never end.
\<close>

type_synonym ('v, 'h) evaluator = "string \<Rightarrow> string \<Rightarrow> bool \<Rightarrow> 'h \<Rightarrow> 'v \<times> 'h"

definition drain_after :: "('v, 'h, 'x) js_scheme \<Rightarrow> 'h \<Rightarrow> (bool \<times> 'h) option" where
  "drain_after J h = map_option (\<lambda>(good, h1). (True, h1)) (drain_jobs J h)"

definition eval_source ::
  "('v, 'h, 'x) js_scheme \<Rightarrow> ('v, 'h) evaluator \<Rightarrow> string \<Rightarrow> string \<Rightarrow> bool \<Rightarrow> bool \<Rightarrow> 'h \<Rightarrow> (bool \<times> 'h) option" where
  "eval_source J eval code file drain modul h =
     (case eval code file modul h of
        (v, h1) \<Rightarrow>
          if js_is_exception J v then Some (False, q_dump_exception J h1)
          else if drain then drain_after J h1 else Some (True, h1))"

text \<open>\<open>content\<close> is what the file stream reads, \<open>None\<close> when it does not open.\<close>

definition eval_file ::
  "('v, 'h, 'x) js_scheme \<Rightarrow> ('v, 'h) evaluator \<Rightarrow> string option \<Rightarrow> string \<Rightarrow> 'h \<Rightarrow> (bool \<times> 'h) option" where
  "eval_file J eval content path h =
     (case content of None \<Rightarrow> Some (False, h) | Some code \<Rightarrow> eval_source J eval code path True False h)"

fun starts :: "string \<Rightarrow> string \<Rightarrow> bool" where
  "starts [] s = True"
| "starts (c # p) [] = False"
| "starts (c # p) (x # s) = (c = x \<and> starts p s)"

fun contains :: "string \<Rightarrow> string \<Rightarrow> bool" where
  "contains p [] = (p = [])"
| "contains p (x # s) = (starts p (x # s) \<or> contains p s)"

definition has_keyword :: "string \<Rightarrow> string \<Rightarrow> bool" where
  "has_keyword w code \<longleftrightarrow>
     contains (w @ '' '') code \<or> contains (w @ ''{'') code \<or> contains (w @ [CHR 0x0A]) code"

definition eval_module ::
  "('v, 'h, 'x) js_scheme \<Rightarrow> ('v, 'h) evaluator \<Rightarrow> string option \<Rightarrow> string \<Rightarrow> 'h \<Rightarrow> (bool \<times> 'h) option" where
  "eval_module J eval content path h =
     (case content of
        None \<Rightarrow> Some (False, h)
      | Some code \<Rightarrow>
          if \<not> has_keyword ''import'' code \<and> \<not> has_keyword ''export'' code
          then eval_source J eval code path True False h
          else (case eval code path True h of
                  (v, h1) \<Rightarrow>
                    if js_is_exception J v then Some (False, q_dump_exception J h1) else drain_after J h1))"

fun eval_scripts ::
  "('v, 'h, 'x) js_scheme \<Rightarrow> ('v, 'h) evaluator \<Rightarrow> (string \<times> string) list \<Rightarrow> 'h \<Rightarrow> bool \<times> 'h" where
  "eval_scripts J eval [] h = (True, h)"
| "eval_scripts J eval ((name, src) # rest) h =
     (case eval src name False h of
        (v, h1) \<Rightarrow> if js_is_exception J v then (False, q_dump_exception J h1) else eval_scripts J eval rest h1)"

definition install_bootstrap_js ::
  "('v, 'h, 'x) js_scheme \<Rightarrow> ('v, 'h) evaluator \<Rightarrow> (string \<times> string) list \<Rightarrow> 'h \<Rightarrow> (bool \<times> 'h) option" where
  "install_bootstrap_js J eval scripts h =
     (case eval_scripts J eval scripts h of (good, h1) \<Rightarrow> if good then drain_after J h1 else Some (False, h1))"

text \<open>
  \<open>import"./a.js"\<close> or \<open>export*from"./a.js"\<close>, without a blank after the keyword, is evaluated as a
  script, in which QuickJS rejects both.
\<close>

lemma module_without_blank:
  "eval_module J eval (Some ''import*as a from'') path h = eval_source J eval ''import*as a from'' path True False h"
  by (simp add: eval_module_def has_keyword_def)

section \<open>The script of a request\<close>

abbreviation quote :: char where
  "quote \<equiv> CHR 0x27"

abbreviation backslash :: char where
  "backslash \<equiv> CHR 0x5C"

fun escape_quotes :: "string \<Rightarrow> string" where
  "escape_quotes [] = []"
| "escape_quotes (c # s) = (if c = quote then backslash # quote # escape_quotes s else c # escape_quotes s)"

definition header_entry :: "string \<times> string \<Rightarrow> string" where
  "header_entry kv = [quote] @ fst kv @ [quote] @ '': '' @ [quote] @ escape_quotes (snd kv) @ [quote]"

fun header_entries :: "(string \<times> string) list \<Rightarrow> string" where
  "header_entries [] = []"
| "header_entries [kv] = header_entry kv"
| "header_entries (kv # kvs) = header_entry kv @ '', '' @ header_entries kvs"

definition headers_js :: "(string \<times> string) list \<Rightarrow> string" where
  "headers_js hs = ''{'' @ header_entries hs @ ''}''"

definition request_head :: "string \<Rightarrow> (string \<times> string) list \<Rightarrow> string" where
  "request_head meth hs =
     ''(async () => {  var init = { method: '' @ [quote] @ meth @ [quote] @ '', headers: '' @ headers_js hs @
     '' };  if (__httpBodyTmp != null) init.body = __httpBodyTmp;  var request = new Request('' @ [quote]"

definition request_tail :: string where
  "request_tail =
     [quote] @ '', init);  var response = await globalThis.__httpHandler.get()(request);'' @
     ''  if (response && response.__streamHandled) {    return { __streamHandled: true };  }'' @
     ''  return await globalThis.__extractResponse(response);})()''"

definition request_url :: "nat \<Rightarrow> string \<Rightarrow> string" where
  "request_url port url = ''http://localhost:'' @ show_nat port @ url"

definition request_code :: "nat \<Rightarrow> string \<Rightarrow> string \<Rightarrow> (string \<times> string) list \<Rightarrow> string" where
  "request_code port meth url hs = request_head meth hs @ request_url port url @ request_tail"

text \<open>
  How JavaScript reads the rest of a single-quoted literal: its value and what follows the closing
  quote.  \<open>None\<close> is a syntax error (a line break or no closing quote) or an escape other than of a
  quote or a backslash, which none of the texts below contains.
\<close>

fun js_literal :: "string \<Rightarrow> (string \<times> string) option" where
  "js_literal [] = None"
| "js_literal (c # s) =
     (if c = quote then Some ([], s)
      else if c = CHR 0x0A \<or> c = CHR 0x0D then None
      else if c = backslash
        then (case s of
                d # t \<Rightarrow> if d = quote \<or> d = backslash then map_option (apfst (Cons d)) (js_literal t) else None
              | [] \<Rightarrow> None)
      else map_option (apfst (Cons c)) (js_literal s))"

definition plain_text :: "string \<Rightarrow> bool" where
  "plain_text s \<longleftrightarrow> backslash \<notin> set s \<and> CHR 0x0A \<notin> set s \<and> CHR 0x0D \<notin> set s"

lemma escaped_read:
  assumes "plain_text v" and "js_literal s = Some (w, r)"
  shows "js_literal (escape_quotes v @ s) = Some (v @ w, r)"
  using assms by (induction v) (auto simp: plain_text_def)

lemma plain_read:
  assumes "plain_text v" and "quote \<notin> set v" and "js_literal s = Some (w, r)"
  shows "js_literal (v @ s) = Some (v @ w, r)"
  using assms by (induction v) (auto simp: plain_text_def)

lemma escape_append: "escape_quotes (a @ b) = escape_quotes a @ escape_quotes b"
  by (induction a) simp_all

lemma tail_closes: "js_literal request_tail = Some ([], tl request_tail)"
  by (simp add: request_tail_def)

text \<open>
  C39: what the literals of the script of a request say.  The URL literal of a plain URL (no quote,
  backslash or line break) is read back as the URL, and a header value without backslash or line
  break is read back as itself, quotes included.  But a quote in the URL ends the literal, and so
  does a backslash before a quote in a header value: what follows it in the request is evaluated as
  JavaScript.
\<close>

theorem request_literals:
  assumes "plain_text u" and "quote \<notin> set u" and "plain_text v"
  shows "request_code port meth u hs = request_head meth hs @ request_url port u @ request_tail \<and>
    js_literal (u @ request_tail) = Some (u, tl request_tail) \<and>
    js_literal ((u @ quote # code) @ request_tail) = Some (u, code @ request_tail) \<and>
    header_entry (k, v) = [quote] @ k @ [quote] @ '': '' @ quote # escape_quotes v @ [quote] \<and>
    js_literal (escape_quotes v @ quote # rest) = Some (v, rest) \<and>
    js_literal (escape_quotes (v @ backslash # quote # code) @ rest) = Some (v @ [backslash], escape_quotes code @ rest)"
proof (intro conjI)
  show "js_literal (u @ request_tail) = Some (u, tl request_tail)"
    using plain_read [OF assms(1,2) tail_closes] by simp
  have "js_literal (quote # code @ request_tail) = Some ([], code @ request_tail)" by simp
  then show "js_literal ((u @ quote # code) @ request_tail) = Some (u, code @ request_tail)"
    using plain_read [OF assms(1,2)] by fastforce
  have "js_literal (quote # rest) = Some ([], rest)" by simp
  then show "js_literal (escape_quotes v @ quote # rest) = Some (v, rest)"
    using escaped_read [OF assms(3)] by fastforce
  have "js_literal (backslash # backslash # quote # escape_quotes code @ rest) = Some ([backslash], escape_quotes code @ rest)"
    by simp
  then have "js_literal (escape_quotes v @ backslash # backslash # quote # escape_quotes code @ rest) =
      Some (v @ [backslash], escape_quotes code @ rest)" by (rule escaped_read [OF assms(3)])
  then show "js_literal (escape_quotes (v @ backslash # quote # code) @ rest) =
      Some (v @ [backslash], escape_quotes code @ rest)" by (simp add: escape_append)
qed (simp_all add: request_code_def header_entry_def)

theorem request_literals_witness:
  "js_literal ((''/a'' @ quote # '');stop();('') @ request_tail) = Some (''/a'', '');stop();('' @ request_tail) \<and>
   js_literal (escape_quotes [CHR ''x'', quote] @ quote # ''}'') = Some ([CHR ''x'', quote], ''}'')"
proof -
  have p: "plain_text ''/a''" "quote \<notin> set ''/a''" "plain_text [CHR ''x'', quote]"
    by (simp_all add: plain_text_def)
  show ?thesis
    using request_literals [OF p, where code = "'');stop();(''" and rest = "''}''" and port = 80 and hs = "[]"
        and meth = "''GET''" and k = "''k''"] by (intro conjI) (elim conjE, assumption)+
qed

end
