(* ===== verification/Base64.thy ===== *)
theory Base64
  imports Prelude
begin

text \<open>
  \<open>base64.encode\<close> and \<open>base64.decode\<close> of \<open>src/host.cpp\<close>.  OpenSSL's \<open>EVP_EncodeBlock\<close> and
  \<open>EVP_DecodeBlock\<close> are the fields of a record \<open>b64\<close>; \<open>None\<close> is a negative result.  An exception of
  the natives is \<open>Inl\<close> of its text.
\<close>

record b64 =
  b64_encode_block :: "bytes \<Rightarrow> string option"
  b64_decode_block :: "string \<Rightarrow> bytes option"

definition base64_encode_bytes :: "('x) b64_scheme \<Rightarrow> bytes \<Rightarrow> string + string" where
  "base64_encode_bytes B data =
     (if data = [] then Inr []
      else (case b64_encode_block B data of None \<Rightarrow> Inl ''base64 encode failed'' | Some s \<Rightarrow> Inr s))"

definition decode_padding :: "string \<Rightarrow> nat" where
  "decode_padding s =
     (if s \<noteq> [] \<and> s ! (length s - 1) = CHR ''=''
      then (if length s \<ge> 2 \<and> s ! (length s - 2) = CHR ''='' then 2 else 1)
      else 0)"

text \<open>\<open>out.resize(len - padding)\<close>; below zero the size wraps and the vector throws.\<close>

definition base64_decode_string :: "('x) b64_scheme \<Rightarrow> string \<Rightarrow> string + bytes" where
  "base64_decode_string B s =
     (if s = [] then Inr []
      else (case b64_decode_block B s of
              None \<Rightarrow> Inl ''base64 decode failed''
            | Some out \<Rightarrow>
                if length out < decode_padding s then Inl ''vector::_M_default_append''
                else Inr (take (length out - decode_padding s) out)))"

text \<open>What \<open>base64.encode\<close> accepts: text, a binary view, or anything else.\<close>

datatype b64_input = Bi_binary bytes | Bi_text "string option" | Bi_other

definition base64_encode_fn :: "('x) b64_scheme \<Rightarrow> b64_input \<Rightarrow> string + string" where
  "base64_encode_fn B inp =
     (case inp of
        Bi_binary data \<Rightarrow> base64_encode_bytes B data
      | Bi_text (Some s) \<Rightarrow> base64_encode_bytes B (bytes_of_string s)
      | Bi_text None \<Rightarrow> Inl ''base64.encode(data): failed to read string''
      | Bi_other \<Rightarrow> Inl ''base64.encode(data): data must be string, ArrayBuffer, or Uint8Array'')"

definition base64_decode_fn :: "('x) b64_scheme \<Rightarrow> string \<Rightarrow> string + bytes" where
  "base64_decode_fn B inp = base64_decode_string B inp"

section \<open>The alphabet\<close>

text \<open>RFC 4648, and what OpenSSL documents of its two block functions.\<close>

definition b64_char :: "nat \<Rightarrow> char" where
  "b64_char n = ''ABCDEFGHIJKLMNOPQRSTUVWXYZabcdefghijklmnopqrstuvwxyz0123456789+/'' ! n"

definition b64_group :: "nat \<Rightarrow> string" where
  "b64_group n = map b64_char [n div 262144, n div 4096 mod 64, n div 64 mod 64, n mod 64]"

definition group_bits :: "byte \<Rightarrow> byte \<Rightarrow> byte \<Rightarrow> nat" where
  "group_bits a b c = unat a * 65536 + unat b * 256 + unat c"

fun rfc_encode :: "bytes \<Rightarrow> string" where
  "rfc_encode [] = []"
| "rfc_encode [a] = take 2 (b64_group (group_bits a 0 0)) @ ''==''"
| "rfc_encode [a, b] = take 3 (b64_group (group_bits a b 0)) @ ''=''"
| "rfc_encode (a # b # c # bs) = b64_group (group_bits a b c) @ rfc_encode bs"

text \<open>
  The decoder reads whole groups, padding counting as zero bits, so its output is a multiple of
  three bytes; it also trims white space at the end of its input.
\<close>

definition block_codec :: "('x) b64_scheme \<Rightarrow> bytes \<Rightarrow> bool" where
  "block_codec B data \<longleftrightarrow>
     b64_encode_block B data = Some (rfc_encode data) \<and>
     b64_decode_block B (rfc_encode data) = Some (data @ replicate ((3 - length data mod 3) mod 3) 0) \<and>
     b64_decode_block B (rfc_encode data @ [CHR 0x0A]) = b64_decode_block B (rfc_encode data)"

lemma b64_char_not_pad: "n < 64 \<Longrightarrow> b64_char n \<noteq> CHR ''=''"
proof -
  assume "n < 64"
  then have "b64_char n \<in> set ''ABCDEFGHIJKLMNOPQRSTUVWXYZabcdefghijklmnopqrstuvwxyz0123456789+/''"
    unfolding b64_char_def by (intro nth_mem) simp
  then show ?thesis by auto
qed

lemma decode_padding_append:
  "length t = 4 \<Longrightarrow> decode_padding (s @ t) = decode_padding t"
  by (cases t) (auto simp: decode_padding_def nth_append)

lemma rfc_encode_tail:
  "data \<noteq> [] \<Longrightarrow> \<exists>s t. rfc_encode data = s @ t \<and> length t = 4 \<and> decode_padding t = (3 - length data mod 3) mod 3"
proof (induction data rule: rfc_encode.induct)
  case (2 a)
  have "group_bits a 0 0 div 4096 mod 64 < 64" by simp
  then show ?case
    by (intro exI [of _ "[]"] exI [of _ "rfc_encode [a]"])
      (simp add: decode_padding_def b64_group_def)
next
  case (3 a b)
  have "b64_char (group_bits a b 0 div 64 mod 64) \<noteq> CHR ''=''" by (rule b64_char_not_pad) simp
  then show ?case
    by (intro exI [of _ "[]"] exI [of _ "rfc_encode [a, b]"])
      (simp add: decode_padding_def b64_group_def)
next
  case (4 a b c bs)
  show ?case
  proof (cases "bs = []")
    case True
    have "b64_char (group_bits a b c mod 64) \<noteq> CHR ''=''" by (rule b64_char_not_pad) simp
    then show ?thesis using True
      by (intro exI [of _ "[]"] exI [of _ "b64_group (group_bits a b c)"])
        (simp add: decode_padding_def b64_group_def)
  next
    case False
    then obtain s t where "rfc_encode bs = s @ t" "length t = 4"
      "decode_padding t = (3 - length bs mod 3) mod 3" using 4 by blast
    then show ?thesis
      by (intro exI [of _ "b64_group (group_bits a b c) @ s"] exI [of _ t]) (simp add: mod_Suc)
  qed
qed simp

lemma rfc_encode_length: "length (rfc_encode data) = 4 * ((length data + 2) div 3)"
proof (induction data rule: rfc_encode.induct)
  case (4 a b c bs)
  have "(length (a # b # c # bs) + 2) div 3 = Suc ((length bs + 2) div 3)" by simp
  then show ?case using 4 by (simp add: b64_group_def)
qed (simp_all add: b64_group_def)

lemma padding_of_encoding: "decode_padding (rfc_encode data) = (3 - length data mod 3) mod 3"
proof (cases "data = []")
  case False
  then show ?thesis using rfc_encode_tail [OF False] decode_padding_append by fastforce
qed (simp add: decode_padding_def)

text \<open>
  C40: base64 round trip.  Encoding data gives its RFC 4648 text, four characters for every three
  bytes begun, and decoding that text gives exactly the data: the padding count cuts the zero bytes
  the block decoder adds.  But the count looks at the last characters only: a line break after the
  text hides the padding, and the decoded data then ends in one or two zero bytes that were not
  there.
\<close>

theorem base64_round_trip:
  assumes "block_codec B data"
  shows "\<exists>s. base64_encode_fn B (Bi_binary data) = Inr s \<and> length s = 4 * ((length data + 2) div 3) \<and>
    base64_decode_fn B s = Inr data \<and>
    base64_decode_fn B (s @ [CHR 0x0A]) = Inr (data @ replicate ((3 - length data mod 3) mod 3) 0)"
proof (intro exI conjI)
  let ?s = "rfc_encode data" and ?n = "(3 - length data mod 3) mod 3"
  show "base64_encode_fn B (Bi_binary data) = Inr ?s"
    using assms by (simp add: block_codec_def base64_encode_fn_def base64_encode_bytes_def)
  show "length ?s = 4 * ((length data + 2) div 3)" by (rule rfc_encode_length)
  have d: "b64_decode_block B ?s = Some (data @ replicate ?n 0)" using assms by (simp only: block_codec_def)
  have "data = []" if "?s = []" using rfc_encode_length [of data] that by (cases data) auto
  then show "base64_decode_fn B ?s = Inr data"
    by (auto simp: base64_decode_fn_def base64_decode_string_def d padding_of_encoding)
  have "b64_decode_block B (?s @ [CHR 0x0A]) = Some (data @ replicate ?n 0)"
    using assms d by (simp only: block_codec_def)
  moreover have "decode_padding (?s @ [CHR 0x0A]) = 0" by (simp add: decode_padding_def nth_append)
  ultimately show "base64_decode_fn B (?s @ [CHR 0x0A]) = Inr (data @ replicate ?n 0)"
    by (simp only: base64_decode_fn_def base64_decode_string_def) simp
qed

text \<open>A block decoder, for the witness.\<close>

fun b64_index :: "char \<Rightarrow> string \<Rightarrow> nat" where
  "b64_index c [] = 0"
| "b64_index c (x # xs) = (if c = x then 0 else Suc (b64_index c xs))"

definition b64_value :: "char \<Rightarrow> nat" where
  "b64_value c =
     (if c = CHR ''='' then 0
      else b64_index c ''ABCDEFGHIJKLMNOPQRSTUVWXYZabcdefghijklmnopqrstuvwxyz0123456789+/'')"

fun rfc_decode :: "string \<Rightarrow> bytes option" where
  "rfc_decode [] = Some []"
| "rfc_decode [c] = (if c = CHR 0x0A then Some [] else None)"
| "rfc_decode (a # b # c # d # s) =
     (let n = ((b64_value a * 64 + b64_value b) * 64 + b64_value c) * 64 + b64_value d
      in map_option (append [word_of_nat (n div 65536), word_of_nat (n div 256), word_of_nat n]) (rfc_decode s))"
| "rfc_decode s = None"

definition rfc_b64 :: b64 where
  "rfc_b64 = \<lparr>b64_encode_block = (\<lambda>d. Some (rfc_encode d)), b64_decode_block = rfc_decode\<rparr>"

lemma demo_encode: "rfc_encode [104, 105, 33, 63] = ''aGkhPw==''"
  by (simp add: b64_group_def group_bits_def b64_char_def)

lemma demo_decode:
  "rfc_decode ''aGkhPw=='' = Some [104, 105, 33, 63, 0, 0]"
  "rfc_decode (''aGkhPw=='' @ [CHR 0x0A]) = Some [104, 105, 33, 63, 0, 0]"
  by (simp_all add: b64_value_def)

lemma demo_pad: "replicate ((3 - length [104 :: byte, 105, 33, 63] mod 3) mod 3) (0 :: byte) = [0, 0]"
  by (simp add: numeral_2_eq_2)

lemma demo_codec: "block_codec rfc_b64 [104, 105, 33, 63]"
  unfolding block_codec_def demo_pad demo_encode rfc_b64_def b64.simps demo_decode by simp

theorem base64_round_trip_witness:
  "\<exists>s. base64_encode_fn rfc_b64 (Bi_binary [104, 105, 33, 63]) = Inr s \<and> length s = 8 \<and>
     base64_decode_fn rfc_b64 s = Inr [104, 105, 33, 63] \<and>
     base64_decode_fn rfc_b64 (s @ [CHR 0x0A]) = Inr [104, 105, 33, 63, 0, 0]"
proof -
  have l: "4 * ((length [104 :: byte, 105, 33, 63] + 2) div 3) = 8" by simp
  show ?thesis using base64_round_trip [OF demo_codec] unfolding l demo_pad append.simps .
qed

end
