(* ===== verification/HostStream.thy ===== *)
theory HostStream
  imports HttpSession
begin

text \<open>
  Streaming responses (\<open>native_stream\<close> of \<open>src/host.cpp\<close>).  The native finds its session in a JS
  global, begins a chunked response, and for the time of the user's callback puts the session in the
  place of the host as the opaque pointer of the JS context, where \<open>write\<close> and \<open>end\<close> look for it.

  A native reinterprets that pointer as what it expects: \<open>write\<close> and \<open>end\<close> as a session, all others as
  the host.  A native that finds the other kind has undefined behaviour, \<open>sh_undefined\<close>.  The
  bytes of a session are taken to reach its socket in the order of the calls.
\<close>

section \<open>The context\<close>

datatype opaque = Op_host | Op_session nat

record stream_host =
  sh_opaque :: opaque
  sh_session_ptr :: "nat option"
  sh_out :: "nat \<Rightarrow> bytes"
  sh_undefined :: bool

text \<open>What JavaScript calls in a callback; \<open>Ja_native\<close> is any native that takes the host.\<close>

datatype stream_call = Ja_write bytes | Ja_end | Ja_native

definition send_on :: "nat \<Rightarrow> effect list \<Rightarrow> stream_host \<Rightarrow> stream_host" where
  "send_on n es s = s\<lparr>sh_out := (sh_out s)(n := sh_out s n @ sent es)\<rparr>"

definition native_stream_write :: "bytes \<Rightarrow> stream_host \<Rightarrow> stream_host" where
  "native_stream_write data s =
     (case sh_opaque s of
        Op_session n \<Rightarrow> send_on n (write_chunk_sync data) s
      | Op_host \<Rightarrow> s\<lparr>sh_undefined := True\<rparr>)"

definition native_stream_end :: "stream_host \<Rightarrow> stream_host" where
  "native_stream_end s =
     (case sh_opaque s of
        Op_session n \<Rightarrow> send_on n finish_chunked s
      | Op_host \<Rightarrow> s\<lparr>sh_undefined := True\<rparr>)"

definition host_native :: "stream_host \<Rightarrow> stream_host" where
  "host_native s =
     (case sh_opaque s of Op_host \<Rightarrow> s | Op_session n \<Rightarrow> s\<lparr>sh_undefined := True\<rparr>)"

fun js_action :: "stream_call \<Rightarrow> stream_host \<Rightarrow> stream_host" where
  "js_action (Ja_write data) s = native_stream_write data s"
| "js_action Ja_end s = native_stream_end s"
| "js_action Ja_native s = host_native s"

text \<open>The handler of a request leaves the pointer of its session in the global.\<close>

definition note_session :: "nat \<Rightarrow> stream_host \<Rightarrow> stream_host" where
  "note_session n s = s\<lparr>sh_session_ptr := Some n\<rparr>"

datatype callback_result = Cr_exception | Cr_promise | Cr_value

datatype stream_result = Sr_int int | Sr_promise

definition native_stream ::
  "string option \<Rightarrow> stream_call list \<Rightarrow> callback_result \<Rightarrow> stream_host \<Rightarrow> stream_result \<times> stream_host" where
  "native_stream content_type actions res s =
     (case sh_session_ptr s of
        None \<Rightarrow> (Sr_int (-1), s)
      | Some n \<Rightarrow>
          (let s1 = send_on n (begin_chunked 200
                 (case content_type of None \<Rightarrow> ''text/plain'' | Some t \<Rightarrow> t)) s;
               s2 = fold js_action actions (s1\<lparr>sh_opaque := Op_session n\<rparr>);
               s3 = s2\<lparr>sh_opaque := Op_host\<rparr>
           in (case res of
                 Cr_exception \<Rightarrow> (Sr_int (-1), s3)
               | Cr_promise \<Rightarrow> (Sr_promise, s3)
               | Cr_value \<Rightarrow> (Sr_int 0, s3))))"

section \<open>What a callback may call, and when\<close>

text \<open>An action is defined when the context holds what it expects.\<close>

definition action_defined :: "opaque \<Rightarrow> stream_call \<Rightarrow> bool" where
  "action_defined p a = (case p of Op_host \<Rightarrow> a = Ja_native | Op_session n \<Rightarrow> a \<noteq> Ja_native)"

definition action_bytes :: "stream_call \<Rightarrow> bytes" where
  "action_bytes a = (case a of Ja_write d \<Rightarrow> sent (write_chunk_sync d) | Ja_end \<Rightarrow> sent finish_chunked | Ja_native \<Rightarrow> [])"

lemma action_in_session:
  "sh_opaque s = Op_session n \<Longrightarrow>
   js_action a s = s\<lparr>sh_out := (sh_out s)(n := sh_out s n @ action_bytes a),
     sh_undefined := sh_undefined s \<or> \<not> action_defined (Op_session n) a\<rparr>"
  by (cases a; cases s) (simp_all add: native_stream_write_def native_stream_end_def host_native_def
      send_on_def action_bytes_def action_defined_def)

lemma actions_in_session:
  "sh_opaque s = Op_session n \<Longrightarrow>
   fold js_action as s = s\<lparr>sh_out := (sh_out s)(n := sh_out s n @ concat (map action_bytes as)),
     sh_undefined := sh_undefined s \<or> \<not> list_all (action_defined (Op_session n)) as\<rparr>"
proof (induction as arbitrary: s)
  case Nil
  then show ?case by (cases s) simp
next
  case (Cons a as)
  have o: "sh_opaque (js_action a s) = Op_session n" using Cons.prems by (simp add: action_in_session)
  show ?case using Cons.IH [OF o] Cons.prems by (cases s) (simp add: action_in_session fun_eq_iff)
qed

lemma action_in_host:
  "sh_opaque s = Op_host \<Longrightarrow>
   js_action a s = s\<lparr>sh_undefined := sh_undefined s \<or> \<not> action_defined Op_host a\<rparr>"
  by (cases a; cases s) (simp_all add: native_stream_write_def native_stream_end_def host_native_def action_defined_def)

text \<open>
  C24: the window of a stream callback.  A callback that writes pieces and ends the response while
  \<open>stream\<close> runs it sends one chunked response on the session of the global, which decodes to the pieces
  joined, and touches no other session; the context is the host's again afterwards.  A native of the
  host called inside the callback, and a write after the callback has returned (after its first
  \<open>await\<close>), have undefined behaviour.
\<close>

theorem stream_callback_window:
  assumes "sh_session_ptr s = Some n" and "\<not> sh_undefined s"
    and "native_stream ct (map Ja_write datas @ [Ja_end]) res s = (r, t)"
  shows "\<exists>body. sh_out t = (sh_out s)(n := sh_out s n @
        sent (begin_chunked 200 (case ct of None \<Rightarrow> ''text/plain'' | Some c \<Rightarrow> c)) @ body) \<and>
      decode_chunked body = Some (concat datas) \<and> \<not> sh_undefined t \<and> sh_opaque t = Op_host \<and>
      sh_undefined (js_action (Ja_write late) t) \<and>
      sh_undefined (snd (native_stream ct (as @ Ja_native # bs) res s))"
proof (intro exI conjI)
  let ?body = "concat (map (\<lambda>d. sent (write_chunk d)) datas) @ sent finish_chunked"
  have b: "concat (map action_bytes (map Ja_write datas @ [Ja_end])) = ?body"
    by (simp add: comp_def action_bytes_def sync_writer)
  have d: "list_all (action_defined (Op_session n)) (map Ja_write datas @ [Ja_end])"
    by (simp add: list_all_iff action_defined_def)
  show "sh_out t = (sh_out s)(n := sh_out s n @
      sent (begin_chunked 200 (case ct of None \<Rightarrow> ''text/plain'' | Some c \<Rightarrow> c)) @ ?body)"
    and u: "\<not> sh_undefined t" and o: "sh_opaque t = Op_host"
    using assms d by (auto simp: native_stream_def Let_def actions_in_session b send_on_def
        simp del: fold_append map_append concat_append split: callback_result.splits)
  show "decode_chunked ?body = Some (concat datas)" by (rule decode_chunks)
  show "sh_undefined (js_action (Ja_write late) t)"
    using action_in_host [OF o, of "Ja_write late"] by (simp add: action_defined_def)
  show "sh_undefined (snd (native_stream ct (as @ Ja_native # bs) res s))"
    using assms(1) by (cases res) (simp_all add: native_stream_def Let_def actions_in_session action_defined_def
        del: fold_append)
qed

definition demo_stream :: stream_host where
  "demo_stream = \<lparr>sh_opaque = Op_host, sh_session_ptr = Some 3, sh_out = (\<lambda>_. []), sh_undefined = False\<rparr>"

theorem stream_callback_window_witness:
  "\<exists>t body. snd (native_stream None (map Ja_write [[104], [105]] @ [Ja_end]) Cr_value demo_stream) = t \<and>
     sh_out t 3 = sent (begin_chunked 200 ''text/plain'') @ body \<and> decode_chunked body = Some [104, 105] \<and>
     sh_out t 4 = [] \<and> sh_undefined (js_action (Ja_write [33]) t)"
proof -
  obtain r t where n: "native_stream None (map Ja_write [[104], [105]] @ [Ja_end]) Cr_value demo_stream = (r, t)"
    by (rule prod.exhaust)
  have "sh_session_ptr demo_stream = Some 3" "\<not> sh_undefined demo_stream" "sh_out demo_stream = (\<lambda>_. [])"
    by (simp_all add: demo_stream_def)
  from stream_callback_window [OF this(1,2) n, of "[33]" "[]" "[]"] this(3)
  obtain body where "sh_out t = (\<lambda>_. [])(3 := sent (begin_chunked 200 ''text/plain'') @ body)"
    "decode_chunked body = Some [104, 105]" "sh_undefined (js_action (Ja_write [33]) t)" by auto
  then show ?thesis using n by (intro exI [of _ t] exI [of _ body]) simp
qed

end
