(* ===== verification/ValueRefs.thy ===== *)
theory ValueRefs
  imports Prelude
begin

text \<open>
  Ownership of JS references by \<open>qjs::Value\<close> (\<open>src/qjs.hpp\<close>).  A \<open>Value\<close> is a context pointer, null or
  not, and a \<open>JSValue\<close>: a counted object, or undefined and the other values without a count
  (\<open>None\<close>).  A copy duplicates the reference, a move leaves a null context and undefined behind, a
  destructor frees the reference if there is a context.

  \<open>vs_count\<close> is how many references the C++ side holds on an object, \<open>vs_raw\<close> how many of them are
  plain \<open>JSValue\<close>s in no \<open>Value\<close>, just returned by the engine or by \<open>release\<close>.
\<close>

record value_handle =
  vh_ctx :: bool
  vh_val :: "nat option"

text \<open>\<open>Value() = default\<close>, and what a move leaves.\<close>

definition null_value :: value_handle where
  "null_value = \<lparr>vh_ctx = False, vh_val = None\<rparr>"

text \<open>\<open>vs_handles\<close> are the \<open>Value\<close>s constructed so far, \<open>None\<close> for a destroyed one.\<close>

record value_sys =
  vs_handles :: "value_handle option list"
  vs_raw :: "nat \<Rightarrow> int"
  vs_count :: "nat \<Rightarrow> int"

definition values_init :: value_sys where
  "values_init = \<lparr>vs_handles = [], vs_raw = (\<lambda>_. 0), vs_count = (\<lambda>_. 0)\<rparr>"

definition bump :: "nat option \<Rightarrow> int \<Rightarrow> (nat \<Rightarrow> int) \<Rightarrow> nat \<Rightarrow> int" where
  "bump v d m = (case v of None \<Rightarrow> m | Some k \<Rightarrow> m(k := m k + d))"

text \<open>\<open>JS_DupValue\<close> and \<open>JS_FreeValue\<close>, under the test for a context.\<close>

definition dup_handle :: "value_handle \<Rightarrow> value_sys \<Rightarrow> value_sys" where
  "dup_handle h s = (if vh_ctx h then s\<lparr>vs_count := bump (vh_val h) 1 (vs_count s)\<rparr> else s)"

definition free_handle :: "value_handle \<Rightarrow> value_sys \<Rightarrow> value_sys" where
  "free_handle h s = (if vh_ctx h then s\<lparr>vs_count := bump (vh_val h) (-1) (vs_count s)\<rparr> else s)"

definition put_handle :: "nat \<Rightarrow> value_handle option \<Rightarrow> value_sys \<Rightarrow> value_sys" where
  "put_handle i h s = s\<lparr>vs_handles := (vs_handles s)[i := h]\<rparr>"

definition new_handle :: "value_handle \<Rightarrow> value_sys \<Rightarrow> value_sys" where
  "new_handle h s = s\<lparr>vs_handles := vs_handles s @ [Some h]\<rparr>"

definition handle_at :: "nat \<Rightarrow> value_sys \<Rightarrow> value_handle option" where
  "handle_at i s = (if i < length (vs_handles s) then vs_handles s ! i else None)"

section \<open>The members of \<open>Value\<close>\<close>

definition value_take :: "nat option \<Rightarrow> value_sys \<Rightarrow> value_sys" where
  "value_take v s = new_handle \<lparr>vh_ctx = True, vh_val = v\<rparr> (s\<lparr>vs_raw := bump v (-1) (vs_raw s)\<rparr>)"

definition value_copy :: "value_handle \<Rightarrow> value_sys \<Rightarrow> value_sys" where
  "value_copy h s = new_handle h (dup_handle h s)"

definition value_move :: "nat \<Rightarrow> value_handle \<Rightarrow> value_sys \<Rightarrow> value_sys" where
  "value_move j h s = new_handle h (put_handle j (Some null_value) s)"

text \<open>\<open>operator=\<close> takes its argument by value, swaps with it and lets it go.\<close>

definition value_assign :: "nat \<Rightarrow> value_handle \<Rightarrow> value_handle \<Rightarrow> value_sys \<Rightarrow> value_sys" where
  "value_assign i old h s = free_handle old (put_handle i (Some h) (dup_handle h s))"

definition value_move_assign :: "nat \<Rightarrow> nat \<Rightarrow> value_handle \<Rightarrow> value_sys \<Rightarrow> value_sys" where
  "value_move_assign i j h s =
     (let s1 = put_handle j (Some null_value) s
      in case handle_at i s1 of
           None \<Rightarrow> s1
         | Some old \<Rightarrow> free_handle old (put_handle i (Some h) s1))"

definition value_release :: "nat \<Rightarrow> value_handle \<Rightarrow> value_sys \<Rightarrow> value_sys" where
  "value_release i h s =
     put_handle i (Some null_value) (s\<lparr>vs_raw := bump (vh_val h) 1 (vs_raw s)\<rparr>)"

definition value_reset :: "nat \<Rightarrow> value_handle \<Rightarrow> value_sys \<Rightarrow> value_sys" where
  "value_reset i h s = put_handle i (Some null_value) (free_handle h s)"

definition value_destroy :: "nat \<Rightarrow> value_handle \<Rightarrow> value_sys \<Rightarrow> value_sys" where
  "value_destroy i h s = put_handle i None (value_reset i h s)"

text \<open>The engine gives the C++ side a reference, and \<open>JS_SetPropertyStr\<close> and a returned result take one.\<close>

definition engine_gives :: "nat \<Rightarrow> value_sys \<Rightarrow> value_sys" where
  "engine_gives k s = s\<lparr>vs_raw := bump (Some k) 1 (vs_raw s), vs_count := bump (Some k) 1 (vs_count s)\<rparr>"

definition engine_takes :: "nat option \<Rightarrow> value_sys \<Rightarrow> value_sys" where
  "engine_takes v s = s\<lparr>vs_raw := bump v (-1) (vs_raw s), vs_count := bump v (-1) (vs_count s)\<rparr>"

text \<open>\<open>obj.set(name, std::move(value))\<close>.\<close>

definition value_set :: "nat \<Rightarrow> value_handle \<Rightarrow> value_sys \<Rightarrow> value_sys" where
  "value_set i h s = engine_takes (vh_val h) (value_release i h s)"

section \<open>Programs over values\<close>

datatype value_event =
    Ve_engine nat
  | Ve_default
  | Ve_take "nat option"
  | Ve_copy nat
  | Ve_move nat
  | Ve_assign nat nat
  | Ve_move_assign nat nat
  | Ve_release nat
  | Ve_return "nat option"
  | Ve_reset nat
  | Ve_set nat
  | Ve_destroy nat

definition has_raw :: "nat option \<Rightarrow> value_sys \<Rightarrow> bool" where
  "has_raw v s = (case v of None \<Rightarrow> True | Some k \<Rightarrow> 0 < vs_raw s k)"

definition on_handle :: "nat \<Rightarrow> (value_handle \<Rightarrow> value_sys \<Rightarrow> value_sys) \<Rightarrow> value_sys \<Rightarrow> value_sys option" where
  "on_handle i f s = map_option (\<lambda>h. f h s) (handle_at i s)"

fun value_step :: "value_event \<Rightarrow> value_sys \<Rightarrow> value_sys option" where
  "value_step (Ve_engine k) s = Some (engine_gives k s)"
| "value_step Ve_default s = Some (new_handle null_value s)"
| "value_step (Ve_take v) s = (if has_raw v s then Some (value_take v s) else None)"
| "value_step (Ve_copy j) s = on_handle j value_copy s"
| "value_step (Ve_move j) s = on_handle j (value_move j) s"
| "value_step (Ve_assign i j) s =
     (case handle_at i s of None \<Rightarrow> None | Some old \<Rightarrow> on_handle j (value_assign i old) s)"
| "value_step (Ve_move_assign i j) s =
     (case handle_at i s of None \<Rightarrow> None | Some old \<Rightarrow> on_handle j (value_move_assign i j) s)"
| "value_step (Ve_release i) s = on_handle i (value_release i) s"
| "value_step (Ve_return v) s = (if has_raw v s then Some (engine_takes v s) else None)"
| "value_step (Ve_reset i) s = on_handle i (value_reset i) s"
| "value_step (Ve_set i) s = on_handle i (value_set i) s"
| "value_step (Ve_destroy i) s = on_handle i (value_destroy i) s"

section \<open>References are counted exactly\<close>

text \<open>A \<open>Value\<close> without a context is undefined: the typing of handles.\<close>

definition handle_ok :: "value_handle option \<Rightarrow> bool" where
  "handle_ok x = (case x of None \<Rightarrow> True | Some h \<Rightarrow> vh_ctx h \<or> vh_val h = None)"

definition owns :: "nat \<Rightarrow> value_handle option \<Rightarrow> int" where
  "owns k x = (case x of None \<Rightarrow> 0 | Some h \<Rightarrow> if vh_ctx h \<and> vh_val h = Some k then 1 else 0)"

definition owners :: "nat \<Rightarrow> value_sys \<Rightarrow> int" where
  "owners k s = sum_list (map (owns k) (vs_handles s))"

text \<open>What the C++ side holds beyond its plain values and its \<open>Value\<close>s; it must be nothing.\<close>

definition excess :: "nat \<Rightarrow> value_sys \<Rightarrow> int" where
  "excess k s = vs_count s k - vs_raw s k - owners k s"

definition values_ok :: "value_sys \<Rightarrow> bool" where
  "values_ok s \<longleftrightarrow>
     list_all handle_ok (vs_handles s) \<and> (\<forall>k. 0 \<le> vs_raw s k) \<and> (\<forall>k. excess k s = 0)"

named_theorems value_simps

lemma sum_list_replace:
  "i < length xs \<Longrightarrow> sum_list (map f (xs[i := y])) = sum_list (map f xs) - f (xs ! i) + (f y :: int)"
  by (induction xs arbitrary: i) (auto split: nat.splits)

lemma bump_at [value_simps]: "bump v d m k = m k + (if v = Some k then d else 0)"
  by (cases v) (auto simp: bump_def)

lemma owns_typed: "handle_ok (Some h) \<Longrightarrow> owns k (Some h) = (if vh_val h = Some k then 1 else 0)"
  by (auto simp: handle_ok_def owns_def)

lemma owns_null [value_simps]: "owns k (Some null_value) = 0" "owns k None = 0" "handle_ok (Some null_value)" "handle_ok None"
  by (simp_all add: owns_def null_value_def handle_ok_def)

lemma excess_new [value_simps]: "excess k (new_handle h s) = excess k s - owns k (Some h)"
  by (simp add: excess_def owners_def new_handle_def)

lemma excess_dup [value_simps]: "excess k (dup_handle h s) = excess k s + owns k (Some h)"
  by (simp add: excess_def owners_def dup_handle_def owns_def bump_at)

lemma excess_free [value_simps]: "excess k (free_handle h s) = excess k s - owns k (Some h)"
  by (simp add: excess_def owners_def free_handle_def owns_def bump_at)

lemma excess_put:
  "handle_at i s = Some x \<Longrightarrow> excess k (put_handle i y s) = excess k s + owns k (Some x) - owns k y"
  by (auto simp: excess_def owners_def put_handle_def handle_at_def sum_list_replace split: if_splits)

lemma excess_raw: "excess k (s\<lparr>vs_raw := m\<rparr>) = excess k s + vs_raw s k - m k"
  by (simp add: excess_def owners_def)

lemma frame [value_simps]:
  "handle_at i (dup_handle h s) = handle_at i s" "handle_at i (free_handle h s) = handle_at i s"
  "vs_handles (dup_handle h s) = vs_handles s" "vs_handles (free_handle h s) = vs_handles s"
  "vs_raw (dup_handle h s) = vs_raw s" "vs_raw (free_handle h s) = vs_raw s"
  "vs_raw (new_handle h s) = vs_raw s" "vs_raw (put_handle i x s) = vs_raw s"
  "vs_handles (put_handle i x s) = (vs_handles s)[i := x]"
  "vs_handles (new_handle h s) = vs_handles s @ [Some h]"
  "handle_at i (s\<lparr>vs_raw := m\<rparr>) = handle_at i s"
  by (simp_all add: handle_at_def dup_handle_def free_handle_def new_handle_def put_handle_def)

lemma handle_at_put:
  "handle_at j s = Some h \<Longrightarrow> handle_at i (put_handle j x s) = (if i = j then x else handle_at i s)"
  by (auto simp: handle_at_def put_handle_def split: if_splits)

lemma list_all_replace: "list_all P xs \<Longrightarrow> P x \<Longrightarrow> list_all P (xs[i := x])"
  by (auto simp: list_all_iff dest: set_update_subset_insert [THEN subsetD])

lemma handle_at_ok: "values_ok s \<Longrightarrow> handle_at i s = Some h \<Longrightarrow> handle_ok (Some h)"
  by (auto simp: values_ok_def handle_at_def list_all_length split: if_splits)

lemma value_step_ok:
  assumes ok: "values_ok s" and st: "value_step e s = Some t"
  shows "values_ok t"
proof -
  have all: "list_all handle_ok (vs_handles s)" and raw: "\<And>k. 0 \<le> vs_raw s k" and ex: "\<And>k. excess k s = 0"
    using ok by (auto simp: values_ok_def)
  note rules = values_ok_def value_simps excess_raw all raw ex list_all_replace on_handle_def
  show ?thesis
  proof (cases e)
    case (Ve_engine k)
    then show ?thesis using st raw ex
      by (auto simp: values_ok_def engine_gives_def all bump_at excess_def owners_def)
  next
    case Ve_default
    then show ?thesis using st by (auto simp: rules)
  next
    case (Ve_take v)
    then show ?thesis using st raw
      by (auto simp: rules value_take_def has_raw_def owns_def handle_ok_def split: if_splits option.splits)
  next
    case (Ve_return v)
    then show ?thesis using st raw ex
      by (auto simp: values_ok_def engine_takes_def all bump_at has_raw_def excess_def owners_def
          split: if_splits option.splits)
  next
    case (Ve_copy j)
    then show ?thesis using st handle_at_ok [OF ok] by (auto simp: rules value_copy_def)
  next
    case (Ve_move j)
    then show ?thesis using st handle_at_ok [OF ok] by (auto simp: rules value_move_def excess_put)
  next
    case (Ve_assign i j)
    then show ?thesis using st handle_at_ok [OF ok]
      by (auto simp: rules value_assign_def excess_put split: option.splits)
  next
    case (Ve_move_assign i j)
    then obtain old h where a: "handle_at i s = Some old" "handle_at j s = Some h" "t = value_move_assign i j h s"
      using st by (auto simp: on_handle_def split: option.splits)
    then show ?thesis using handle_at_ok [OF ok]
      by (cases "i = j") (auto simp: rules value_move_assign_def Let_def handle_at_put excess_put)
  next
    case (Ve_release i)
    then show ?thesis using st handle_at_ok [OF ok] raw
      by (auto simp: rules value_release_def excess_put owns_typed)
  next
    case (Ve_reset i)
    then show ?thesis using st by (auto simp: rules value_reset_def excess_put)
  next
    case (Ve_set i)
    then obtain h where h: "handle_at i s = Some h" "t = value_set i h s" using st by (auto simp: on_handle_def)
    let ?u = "value_release i h s"
    have "values_ok ?u" using h(1) handle_at_ok [OF ok h(1)] raw
      by (auto simp: rules value_release_def excess_put owns_typed)
    moreover have "vs_raw ?u k = vs_raw s k + (if vh_val h = Some k then 1 else 0)" for k
      by (simp add: value_release_def value_simps)
    ultimately show ?thesis using raw unfolding h(2) value_set_def
      by (auto simp: values_ok_def engine_takes_def excess_def owners_def bump_at)
  next
    case (Ve_destroy i)
    then show ?thesis using st by (auto simp: rules value_destroy_def value_reset_def excess_put handle_at_put)
  qed
qed

interpretation value_refs: machine value_step values_init values_ok
  by unfold_locales
    (simp add: values_ok_def values_init_def excess_def owners_def, rule value_step_ok)

lemma owners_nonneg: "0 \<le> owners k s"
proof -
  have "0 \<le> sum_list (map (owns k) xs)" for xs
    by (induction xs) (simp_all add: owns_def split: option.splits)
  then show ?thesis by (simp add: owners_def)
qed

lemma owner_counts:
  assumes "handle_at i s = Some h" and "vh_ctx h" and "vh_val h = Some k"
  shows "1 \<le> owners k s"
proof -
  have "owners k (put_handle i None s) = owners k s - 1"
    using assms by (auto simp: owners_def put_handle_def handle_at_def sum_list_replace owns_def split: if_splits)
  then show ?thesis using owners_nonneg [of k "put_handle i None s"] by linarith
qed

text \<open>
  C17: the typing and the counting of \<open>qjs::Value\<close>.  In any program of copies, moves, assignments
  (to itself too), releases and destructions: a \<open>Value\<close> without a context is undefined; the
  references the C++ side holds on an object are exactly its plain ones and its \<open>Value\<close>s with a
  context, so no reference is freed twice; and when every \<open>Value\<close> is destroyed or null and no plain
  reference is left, none is held.
\<close>

theorem value_references_exact:
  assumes "reachable value_step values_init s"
  shows "list_all handle_ok (vs_handles s) \<and>
    vs_count s k = vs_raw s k + owners k s \<and> 0 \<le> vs_raw s k \<and>
    (handle_at i s = Some h \<longrightarrow> vh_ctx h \<longrightarrow> vh_val h = Some k \<longrightarrow> 1 \<le> vs_count s k) \<and>
    (list_all (\<lambda>x. x = None \<or> x = Some null_value) (vs_handles s) \<longrightarrow> vs_raw s k = 0 \<longrightarrow> vs_count s k = 0)"
proof -
  have ok: "values_ok s" using assms by (rule value_refs.reachable_inv)
  then have c: "vs_count s k = vs_raw s k + owners k s" and r: "0 \<le> vs_raw s k"
    and t: "list_all handle_ok (vs_handles s)"
    by (simp_all add: values_ok_def excess_def diff_eq_eq add.commute)
  moreover have "1 \<le> vs_count s k" if "handle_at i s = Some h" "vh_ctx h" "vh_val h = Some k"
    using owner_counts [OF that] c r by linarith
  moreover have "owners k s = 0" if "list_all (\<lambda>x. x = None \<or> x = Some null_value) (vs_handles s)"
  proof -
    have "sum_list (map (owns k) xs) = 0" if "list_all (\<lambda>x. x = None \<or> x = Some null_value) xs" for xs
      using that by (induction xs) (auto simp: value_simps)
    then show ?thesis using that by (simp add: owners_def)
  qed
  ultimately show ?thesis by auto
qed

definition value_demo :: "value_event list" where
  "value_demo = [Ve_engine 7, Ve_take (Some 7), Ve_copy 0, Ve_move 0, Ve_assign 0 2, Ve_assign 1 1, Ve_move_assign 2 2,
     Ve_set 1, Ve_destroy 0]"

theorem value_references_exact_witness:
  "\<exists>s. reachable value_step values_init s \<and> length (vs_handles s) = 3 \<and> vs_count s 7 = 1 \<and> owners 7 s = 1 \<and>
     handle_at 2 s = Some \<lparr>vh_ctx = True, vh_val = Some 7\<rparr>"
proof -
  have r: "case run value_step values_init value_demo of
      None \<Rightarrow> False
    | Some s \<Rightarrow> length (vs_handles s) = 3 \<and> vs_count s 7 = 1 \<and> vs_raw s 7 = 0 \<and>
        handle_at 2 s = Some \<lparr>vh_ctx = True, vh_val = Some 7\<rparr>" unfolding value_demo_def by code_simp
  obtain s where s: "run value_step values_init value_demo = Some s"
    and p: "length (vs_handles s) = 3" "vs_count s 7 = 1" "vs_raw s 7 = 0"
      "handle_at 2 s = Some \<lparr>vh_ctx = True, vh_val = Some 7\<rparr>"
    by (rule run_resultE [OF r]) (elim conjE, rule that)
  note reach = run_reachable [OF s]
  have "vs_count s 7 = vs_raw s 7 + owners 7 s" using value_references_exact [OF reach, of 7] by blast
  then have "owners 7 s = 1" using p by simp
  then show ?thesis using reach p by (intro exI [of _ s] conjI)
qed

end
