(* ===== verification/MpscSpec.thy ===== *)
theory MpscSpec
  imports Mpsc
begin

text \<open>
  What a channel promises, without locks, waiters and wake-ups: a queue that accepts values while it
  is open, hands them out in order, and reports its end only when it is closed and empty.  The
  receive protocol of \<open>src/channel.hpp\<close> refines it.
\<close>

section \<open>The abstract channel\<close>

record 'a channel =
  ch_items :: "'a list"
  ch_open :: bool
  ch_ended :: bool

datatype 'a channel_op = Op_send 'a | Op_refuse 'a | Op_close | Op_deliver 'a | Op_end | Op_none | Op_skip

fun channel_step :: "'a channel_op \<Rightarrow> 'a channel \<Rightarrow> 'a channel option" where
  "channel_step (Op_send v) c = (if ch_open c then Some (c\<lparr>ch_items := ch_items c @ [v]\<rparr>) else None)"
| "channel_step (Op_refuse v) c = (if ch_open c then None else Some c)"
| "channel_step Op_close c = Some (c\<lparr>ch_open := False\<rparr>)"
| "channel_step (Op_deliver v) c =
     (case ch_items c of [] \<Rightarrow> None | x # xs \<Rightarrow> if x = v then Some (c\<lparr>ch_items := xs\<rparr>) else None)"
| "channel_step Op_end c =
     (if \<not> ch_open c \<and> ch_items c = [] then Some (c\<lparr>ch_ended := True\<rparr>) else None)"
| "channel_step Op_none c = (if ch_items c = [] then Some c else None)"
| "channel_step Op_skip c = Some c"

definition channel_fresh :: "'a channel" where
  "channel_fresh = \<lparr>ch_items = [], ch_open = True, ch_ended = False\<rparr>"

section \<open>The simulation\<close>

text \<open>
  The abstract state, and the abstract operation a step of the protocol stands for, read off the
  result its caller gets: the \<open>bool\<close> of \<open>send\<close> and the optional values of \<open>recv\<close> and \<open>try_recv\<close>.
\<close>

definition channel_of :: "'a recv_sys \<Rightarrow> 'a channel" where
  "channel_of s =
     \<lparr>ch_items = mq_queue (rs_chan s), ch_open = (\<not> mq_closed (rs_chan s)), ch_ended = rs_eof s\<rparr>"

fun op_of :: "'a recv_event \<Rightarrow> 'a recv_sys \<Rightarrow> 'a channel_op" where
  "op_of (Ev_send v) s = (if fst (mpsc_send v (rs_chan s)) then Op_send v else Op_refuse v)"
| "op_of Ev_close s = Op_close"
| "op_of Ev_poll s = Op_skip"
| "op_of (Ev_suspend h ex) s = Op_skip"
| "op_of Ev_resume s = (case fst (mpsc_await_resume (rs_chan s)) of None \<Rightarrow> Op_end | Some v \<Rightarrow> Op_deliver v)"
| "op_of Ev_try_recv s = (case fst (mpsc_try_recv (rs_chan s)) of None \<Rightarrow> Op_none | Some v \<Rightarrow> Op_deliver v)"

definition ops_of :: "'a recv_event list \<Rightarrow> 'a recv_sys \<Rightarrow> 'a channel_op list" where
  "ops_of = ops_along recv_step op_of"

lemma channel_of_wake: "channel_of (rs_wake ws s) = channel_of s"
  by (simp add: channel_of_def rs_wake_def split: prod.splits)

lemma step_refines:
  assumes inv: "recv_inv s" and st: "recv_step e s = Some t"
  shows "channel_step (op_of e s) (channel_of s) = Some (channel_of t)"
proof (cases e)
  case (Ev_send v)
  then show ?thesis using st
    by (auto simp: mpsc_send_def channel_of_wake) (simp_all add: channel_of_def)
next
  case Ev_close
  then show ?thesis using st
    by (auto simp: mpsc_close_def mpsc_close_locked_def channel_of_wake split: if_splits)
      (simp_all add: channel_of_def)
next
  case Ev_poll
  then show ?thesis using st by (auto simp: channel_of_def split: if_splits)
next
  case (Ev_suspend h ex)
  then show ?thesis using st by (auto simp: channel_of_def mpsc_await_suspend_def split: if_splits)
next
  case Ev_resume
  then have "mq_queue (rs_chan s) \<noteq> [] \<or> mq_closed (rs_chan s)"
    using st inv by (auto simp: recv_inv_def Let_def split: if_splits)
  then show ?thesis using st Ev_resume
    by (auto simp: channel_of_def mpsc_await_resume_def split: if_splits list.splits)
next
  case Ev_try_recv
  then show ?thesis using st
    by (cases "mq_queue (rs_chan s)") (auto simp: channel_of_def mpsc_try_recv_def split: if_splits)
qed

lemma channel_of_init: "channel_of recv_init = channel_fresh"
  by (simp add: channel_of_def recv_init_def mpsc_fresh_def channel_fresh_def)

interpretation channel: refinement recv_step recv_init recv_inv channel_step channel_fresh channel_of op_of
  by unfold_locales (simp_all add: recv_inv_init recv_inv_step channel_of_init step_refines)

text \<open>
  C8: the channel implements its specification.  Every interleaving of producers, closes and the
  consumer, read through the results of its calls as sends, refusals, closes, deliveries and ends, is
  a run of the abstract channel: \<open>send\<close> says that it accepts exactly while the channel is open,
  \<open>recv\<close> and \<open>try_recv\<close> return the values in order, \<open>try_recv\<close> returns nothing only when there is
  none, and \<open>recv\<close> reports the end only when the channel is closed and empty; suspending, waking and
  polling are invisible.
\<close>

theorem mpsc_refines_channel:
  fixes es :: "'a recv_event list"
  assumes "run recv_step recv_init es = Some t"
  shows "run channel_step channel_fresh (ops_of es recv_init) = Some (channel_of t)"
  unfolding ops_of_def by (rule channel.run_refines [OF assms])

theorem mpsc_refines_channel_witness:
  "\<exists>t. run channel_step channel_fresh [Op_skip, Op_skip, Op_send (10 :: nat), Op_send 11, Op_deliver 10, Op_close,
       Op_skip, Op_deliver 11, Op_skip, Op_end] = Some (channel_of t)"
proof -
  obtain t :: "nat recv_sys" where t: "run recv_step recv_init demo_events = Some t"
    using demo_finished by blast
  have "ops_of demo_events recv_init = [Op_skip, Op_skip, Op_send (10 :: nat), Op_send 11, Op_deliver 10, Op_close,
       Op_skip, Op_deliver 11, Op_skip, Op_end]"
    by (simp add: ops_of_def recv_run_simps)
  then show ?thesis using mpsc_refines_channel [OF t] by auto
qed

end
