(* ===== verification/ModuleLoader.thy ===== *)
theory ModuleLoader
  imports Prelude
begin

text \<open>
  In-memory modules (\<open>src/qjs_module.cpp\<close>): the process-wide table \<open>s_modules\<close> and the loader QuickJS
  calls for an import.  The loader takes the lock twice, once to look the module up and once to copy
  its source; other threads may register modules in between.
\<close>

text \<open>\<open>ml_defaulted\<close>: an \<open>operator[]\<close> of the loader made an entry, whose source pointer is null.\<close>

record loader_sys =
  ml_modules :: "string \<Rightarrow> string option"
  ml_history :: "(string \<times> string) list"
  ml_loading :: "string list"
  ml_defaulted :: bool

definition loader_init :: loader_sys where
  "loader_init = \<lparr>ml_modules = (\<lambda>_. None), ml_history = [], ml_loading = [], ml_defaulted = False\<rparr>"

definition register_module :: "string \<Rightarrow> string \<Rightarrow> loader_sys \<Rightarrow> loader_sys" where
  "register_module name src s =
     s\<lparr>ml_modules := (ml_modules s)(name := Some src), ml_history := (name, src) # ml_history s\<rparr>"

text \<open>The lookup under the first lock; failing it is a JS \<open>ReferenceError\<close>.\<close>

definition loader_find :: "string \<Rightarrow> loader_sys \<Rightarrow> (string + unit) \<times> loader_sys" where
  "loader_find name s =
     (case ml_modules s name of
        None \<Rightarrow> (Inl (''could not load module '' @ [CHR 0x27] @ name @ [CHR 0x27]), s)
      | Some src \<Rightarrow> (Inr (), s\<lparr>ml_loading := name # ml_loading s\<rparr>))"

text \<open>The copy under the second lock, through \<open>s_modules[name_copy]\<close>.\<close>

definition loader_copy :: "string \<Rightarrow> loader_sys \<Rightarrow> string \<times> loader_sys" where
  "loader_copy name s =
     (case ml_modules s name of
        None \<Rightarrow> ([], s\<lparr>ml_modules := (ml_modules s)(name := Some []), ml_defaulted := True\<rparr>)
      | Some src \<Rightarrow> (src, s\<lparr>ml_loading := remove1 name (ml_loading s)\<rparr>))"

text \<open>The rest of the loader: \<open>compile\<close> is \<open>JS_Eval\<close> in compile-only module mode.\<close>

definition module_loader ::
  "(string \<Rightarrow> string \<Rightarrow> 'm option) \<Rightarrow> string \<Rightarrow> loader_sys \<Rightarrow> (string + 'm option) \<times> loader_sys" where
  "module_loader compile name s =
     (case loader_find name s of
        (Inl e, s1) \<Rightarrow> (Inl e, s1)
      | (Inr _, s1) \<Rightarrow> (case loader_copy name s1 of (src, s2) \<Rightarrow> (Inr (compile src name), s2)))"

datatype loader_event = Le_register string string | Le_find string | Le_copy string

fun loader_step :: "loader_event \<Rightarrow> loader_sys \<Rightarrow> loader_sys option" where
  "loader_step (Le_register name src) s = Some (register_module name src s)"
| "loader_step (Le_find name) s = Some (snd (loader_find name s))"
| "loader_step (Le_copy name) s =
     (if name \<in> set (ml_loading s) then Some (snd (loader_copy name s)) else None)"

definition loader_ok :: "loader_sys \<Rightarrow> bool" where
  "loader_ok s \<longleftrightarrow>
     (\<forall>name. ml_modules s name = map_of (ml_history s) name) \<and> \<not> ml_defaulted s \<and>
     (\<forall>name \<in> set (ml_loading s). ml_modules s name \<noteq> None)"

lemma loader_step_ok: "loader_ok s \<Longrightarrow> loader_step e s = Some t \<Longrightarrow> loader_ok t"
  by (cases e)
    (auto simp: loader_ok_def register_module_def loader_find_def loader_copy_def
      dest!: set_remove1_subset [THEN subsetD] split: option.splits if_splits)

interpretation module_table: machine loader_step loader_init loader_ok
  by unfold_locales (simp add: loader_ok_def loader_init_def, rule loader_step_ok)

text \<open>
  An import gets a registered source.  With any number of threads registering modules and
  loading them, the copy a loader makes after its lookup finds the module, so no empty entry is ever
  made; what it compiles is the source registered last for that name; and an import of a name that
  was never registered is a \<open>ReferenceError\<close> and changes nothing.
\<close>

theorem import_gets_registered_source:
  assumes "reachable loader_step loader_init s"
  shows "\<not> ml_defaulted s \<and>
    (name \<in> set (ml_loading s) \<longrightarrow> Some (fst (loader_copy name s)) = map_of (ml_history s) name) \<and>
    module_loader compile name s =
      (case map_of (ml_history s) name of
         None \<Rightarrow> (Inl (''could not load module '' @ [CHR 0x27] @ name @ [CHR 0x27]), s)
       | Some src \<Rightarrow> (Inr (compile src name), s))"
proof -
  have ok: "loader_ok s" using assms by (rule module_table.reachable_inv)
  then have m: "ml_modules s name = map_of (ml_history s) name" by (simp add: loader_ok_def)
  have "Some (fst (loader_copy name s)) = map_of (ml_history s) name" if "name \<in> set (ml_loading s)"
    using ok that m by (auto simp: loader_ok_def loader_copy_def split: option.splits)
  moreover have "module_loader compile name s =
      (case map_of (ml_history s) name of
         None \<Rightarrow> (Inl (''could not load module '' @ [CHR 0x27] @ name @ [CHR 0x27]), s)
       | Some src \<Rightarrow> (Inr (compile src name), s))"
    using m by (cases s) (simp add: module_loader_def loader_find_def loader_copy_def split: option.splits)
  ultimately show ?thesis using ok by (simp add: loader_ok_def)
qed

theorem import_gets_registered_source_witness:
  "\<exists>s. reachable loader_step loader_init s \<and> module_loader (\<lambda>src n. Some src) ''hono'' s = (Inr (Some ''v2''), s)"
proof -
  have r: "case run loader_step loader_init [Le_register ''hono'' ''v1'', Le_find ''hono'', Le_register ''hono'' ''v2''] of
      None \<Rightarrow> False | Some s \<Rightarrow> map_of (ml_history s) ''hono'' = Some ''v2''" by code_simp
  obtain s where s: "run loader_step loader_init [Le_register ''hono'' ''v1'', Le_find ''hono'', Le_register ''hono'' ''v2''] = Some s"
    and m: "map_of (ml_history s) ''hono'' = Some ''v2''" by (rule run_resultE [OF r])
  note reach = run_reachable [OF s]
  have "module_loader (\<lambda>src n. Some src) ''hono'' s = (Inr (Some ''v2''), s)"
    using import_gets_registered_source [OF reach, of "''hono''" "\<lambda>src n. Some src"] m by simp
  then show ?thesis using reach by (intro exI [of _ s] conjI)
qed

section \<open>The built-in module\<close>

text \<open>
  \<open>Host::register_builtin_modules\<close> (\<open>src/host.cpp\<close>), called by every constructor of \<open>Host\<close>.  The flag is the
  \<open>std::once_flag\<close>, \<open>hono\<close> the embedded source.
\<close>

definition register_builtin_modules :: "string \<Rightarrow> bool \<times> loader_sys \<Rightarrow> bool \<times> loader_sys" where
  "register_builtin_modules hono x =
     (case x of (flag, s) \<Rightarrow> if flag then (True, s) else (True, register_module ''hono'' hono s))"

datatype process_act = Pa_host | Pa_register string string

fun run_process_act :: "string \<Rightarrow> process_act \<Rightarrow> bool \<times> loader_sys \<Rightarrow> bool \<times> loader_sys" where
  "run_process_act hono Pa_host x = register_builtin_modules hono x"
| "run_process_act hono (Pa_register name src) (flag, s) = (flag, register_module name src s)"

definition registered_last :: "string \<Rightarrow> process_act list \<Rightarrow> string option \<Rightarrow> string option" where
  "registered_last name as d =
     fold (\<lambda>a r. case a of Pa_register n src \<Rightarrow> if n = name then Some src else r | Pa_host \<Rightarrow> r) as d"

lemma registered_later:
  "ml_modules (snd (fold (run_process_act hono) as (True, s))) name = registered_last name as (ml_modules s name)"
proof (induction as arbitrary: s)
  case (Cons a as)
  then show ?case
    by (cases a) (simp_all add: registered_last_def register_builtin_modules_def register_module_def)
qed (simp add: registered_last_def)

text \<open>
  Once the first host exists, \<open>hono\<close> is the embedded source or what the program has registered under
  that name since; hosts made later do not put the embedded source back.
\<close>

theorem builtin_registered_once:
  "ml_modules (snd (fold (run_process_act hono) (Pa_host # as) (False, s))) ''hono'' = registered_last ''hono'' as (Some hono)"
  using registered_later [where s = "register_module ''hono'' hono s" and hono = hono and as = as and name = "''hono''"]
  by (simp add: register_builtin_modules_def register_module_def)

end
