(* ===== verification/HostServer.thy ===== *)
theory HostServer
  imports Prelude
begin

text \<open>
  The accept loop of \<open>HttpServer\<close> (\<open>src/net/http_server.cpp\<close>) and the server a host owns
  (\<open>src/host.cpp\<close>: \<open>start_http_server\<close>, the natives that create and close a server, \<open>shutdown\<close>).

  A server object is a number; the host's is \<open>sv_current\<close>, any other one is destroyed.  All of them
  live in turn in the storage of the optional \<open>http_server\<close>.  \<open>sv_accepts\<close> are the accepts asio has
  outstanding: the server whose \<open>do_accept\<close> issued it, and whether the accept has been cancelled.
  \<open>sv_touched\<close> are the servers a handler used when the optional was empty.
\<close>

section \<open>State and operations\<close>

record server_host =
  sv_current :: "nat option"
  sv_made :: nat
  sv_open :: "nat \<Rightarrow> bool"
  sv_accepts :: "(nat \<times> bool) list"
  sv_active :: bool
  sv_stopping :: bool
  sv_sessions :: "nat list"
  sv_touched :: "nat list"

definition servers_init :: server_host where
  "servers_init =
     \<lparr>sv_current = None, sv_made = 0, sv_open = (\<lambda>_. False), sv_accepts = [], sv_active = False,
      sv_stopping = False, sv_sessions = [], sv_touched = []\<rparr>"

text \<open>\<open>HttpServer::stop\<close>; closing the acceptor cancels its accept.\<close>

definition cancel_accept :: "nat \<Rightarrow> nat \<times> bool \<Rightarrow> nat \<times> bool" where
  "cancel_accept g x = (if fst x = g then (g, True) else x)"

definition server_stop :: "nat \<Rightarrow> server_host \<Rightarrow> server_host" where
  "server_stop g s =
     (if sv_open s g
      then s\<lparr>sv_open := (sv_open s)(g := False), sv_accepts := map (cancel_accept g) (sv_accepts s)\<rparr>
      else s)"

definition do_accept :: "nat \<Rightarrow> server_host \<Rightarrow> server_host" where
  "do_accept g s = s\<lparr>sv_accepts := sv_accepts s @ [(g, False)]\<rparr>"

text \<open>\<open>HttpServer::start\<close>: opening the acceptor may throw, and so may binding it or listening.\<close>

datatype listen_result = Listens | Open_fails | Bind_fails

definition server_start :: "listen_result \<Rightarrow> nat \<Rightarrow> server_host \<Rightarrow> bool \<times> server_host" where
  "server_start r g s =
     (case r of
        Open_fails \<Rightarrow> (False, s)
      | Bind_fails \<Rightarrow> (False, s\<lparr>sv_open := (sv_open s)(g := True)\<rparr>)
      | Listens \<Rightarrow> (True, do_accept g (s\<lparr>sv_open := (sv_open s)(g := True)\<rparr>)))"

text \<open>\<open>http_server.reset()\<close>: the destructor stops the server.\<close>

definition server_reset :: "server_host \<Rightarrow> server_host" where
  "server_reset s =
     (case sv_current s of None \<Rightarrow> s | Some g \<Rightarrow> (server_stop g s)\<lparr>sv_current := None\<rparr>)"

definition server_emplace :: "server_host \<Rightarrow> server_host" where
  "server_emplace s =
     (let s1 = server_reset s in s1\<lparr>sv_current := Some (sv_made s1), sv_made := Suc (sv_made s1)\<rparr>)"

text \<open>\<open>Host::start_http_server\<close>, its request handler apart (theory \<open>HostHttp\<close>).\<close>

definition start_http_server :: "listen_result \<Rightarrow> server_host \<Rightarrow> server_host" where
  "start_http_server r s =
     (let s1 = (case sv_current s of None \<Rightarrow> s | Some g \<Rightarrow> server_stop g s);
          s2 = server_emplace s1
      in case server_start r (sv_made s1) s2 of
           (True, s3) \<Rightarrow> s3\<lparr>sv_active := True\<rparr>
         | (False, s3) \<Rightarrow> s3)"

text \<open>\<open>get\<close> and \<open>handler\<close>: whether \<open>__httpHandler.get\<close> and what it returns are functions.\<close>

definition native_create_server :: "bool \<Rightarrow> bool \<Rightarrow> listen_result \<Rightarrow> server_host \<Rightarrow> server_host" where
  "native_create_server get handler r s =
     (if \<not> get then s else if \<not> handler then s else start_http_server r s)"

definition native_close_server :: "server_host \<Rightarrow> server_host" where
  "native_close_server s =
     (case sv_current s of
        None \<Rightarrow> s
      | Some g \<Rightarrow> (server_reset (server_stop g s))\<lparr>sv_active := False\<rparr>)"

definition host_shutdown :: "server_host \<Rightarrow> server_host" where
  "host_shutdown s =
     (let s1 = s\<lparr>sv_stopping := True, sv_active := False\<rparr>
      in case sv_current s1 of None \<Rightarrow> s1 | Some g \<Rightarrow> server_reset (server_stop g s1))"

text \<open>
  The handler of an accept of server \<open>g\<close>.  It reads \<open>handler_\<close> and \<open>acceptor_\<close> through the captured
  \<open>this\<close>, which is the address of the optional's storage: they are those of the server that is in it
  when the handler runs, whichever one issued the accept.
\<close>

definition accept_handler :: "nat \<Rightarrow> bool \<Rightarrow> server_host \<Rightarrow> server_host" where
  "accept_handler g ok s =
     (case sv_current s of
        None \<Rightarrow> s\<lparr>sv_touched := g # sv_touched s\<rparr>
      | Some k \<Rightarrow>
          (let s1 = (if ok then s\<lparr>sv_sessions := k # sv_sessions s\<rparr> else s)
           in if sv_open s1 k then do_accept k s1 else s1))"

datatype server_event = Se_create bool bool listen_result | Se_close | Se_shutdown | Se_accept nat bool bool

text \<open>
  \<open>Se_accept g c ok\<close>: the completion handler of an accept of server \<open>g\<close> runs.  One cancelled by
  \<open>close\<close> still runs: with an error, or with a connection that was accepted just before.
\<close>

fun server_step :: "server_event \<Rightarrow> server_host \<Rightarrow> server_host option" where
  "server_step (Se_create get handler r) s = Some (native_create_server get handler r s)"
| "server_step Se_close s = Some (native_close_server s)"
| "server_step Se_shutdown s = Some (host_shutdown s)"
| "server_step (Se_accept g c ok) s =
     (if (g, c) \<in> set (sv_accepts s)
      then Some (accept_handler g ok (s\<lparr>sv_accepts := remove1 (g, c) (sv_accepts s)\<rparr>))
      else None)"

section \<open>The accepts outstanding\<close>

text \<open>
  Every outstanding accept is of a server made so far, and it is cancelled exactly when the server is
  destroyed; there are at most as many as servers were made, and only the current server can be open.
\<close>

definition accept_ok :: "server_host \<Rightarrow> nat \<times> bool \<Rightarrow> bool" where
  "accept_ok s x \<longleftrightarrow>
     fst x < sv_made s \<and> snd x = (sv_current s \<noteq> Some (fst x)) \<and> (\<not> snd x \<longrightarrow> sv_open s (fst x))"

definition servers_ok :: "server_host \<Rightarrow> bool" where
  "servers_ok s \<longleftrightarrow>
     length (sv_accepts s) \<le> sv_made s \<and> list_all (accept_ok s) (sv_accepts s) \<and>
     (\<forall>g. sv_current s = Some g \<longrightarrow> g < sv_made s) \<and> (\<forall>g. sv_open s g \<longrightarrow> sv_current s = Some g)"

lemma servers_okD:
  assumes "servers_ok s"
  shows "length (sv_accepts s) \<le> sv_made s" "x \<in> set (sv_accepts s) \<Longrightarrow> accept_ok s x"
    "sv_current s = Some g \<Longrightarrow> g < sv_made s" "sv_open s g \<Longrightarrow> sv_current s = Some g"
  using assms by (auto simp: servers_ok_def list_all_iff)

text \<open>After a reset no server is open and every accept left is cancelled.\<close>

definition no_server :: "server_host \<Rightarrow> server_host" where
  "no_server s =
     s\<lparr>sv_current := None, sv_open := (\<lambda>_. False), sv_accepts := map (\<lambda>x. (fst x, True)) (sv_accepts s)\<rparr>"

lemma server_reset_fields:
  assumes ok: "servers_ok s"
  shows "sv_open (server_reset s) = (\<lambda>_. False)"
    "sv_accepts (server_reset s) = map (\<lambda>x. (fst x, True)) (sv_accepts s)"
proof -
  have cur: "sv_current s = Some h" if "sv_open s h" for h using servers_okD(4) [OF ok that] .
  have off: "sv_open s = (\<lambda>_. False)" if "sv_current s = None"
    by (rule ext) (use cur that in \<open>metis option.distinct(1)\<close>)
  have upd: "(sv_open s)(k := False) = (\<lambda>_. False)" if "sv_current s = Some k" for k
    by (rule ext) (use cur that in \<open>metis fun_upd_apply option.inject\<close>)
  have off2: "sv_open s = (\<lambda>_. False)" if "sv_current s = Some k" "\<not> sv_open s k" for k
    by (rule ext) (use cur that in \<open>metis option.inject\<close>)
  show "sv_open (server_reset s) = (\<lambda>_. False)"
  proof (cases "sv_current s")
    case None
    then show ?thesis using off by (simp add: server_reset_def)
  next
    case (Some k)
    then show ?thesis
      using upd [OF Some] off2 [OF Some] by (cases "sv_open s k") (simp_all add: server_reset_def server_stop_def)
  qed
  have c: "(fst x, True) = x" if "x \<in> set (sv_accepts s)" "\<not> sv_open s (fst x)" for x
    using servers_okD(2) [OF ok that(1)] that(2) unfolding accept_ok_def by (metis prod.collapse)
  have k: "cancel_accept k x = (fst x, True)" if "x \<in> set (sv_accepts s)" "sv_current s = Some k" for x k
    using servers_okD(2) [OF ok that(1)] that(2) by (auto simp: accept_ok_def cancel_accept_def prod_eq_iff)
  have idle: "map (\<lambda>x. (fst x, True)) (sv_accepts s) = sv_accepts s" if "\<And>g. \<not> sv_open s g"
    by (rule map_idI) (rule c, assumption, rule that)
  show "sv_accepts (server_reset s) = map (\<lambda>x. (fst x, True)) (sv_accepts s)"
  proof (cases "sv_current s")
    case None
    then show ?thesis using idle off by (simp add: server_reset_def)
  next
    case (Some g)
    show ?thesis
    proof (cases "sv_open s g")
      case True
      then show ?thesis using k [OF _ Some] by (simp add: server_reset_def server_stop_def Some)
    next
      case False
      then show ?thesis using idle off2 [OF Some] by (simp add: server_reset_def server_stop_def Some)
    qed
  qed
qed

lemma server_reset_eq:
  assumes ok: "servers_ok s"
  shows "server_reset s = no_server s"
proof (rule server_host.equality)
  show "sv_current (server_reset s) = sv_current (no_server s)"
    by (simp add: no_server_def server_reset_def split: option.split)
qed (simp_all add: server_reset_fields [OF ok] no_server_def,
    simp_all add: server_reset_def server_stop_def split: option.split)

lemma no_server_ok: "servers_ok s \<Longrightarrow> servers_ok (no_server s)"
  by (auto simp: servers_ok_def no_server_def list_all_iff accept_ok_def comp_def)

lemma stop_then_reset: "sv_current s = Some g \<Longrightarrow> server_reset (server_stop g s) = server_reset s"
  by (auto simp: server_reset_def server_stop_def)

text \<open>Server \<open>g\<close> is the host's and has an accept that was not cancelled.\<close>

definition accepting :: "nat \<Rightarrow> server_host \<Rightarrow> bool" where
  "accepting g s \<longleftrightarrow> sv_current s = Some g \<and> (g, False) \<in> set (sv_accepts s)"

lemma native_close_server_eq:
  "servers_ok s \<Longrightarrow> native_close_server s =
     (if sv_current s = None then s else (no_server s)\<lparr>sv_active := False\<rparr>)"
  by (auto simp: native_close_server_def stop_then_reset server_reset_eq split: option.splits)

lemma host_shutdown_eq:
  assumes "servers_ok s"
  shows "host_shutdown s =
    (let s1 = s\<lparr>sv_stopping := True, sv_active := False\<rparr> in if sv_current s = None then s1 else no_server s1)"
proof -
  have "servers_ok (s\<lparr>sv_stopping := True, sv_active := False\<rparr>)"
    using assms by (simp add: servers_ok_def list_all_iff accept_ok_def)
  note eq = server_reset_eq [OF this]
  show ?thesis
    by (cases "sv_current s") (simp_all add: host_shutdown_def Let_def stop_then_reset eq)
qed

lemma start_http_server_eq:
  assumes ok: "servers_ok s"
  shows "start_http_server r s =
    (let k = sv_made s; t = (no_server s)\<lparr>sv_current := Some k, sv_made := Suc k\<rparr> in
     case r of
       Open_fails \<Rightarrow> t
     | Bind_fails \<Rightarrow> t\<lparr>sv_open := (\<lambda>_. False)(k := True)\<rparr>
     | Listens \<Rightarrow> t\<lparr>sv_open := (\<lambda>_. False)(k := True), sv_accepts := sv_accepts t @ [(k, False)], sv_active := True\<rparr>)"
proof -
  have made: "sv_made (case sv_current s of None \<Rightarrow> s | Some g \<Rightarrow> server_stop g s) = sv_made s"
    by (auto simp: server_stop_def split: option.split)
  have reset: "server_reset (case sv_current s of None \<Rightarrow> s | Some g \<Rightarrow> server_stop g s) = no_server s"
    using server_reset_eq [OF ok] by (auto simp: stop_then_reset split: option.split)
  have "sv_made (no_server s) = sv_made s" "sv_open (no_server s) = (\<lambda>_. False)"
    by (simp_all add: no_server_def)
  then show ?thesis
    by (cases r)
      (simp_all add: start_http_server_def server_emplace_def reset made Let_def server_start_def do_accept_def)
qed

lemma start_http_server_ok:
  assumes ok: "servers_ok s"
  shows "servers_ok (start_http_server r s)"
proof -
  have o: "x \<in> set (sv_accepts s) \<Longrightarrow> fst x < sv_made s" for x
    using servers_okD(2) [OF ok] by (simp add: accept_ok_def)
  have d: "length (sv_accepts s) \<le> sv_made s" by (rule servers_okD(1) [OF ok])
  show ?thesis unfolding start_http_server_eq [OF ok] Let_def
    by (cases r) (use o d in \<open>fastforce simp: servers_ok_def no_server_def list_all_iff accept_ok_def comp_def\<close>)+
qed

lemma accept_handler_ok:
  assumes ok: "servers_ok s" and x: "(g, c) \<in> set (sv_accepts s)"
  shows "servers_ok (accept_handler g good (s\<lparr>sv_accepts := remove1 (g, c) (sv_accepts s)\<rparr>))"
proof -
  let ?as = "remove1 (g, c) (sv_accepts s)"
  have d: "Suc (length ?as) \<le> sv_made s"
    using servers_okD(1) [OF ok] x length_pos_if_in_set [OF x] by (simp add: length_remove1)
  have a: "list_all (accept_ok s) ?as"
    using servers_okD(2) [OF ok] set_remove1_subset [of "(g, c)" "sv_accepts s"] by (auto simp: list_all_iff)
  show ?thesis
    using d a servers_okD(3,4) [OF ok]
    by (auto simp: servers_ok_def accept_handler_def do_accept_def Let_def list_all_iff accept_ok_def split: option.split)
qed

lemma server_flags_ok [simp]:
  "servers_ok (u\<lparr>sv_active := a\<rparr>) = servers_ok u" "servers_ok (u\<lparr>sv_stopping := b\<rparr>) = servers_ok u"
  by (simp_all add: servers_ok_def list_all_iff accept_ok_def)

lemma server_step_ok:
  assumes "servers_ok s" "server_step l s = Some t"
  shows "servers_ok t"
  using assms
  by (cases l)
    (auto simp: native_create_server_def start_http_server_ok native_close_server_eq host_shutdown_eq Let_def
      no_server_ok accept_handler_ok split: if_splits)

interpretation http_servers: machine server_step servers_init servers_ok
  by unfold_locales (simp add: servers_ok_def servers_init_def, rule server_step_ok)

text \<open>A new server that listens has one accept, and a handler of an earlier server gives it another.\<close>

lemma replaced_server_accepts_twice:
  assumes ok: "servers_ok s" and cur: "sv_current s = Some g" and acc: "(g, False) \<in> set (sv_accepts s)"
  shows "\<exists>t u. server_step (Se_create True True Listens) s = Some t \<and> sv_current t = Some (sv_made s) \<and>
    server_step (Se_accept g True False) t = Some u \<and> count_list (sv_accepts u) (sv_made s, False) = 2"
proof -
  let ?k = "sv_made s"
  let ?cs = "map (\<lambda>x. (fst x, True)) (sv_accepts s)"
  define t where "t = start_http_server Listens s"
  have t: "sv_current t = Some ?k" "sv_open t ?k" "sv_accepts t = ?cs @ [(?k, False)]"
    by (simp_all add: t_def start_http_server_eq [OF ok] no_server_def Let_def)
  have m: "(g, True) \<in> set ?cs" using acc by force
  have "g \<noteq> ?k" using servers_okD(3) [OF ok cur] by simp
  have "(?k, False) \<notin> set (remove1 (g, True) ?cs)"
    using set_remove1_subset [of "(g, True)" ?cs] by auto
  then have "count_list (remove1 (g, True) ?cs) (?k, False) = 0" by simp
  then have "count_list (remove1 (g, True) (sv_accepts t) @ [(?k, False)]) (?k, False) = 2"
    using m by (simp add: t(3) remove1_append)
  then show ?thesis
    using t m by (simp add: native_create_server_def t_def [symmetric])
      (simp add: accept_handler_def do_accept_def)
qed

text \<open>
  C22: the accept loop of \<open>HttpServer\<close>.  In any order of creating, closing and shutting down servers
  and of accepts completing, there are at most as many accepts outstanding as servers were created: a
  host that creates one server has one.  While the current server accepts, each completion, good or
  bad, leaves it accepting with the same number of accepts, and only closing it, shutting the host
  down or creating another server with a registered handler ends that.  But the accept that is
  cancelled with its server is still outstanding when the server has been destroyed: after
  \<open>native_close_server\<close> its handler reads the members of a destroyed server, and after
  \<open>native_create_server\<close> it starts a second accept loop on the new server.
\<close>

theorem server_keeps_accepting:
  assumes "reachable server_step servers_init s" and "accepting g s"
  shows "length (sv_accepts s) \<le> sv_made s \<and>
    (\<forall>ok. \<exists>t. server_step (Se_accept g False ok) s = Some t \<and> accepting g t \<and>
       sv_sessions t = (if ok then g # sv_sessions s else sv_sessions s) \<and>
       length (sv_accepts t) = length (sv_accepts s) \<and> sv_touched t = sv_touched s) \<and>
    (\<forall>l t. server_step l s = Some t \<longrightarrow> \<not> accepting g t \<longrightarrow>
       l = Se_close \<or> l = Se_shutdown \<or> (\<exists>r. l = Se_create True True r)) \<and>
    (\<exists>t u. server_step Se_close s = Some t \<and> sv_current t = None \<and>
       server_step (Se_accept g True False) t = Some u \<and> sv_touched u = g # sv_touched s) \<and>
    (\<exists>t u. server_step (Se_create True True Listens) s = Some t \<and> sv_current t = Some (sv_made s) \<and>
       server_step (Se_accept g True False) t = Some u \<and> count_list (sv_accepts u) (sv_made s, False) = 2)"
proof -
  have ok: "servers_ok s" using assms(1) by (rule http_servers.reachable_inv)
  have cur: "sv_current s = Some g" and acc: "(g, False) \<in> set (sv_accepts s)"
    using assms(2) by (simp_all add: accepting_def)
  have op: "sv_open s g" using servers_okD(2) [OF ok acc] by (simp add: accept_ok_def)
  have pos: "length (remove1 (g, False) (sv_accepts s)) + 1 = length (sv_accepts s)"
    using acc length_pos_if_in_set [OF acc] by (simp add: length_remove1)
  have again: "server_step (Se_accept g False good) s = Some t \<Longrightarrow> accepting g t \<and>
      sv_sessions t = (if good then g # sv_sessions s else sv_sessions s) \<and>
      length (sv_accepts t) = length (sv_accepts s) \<and> sv_touched t = sv_touched s" for good t
    using cur acc op pos by (auto simp: accept_handler_def do_accept_def Let_def accepting_def)
  have other: "accepting g t" if st: "server_step (Se_accept k c good) s = Some t" for k c good t
  proof (cases "(k, c) = (g, False)")
    case False
    then have "(g, False) \<in> set (remove1 (k, c) (sv_accepts s))" using acc by auto
    then show ?thesis
      using st cur op by (auto simp: accept_handler_def do_accept_def Let_def accepting_def split: if_splits)
  qed (use again st in auto)
  have "accepting g t" if "server_step l s = Some t" "l \<noteq> Se_close" "l \<noteq> Se_shutdown" "\<nexists>r. l = Se_create True True r" for l t
    using that assms(2) other by (cases l) (auto simp: native_create_server_def)
  then have ends: "\<forall>l t. server_step l s = Some t \<longrightarrow> \<not> accepting g t \<longrightarrow>
      l = Se_close \<or> l = Se_shutdown \<or> (\<exists>r. l = Se_create True True r)" by blast
  have "\<exists>t. server_step (Se_accept g False good) s = Some t" for good using acc by simp
  with again have more: "\<forall>ok. \<exists>t. server_step (Se_accept g False ok) s = Some t \<and> accepting g t \<and>
      sv_sessions t = (if ok then g # sv_sessions s else sv_sessions s) \<and>
      length (sv_accepts t) = length (sv_accepts s) \<and> sv_touched t = sv_touched s" by blast
  have "(g, True) \<in> set (sv_accepts (no_server s))" using acc by (force simp: no_server_def)
  then have "\<exists>t u. server_step Se_close s = Some t \<and> sv_current t = None \<and>
      server_step (Se_accept g True False) t = Some u \<and> sv_touched u = g # sv_touched s"
    using cur by (simp add: native_close_server_eq [OF ok] accept_handler_def) (simp add: no_server_def)
  then show ?thesis using servers_okD(1) [OF ok] more ends replaced_server_accepts_twice [OF ok cur acc] by blast
qed

theorem server_keeps_accepting_witness:
  "\<exists>s. reachable server_step servers_init s \<and> accepting 1 s \<and> sv_sessions s = [1] \<and>
     sv_accepts s = [(1, False), (1, False)] \<and>
     (\<exists>t u. server_step Se_close s = Some t \<and> server_step (Se_accept 1 True False) t = Some u \<and>
        sv_touched u = [1])"
proof -
  have r: "case run server_step servers_init
        [Se_create True True Listens, Se_create True False Listens, Se_create True True Listens, Se_accept 0 True False,
         Se_accept 1 False True] of
      None \<Rightarrow> False
    | Some s \<Rightarrow> accepting 1 s \<and> sv_sessions s = [1] \<and> sv_accepts s = [(1, False), (1, False)] \<and> sv_touched s = []"
    by code_simp
  obtain s where s: "run server_step servers_init
        [Se_create True True Listens, Se_create True False Listens, Se_create True True Listens, Se_accept 0 True False,
         Se_accept 1 False True] = Some s"
    and p: "accepting 1 s" "sv_sessions s = [1]" "sv_accepts s = [(1, False), (1, False)]" "sv_touched s = []"
    by (rule run_resultE [OF r]) (elim conjE, rule that)
  note reach = run_reachable [OF s]
  show ?thesis using server_keeps_accepting [OF reach p(1)] reach p by (intro exI [of _ s]) (auto simp del: server_step.simps)
qed

end
