(* ===== verification/HostProgram.thy ===== *)
theory HostProgram
  imports HostEval HostLoop HostServer FsPromises
begin

text \<open>
  The program as a whole: what \<open>main\<close> (\<open>src/main.cpp\<close>) does with a host, from the installation of the
  natives (\<open>Host::install_runtime\<close>, \<open>install\<close> of \<open>src/fs.cpp\<close>, \<open>src/binary_store.cpp\<close>, \<open>src/crypto.cpp\<close>,
  \<open>src/fetch.cpp\<close>) to its exit code, and the callback style interface that \<open>src/fs.cpp\<close> puts in
  front of the promise natives.

  The state \<open>'h\<close> is that of the whole host.  The engine's binding of a global and the texts of the
  embedded scripts are fields of \<open>program_env\<close>; a property of an object is bound under its path, and
  a native is named by its C++ function.
\<close>

section \<open>Natives\<close>

datatype global_value = Native string | Text string

text \<open>\<open>install\<close> of \<open>src/fs.cpp\<close>\<close>

definition fs_natives :: "(string \<times> string) list" where
  "fs_natives =
    [(''__nativeReadFileSync'', ''native_read_file_sync''),
     (''__nativeWriteFileSync'', ''native_write_file_sync''), (''__nativeReadFile'', ''native_read_file''),
     (''__nativeWriteFile'', ''native_write_file''), (''__nativeExistsSync'', ''native_exists_sync''),
     (''__nativeUnlinkSync'', ''native_unlink_sync''), (''__nativeMkdirSync'', ''native_mkdir_sync''),
     (''__nativeReaddirSync'', ''native_readdir_sync''),
     (''__nativeAppendFileSync'', ''native_append_file_sync''),
     (''__nativeCopyFileSync'', ''native_copy_file_sync''), (''__nativeRenameSync'', ''native_rename_sync''),
     (''__nativeStatSync'', ''native_stat_sync''), (''__native_rm_sync'', ''native_rm_sync''),
     (''__nativeRmdirSync'', ''native_rmdir_sync''), (''__nativeChmodSync'', ''native_chmod_sync''),
     (''__nativeRealpathSync'', ''native_realpath_sync''), (''__nativeMkdtempSync'', ''native_mkdtemp_sync'')]"

text \<open>\<open>install_extended\<close>\<close>

definition fs_extended_natives :: "(string \<times> string) list" where
  "fs_extended_natives =
    [(''__nativeLstatSync'', ''native_lstat_sync''), (''__nativeSymlinkSync'', ''native_symlink_sync''),
     (''__nativeReadlinkSync'', ''native_readlink_sync''), (''__nativeAccessSync'', ''native_access_sync''),
     (''__nativeTruncateSync'', ''native_truncate_sync''), (''__nativeUtimesSync'', ''native_utimes_sync''),
     (''__nativeCreateReadStream'', ''native_create_read_stream''),
     (''__nativeCreateWriteStream'', ''native_create_write_stream''), (''__nativeWatch'', ''native_watch''),
     (''__nativeOpenSync'', ''native_open_sync''), (''__nativeCloseSync'', ''native_close_sync''),
     (''__nativeReadSync'', ''native_read_sync''), (''__nativeWriteSync'', ''native_write_sync''),
     (''__nativeFsyncSync'', ''native_fsync_sync''), (''__nativeLinkSync'', ''native_link_sync''),
     (''__nativeGlobSync'', ''native_glob_sync''), (''__nativeCpSync'', ''native_cp_sync''),
     (''__nativeChownSync'', ''native_chown_sync''), (''__nativeStatfsSync'', ''native_statfs_sync''),
     (''__nativeMkstempSync'', ''native_mkstemp_sync''),
     (''__nativePromisesReadFile'', ''native_promises_read_file''),
     (''__nativePromisesWriteFile'', ''native_promises_write_file''),
     (''__nativePromisesMkdir'', ''native_promises_mkdir''), (''__nativePromisesRm'', ''native_promises_rm''),
     (''__nativePromisesReaddir'', ''native_promises_readdir''),
     (''__nativePromisesStat'', ''native_promises_stat''),
     (''__nativePromisesLstat'', ''native_promises_lstat''),
     (''__nativePromisesAccess'', ''native_promises_access''),
     (''__nativePromisesRename'', ''native_promises_rename''),
     (''__nativePromisesUnlink'', ''native_promises_unlink''),
     (''__nativePromisesCopyFile'', ''native_promises_copy_file''),
     (''__nativePromisesChmod'', ''native_promises_chmod''),
     (''__nativePromisesAppendFile'', ''native_promises_append_file''),
     (''__nativePromisesSymlink'', ''native_promises_symlink''),
     (''__nativePromisesReadlink'', ''native_promises_readlink''),
     (''__nativePromisesRealpath'', ''native_promises_realpath''),
     (''__nativePromisesChown'', ''native_promises_chown''),
     (''__nativePromisesUtimes'', ''native_promises_utimes''),
     (''__nativePromisesMkdtemp'', ''native_promises_mkdtemp''),
     (''__nativeOpendirSync'', ''native_opendir_sync''), (''__nativeWatchFile'', ''native_watch_file''),
     (''__nativeUnwatchFile'', ''native_unwatch_file''),
     (''__nativeFdatasyncSync'', ''native_fdatasync_sync''), (''__nativeFchownSync'', ''native_fchown_sync''),
     (''__nativeFchmodSync'', ''native_fchmod_sync''), (''__nativeFstatSync'', ''native_fstat_sync''),
     (''__nativeLchmodSync'', ''native_lchmod_sync''), (''__nativeLchownSync'', ''native_lchown_sync''),
     (''__nativeLutimesSync'', ''native_lutimes_sync''), (''__nativeFutimesSync'', ''native_futimes_sync''),
     (''__nativeOpendir'', ''native_opendir''), (''__nativePromisesOpendir'', ''native_promises_opendir'')]"

text \<open>\<open>install\<close> of \<open>src/crypto.cpp\<close>\<close>

definition crypto_natives :: "(string \<times> string) list" where
  "crypto_natives =
    [(''md5'', ''hash_md5''), (''sha1'', ''hash_sha1''), (''sha256'', ''hash_sha256''),
     (''sha512'', ''hash_sha512''), (''hmacSha1'', ''hmac_sha1''), (''hmacSha256'', ''hmac_sha256''),
     (''hmacSha512'', ''hmac_sha512''), (''aesEcbEncrypt'', ''aes_ecb_encrypt''),
     (''aesEcbDecrypt'', ''aes_ecb_decrypt''), (''aesCbcEncrypt'', ''aes_cbc_encrypt''),
     (''aesCbcDecrypt'', ''aes_cbc_decrypt''), (''aesGcmEncrypt'', ''aes_gcm_encrypt''),
     (''aesGcmDecrypt'', ''aes_gcm_decrypt''), (''randomBytes'', ''random_bytes''),
     (''randomUUID'', ''random_uuid''), (''timingSafeEqual'', ''timing_safe_equal''),
     (''pbkdf2Sync'', ''pbkdf2_sync'')]"

definition fetch_natives :: "(string \<times> string) list" where
  "fetch_natives = [(''__nativeFetch'', ''native_fetch_fn''), (''__nativeFetchAbort'', ''native_fetch_abort_fn'')]"

definition binary_store_natives :: "(string \<times> string) list" where
  "binary_store_natives = [(''binaryStore.put'', ''put_fn''), (''binaryStore.take'', ''take_fn'')]"

definition runtime_natives :: "(string \<times> string) list" where
  "runtime_natives =
    [(''print'', ''print_fn''), (''base64.encode'', ''base64_encode_fn''), (''base64.decode'', ''base64_decode_fn''),
     (''setTimeout'', ''set_timeout_fn''), (''clearTimeout'', ''clear_timeout_fn''),
     (''setInterval'', ''set_interval_fn''), (''clearInterval'', ''clear_interval_fn''),
     (''console.log'', ''console_log_fn''), (''console.debug'', ''console_debug_fn''),
     (''console.info'', ''console_info_fn''), (''console.warn'', ''console_warn_fn''),
     (''console.error'', ''console_error_fn'')]"

definition runtime_http_natives :: "(string \<times> string) list" where
  "runtime_http_natives =
    [(''call'', ''native_call''), (''__nativeSendHttpResponse'', ''native_http_response''),
     (''__nativeCreateServer'', ''native_create_server''), (''__nativeCloseServer'', ''native_close_server''),
     (''stream'', ''native_stream'')]"

section \<open>Installation\<close>

record 'h program_env = "'h loop_env" +
  pe_valid :: "'h \<Rightarrow> bool"
  pe_set_opaque :: "'h \<Rightarrow> 'h"
  pe_bind :: "string \<Rightarrow> global_value \<Rightarrow> 'h \<Rightarrow> 'h"
  pe_host_id :: "'h \<Rightarrow> string"
  pe_text :: "string \<Rightarrow> string"
  pe_server :: "'h \<Rightarrow> server_host"
  pe_set_server :: "server_host \<Rightarrow> 'h \<Rightarrow> 'h"

definition bind_natives :: "('h, 'y) program_env_scheme \<Rightarrow> (string \<times> string) list \<Rightarrow> 'h \<Rightarrow> 'h" where
  "bind_natives E names h = fold (\<lambda>(n, f). pe_bind E n (Native f)) names h"

definition embedded :: "('h, 'y) program_env_scheme \<Rightarrow> string list \<Rightarrow> (string \<times> string) list" where
  "embedded E names = map (\<lambda>n. (n, pe_text E n)) names"

text \<open>The results of both evaluations are ignored.\<close>

definition install_callback_wrappers ::
  "('v, 'h, 'x) js_scheme \<Rightarrow> ('h, 'y) program_env_scheme \<Rightarrow> ('v, 'h) evaluator \<Rightarrow> 'h \<Rightarrow> 'h option" where
  "install_callback_wrappers J E eval h =
     Option.bind (eval_source J eval (pe_text E ''<fs-callback-wrappers>'') ''<fs-callback-wrappers>'' True False h)
       (\<lambda>(good, h1).
          map_option snd (eval_source J eval (pe_text E ''<fs-constants>'') ''<fs-constants>'' True False h1))"

definition fs_install :: "('h, 'y) program_env_scheme \<Rightarrow> 'h \<Rightarrow> 'h" where
  "fs_install E h = bind_natives E fs_natives h"

definition fs_install_extended ::
  "('v, 'h, 'x) js_scheme \<Rightarrow> ('h, 'y) program_env_scheme \<Rightarrow> ('v, 'h) evaluator \<Rightarrow> 'h \<Rightarrow> 'h option" where
  "fs_install_extended J E eval h = install_callback_wrappers J E eval (bind_natives E fs_extended_natives h)"

definition binary_store_install :: "('h, 'y) program_env_scheme \<Rightarrow> 'h \<Rightarrow> bool \<times> 'h" where
  "binary_store_install E h = (True, bind_natives E binary_store_natives h)"

definition core_scripts :: "string list" where
  "core_scripts =
     [''js/abort.js'', ''js/text-encoding-polyfill.js'', ''js/whatwg-url-polyfill.js'', ''js/body_polyfill.js'',
      ''js/buffer.js'', ''js/http.js'']"

definition runtime_bindings :: "('h, 'y) program_env_scheme \<Rightarrow> 'h \<Rightarrow> 'h" where
  "runtime_bindings E h =
     (let h1 = bind_natives E runtime_natives (pe_set_opaque E h);
          h2 = pe_bind E ''__hostID'' (Text (pe_host_id E h1)) h1
      in bind_natives E runtime_http_natives h2)"

text \<open>A failing \<open>__extractResponse\<close> is reported and the installation goes on.\<close>

definition install_runtime ::
  "('v, 'h, 'x) js_scheme \<Rightarrow> ('h, 'y) program_env_scheme \<Rightarrow> ('v, 'h) evaluator \<Rightarrow> 'h \<Rightarrow> (bool \<times> 'h) option" where
  "install_runtime J E eval h =
     (case eval (pe_text E ''<extract-response>'') ''<extract-response>'' False (runtime_bindings E h) of
        (v, h1) \<Rightarrow>
          (let h2 = (if js_is_exception J v then q_dump_exception J h1 else h1)
           in case binary_store_install E h2 of
                (good, h3) \<Rightarrow>
                  if \<not> good then Some (False, h3)
                  else Option.bind (fs_install_extended J E eval (fs_install E h3))
                         (install_bootstrap_js J eval (embedded E core_scripts))))"

definition crypto_install ::
  "('v, 'h, 'x) js_scheme \<Rightarrow> ('h, 'y) program_env_scheme \<Rightarrow> ('v, 'h) evaluator \<Rightarrow> 'h \<Rightarrow> (bool \<times> 'h) option" where
  "crypto_install J E eval h =
     install_bootstrap_js J eval (embedded E [''js/crypto.js''])
       (bind_natives E (map (\<lambda>(n, f). (''__nativeCrypto.'' @ n, f)) crypto_natives) h)"

definition fetch_install ::
  "('v, 'h, 'x) js_scheme \<Rightarrow> ('h, 'y) program_env_scheme \<Rightarrow> ('v, 'h) evaluator \<Rightarrow> 'h \<Rightarrow> (bool \<times> 'h) option" where
  "fetch_install J E eval h =
     install_bootstrap_js J eval (embedded E [''js/headers.js'', ''js/request.js'', ''js/response.js'', ''js/fetch.js''])
       (bind_natives E fetch_natives h)"

section \<open>main\<close>

definition shutdown_host :: "('h, 'y) program_env_scheme \<Rightarrow> 'h \<Rightarrow> 'h" where
  "shutdown_host E h = pe_set_server E (host_shutdown (pe_server E h)) h"

text \<open>A step that fails ends \<open>main\<close> with 1; the destructor of the host shuts it down.\<close>

definition or_exit ::
  "('h, 'y) program_env_scheme \<Rightarrow> (bool \<times> 'h) option \<Rightarrow> ('h \<Rightarrow> (nat \<times> 'h) option) \<Rightarrow> (nat \<times> 'h) option" where
  "or_exit E m k = Option.bind m (\<lambda>(good, h). if good then k h else Some (1, shutdown_host E h))"

definition run_script ::
  "('v, 'h, 'x) js_scheme \<Rightarrow> ('h, 'y) program_env_scheme \<Rightarrow> ('v, 'h) evaluator \<Rightarrow> string option \<Rightarrow> string \<Rightarrow> 'h
     \<Rightarrow> (nat \<times> 'h) option" where
  "run_script J E eval content script h =
     Option.bind (eval_module J eval content script h) (\<lambda>(good, h1).
       if \<not> good then Some (1, shutdown_host E (shutdown_host E h1))
       else map_option (\<lambda>h2. (0, shutdown_host E (shutdown_host E h2))) (run_loop J E h1))"

definition main_program ::
  "('v, 'h, 'x) js_scheme \<Rightarrow> ('h, 'y) program_env_scheme \<Rightarrow> ('v, 'h) evaluator \<Rightarrow> string option \<Rightarrow> string list \<Rightarrow> 'h
     \<Rightarrow> (nat \<times> 'h) option" where
  "main_program J E eval content args h =
     (let script = (case args of [] \<Rightarrow> ''demo.js'' | a # as \<Rightarrow> a)
      in if \<not> pe_valid E h then Some (1, shutdown_host E h)
         else or_exit E (install_runtime J E eval h) (\<lambda>h1.
              or_exit E (crypto_install J E eval h1) (\<lambda>h2.
              or_exit E (fetch_install J E eval h2) (run_script J E eval content script))))"

section \<open>Callback style\<close>

text \<open>The table \<open>__fsCallbacks\<close> and what \<open>promisify\<close> does (JavaScript text in \<open>src/fs.cpp\<close>).\<close>

definition callback_wrappers :: "(string \<times> string) list" where
  "callback_wrappers =
    [(''readFile'', ''__nativePromisesReadFile''), (''writeFile'', ''__nativePromisesWriteFile''),
     (''appendFile'', ''__nativePromisesAppendFile''), (''mkdir'', ''__nativePromisesMkdir''),
     (''rm'', ''__nativePromisesRm''), (''readdir'', ''__nativePromisesReaddir''),
     (''stat'', ''__nativePromisesStat''), (''lstat'', ''__nativePromisesLstat''),
     (''access'', ''__nativePromisesAccess''), (''rename'', ''__nativePromisesRename''),
     (''unlink'', ''__nativePromisesUnlink''), (''copyFile'', ''__nativePromisesCopyFile''),
     (''chmod'', ''__nativePromisesChmod''), (''chown'', ''__nativePromisesChown''),
     (''symlink'', ''__nativePromisesSymlink''), (''readlink'', ''__nativePromisesReadlink''),
     (''realpath'', ''__nativePromisesRealpath''), (''utimes'', ''__nativePromisesUtimes''),
     (''mkdtemp'', ''__nativePromisesMkdtemp'')]"

datatype 'e callback_call = Cb_data js_value | Cb_native_error string | Cb_thrown 'e

text \<open>What a callback throws, if it does, may depend on the calls it had before.\<close>

type_synonym 'e callback = "'e callback_call list \<Rightarrow> 'e callback_call \<Rightarrow> 'e option"

datatype ('a, 'e) js_arg = Plain 'a | Callback "'e callback"

datatype 'e callback_result = Gives_promise promise_result | Calls "'e callback_call list" | Then_of_undefined

text \<open>
  \<open>p.then(function(data) { callback(null, data); }).catch(function(err) { callback(err); })\<close>: the
  \<open>catch\<close> is reached by a rejection of \<open>p\<close> and by an exception of the first callback.
\<close>

definition then_catch :: "'e callback \<Rightarrow> promise_result \<Rightarrow> 'e callback_result" where
  "then_catch cb p =
     (case p of
        No_promise \<Rightarrow> Then_of_undefined
      | Promise [] \<Rightarrow> Calls []
      | Promise (Inr v # _) \<Rightarrow>
          Calls (case cb [] (Cb_data v) of None \<Rightarrow> [Cb_data v] | Some e \<Rightarrow> [Cb_data v, Cb_thrown e])
      | Promise (Inl e # _) \<Rightarrow> Calls [Cb_native_error e])"

definition promisify ::
  "'a \<Rightarrow> (('a, 'e) js_arg list \<Rightarrow> ('s, promise_result) fs_native) \<Rightarrow> ('a, 'e) js_arg list
     \<Rightarrow> ('s, 'e callback_result) fs_native" where
  "promisify undef fn args =
     (let callback = (if args = [] then Plain undef else last args);
          rest = butlast args
      in case callback of
           Plain _ \<Rightarrow> fs_then (fn (rest @ [callback])) (\<lambda>p. fs_return (Gives_promise p))
         | Callback cb \<Rightarrow> fs_then (fn rest) (\<lambda>p. fs_return (then_catch cb p)))"

lemma promisify_callback:
  "promisify undef fn (rest @ [Callback cb]) = fs_then (fn rest) (\<lambda>p. fs_return (then_catch cb p))"
  by (simp add: promisify_def)

text \<open>
  The callback of a call in callback style is called once, as the synchronous native ends: with
  \<open>null\<close> and the result, or with an error.  But when it throws on its result it is called a second
  time, with its own exception as the error of the operation.
\<close>

theorem callback_called_once:
  assumes "fn rest = promise_call S True c"
  shows "\<exists>w1. (\<exists>v. sync_call S c w = (Returns v, w1) \<and>
        promisify undef fn (rest @ [Callback cb]) w =
          (Returns (Calls (Cb_data v # (case cb [] (Cb_data v) of None \<Rightarrow> [] | Some e \<Rightarrow> [Cb_thrown e]))), w1))
      \<or> sync_call S c w = (Throws ''reference error'', w1) \<and>
        promisify undef fn (rest @ [Callback cb]) w = (Returns (Calls [Cb_native_error ''reference error'']), w1)
      \<or> sync_call S c w = (Terminates, w1) \<and> promisify undef fn (rest @ [Callback cb]) w = (Terminates, w1)"
proof -
  have e: "cstr ''reference error'' = ''reference error''" by code_simp
  obtain w1 where "(\<exists>v. sync_call S c w = (Returns v, w1) \<and> fh_exception w1 = fh_exception w)
      \<or> sync_call S c w = (Throws ''reference error'', w1) \<and> fh_exception w1
      \<or> sync_call S c w = (Terminates, w1)"
    using sync_call_ends [of S c] unfolding fs_ends_def by metis
  then show ?thesis
  proof (elim disjE exE conjE)
    fix v assume "sync_call S c w = (Returns v, w1)"
    then show ?thesis
      by (intro exI [of _ w1] disjI1 exI [of _ v])
        (simp add: promisify_callback assms promise_call_native promise_native_def fs_then_def fs_return_def
          then_catch_def split: option.split)
  qed (auto simp: promisify_callback assms promise_call_native promise_native_def fs_then_def fs_return_def
      then_catch_def e)
qed

section \<open>The natives are bound and main ends\<close>

definition known :: "('h \<Rightarrow> string \<rightharpoonup> global_value) \<Rightarrow> (string \<times> string) list \<Rightarrow> 'h \<Rightarrow> bool" where
  "known bound names h \<longleftrightarrow> (\<forall>(n, f) \<in> set names. bound h n = Some (Native f))"

lemma known_append: "known bound (a @ b) h \<longleftrightarrow> known bound a h \<and> known bound b h"
  by (auto simp: known_def)

definition program_scripts :: "string list" where
  "program_scripts =
     [''<extract-response>'', ''<fs-callback-wrappers>'', ''<fs-constants>''] @ core_scripts @
     [''js/crypto.js'', ''js/headers.js'', ''js/request.js'', ''js/response.js'', ''js/fetch.js'']"

text \<open>\<open>Q\<close> survives the microtasks, which end, and the evaluation of the scripts of the installation.\<close>

definition program_natives :: "(string \<times> string) list" where
  "program_natives =
     runtime_natives @ runtime_http_natives @ binary_store_natives @ fs_natives @ fs_extended_natives @
     map (\<lambda>(n, f). (''__nativeCrypto.'' @ n, f)) crypto_natives @ fetch_natives"

definition js_keeps ::
  "('v, 'h, 'x) js_scheme \<Rightarrow> ('h, 'y) program_env_scheme \<Rightarrow> ('v, 'h) evaluator \<Rightarrow> ('h \<Rightarrow> bool) \<Rightarrow> bool" where
  "js_keeps J E eval Q \<longleftrightarrow>
     (\<forall>h. Q h \<longrightarrow> (\<exists>good h1. drain_jobs J h = Some (good, h1) \<and> Q h1) \<and> Q (q_dump_exception J h) \<and>
        (\<forall>n \<in> set program_scripts. Q (snd (eval (pe_text E n) n False h))))"

definition ends_in :: "('h \<Rightarrow> bool) \<Rightarrow> (bool \<times> 'h) option \<Rightarrow> bool" where
  "ends_in Q m \<longleftrightarrow> (\<exists>good h1. m = Some (good, h1) \<and> Q h1)"

lemma drain_after_keeps:
  assumes "js_keeps J E eval Q" "Q h"
  shows "ends_in Q (drain_after J h)"
  using assms unfolding js_keeps_def ends_in_def drain_after_def by fastforce

lemma eval_source_keeps:
  assumes k: "js_keeps J E eval Q" and h: "Q h" and n: "n \<in> set program_scripts"
  shows "ends_in Q (eval_source J eval (pe_text E n) n True False h)"
proof -
  obtain v h1 where e: "eval (pe_text E n) n False h = (v, h1)" by fastforce
  then have "Q h1" using k h n unfolding js_keeps_def by fastforce
  then show ?thesis
    using k drain_after_keeps [OF k] e by (auto simp: eval_source_def ends_in_def js_keeps_def)
qed

lemma bootstrap_keeps:
  assumes k: "js_keeps J E eval Q" and h: "Q h" and n: "set names \<subseteq> set program_scripts"
  shows "ends_in Q (install_bootstrap_js J eval (embedded E names) h)"
proof -
  have "Q (snd (eval_scripts J eval (embedded E names) h))"
    using h n
  proof (induction names arbitrary: h)
    case (Cons a names)
    obtain v h1 where e: "eval (pe_text E a) a False h = (v, h1)" by fastforce
    then have "Q h1" using k Cons.prems unfolding js_keeps_def by fastforce
    then show ?case using Cons e k by (auto simp: embedded_def js_keeps_def)
  qed (simp add: embedded_def)
  then show ?thesis
    using drain_after_keeps [OF k] by (auto simp: install_bootstrap_js_def ends_in_def split: prod.split)
qed

lemma callback_wrappers_keep:
  assumes k: "js_keeps J E eval Q" and h: "Q h"
  shows "\<exists>t. install_callback_wrappers J E eval h = Some t \<and> Q t"
proof -
  obtain g h1 where 1: "eval_source J eval (pe_text E ''<fs-callback-wrappers>'') ''<fs-callback-wrappers>'' True False h = Some (g, h1)" "Q h1"
    using eval_source_keeps [OF k h, of "''<fs-callback-wrappers>''"] unfolding ends_in_def program_scripts_def by auto
  obtain g' h2 where "eval_source J eval (pe_text E ''<fs-constants>'') ''<fs-constants>'' True False h1 = Some (g', h2)" "Q h2"
    using eval_source_keeps [OF k 1(2), of "''<fs-constants>''"] unfolding ends_in_def program_scripts_def by auto
  then show ?thesis using 1 by (simp add: install_callback_wrappers_def)
qed

text \<open>
  What the engine and the embedded scripts do for the installation.  \<open>P\<close> is a host that is being installed: it survives the
  binding of a global, the evaluation of the repository's own scripts and the microtasks they leave, which end; and
  those scripts do not rebind a native.  Nothing is said of the script that \<open>main\<close> is given.
  The host's own part is the server behind \<open>http_active\<close>.
\<close>

definition program_laws ::
  "('v, 'h, 'x) js_scheme \<Rightarrow> ('h, 'y) program_env_scheme \<Rightarrow> ('v, 'h) evaluator
     \<Rightarrow> ('h \<Rightarrow> string \<rightharpoonup> global_value) \<Rightarrow> ('h \<Rightarrow> bool) \<Rightarrow> bool" where
  "program_laws J E eval bound P \<longleftrightarrow>
     (\<forall>names. set names \<subseteq> set program_natives \<longrightarrow> js_keeps J E eval (\<lambda>h. P h \<and> known bound names h)) \<and>
     (\<forall>n g h. P h \<longrightarrow> P (pe_bind E n g h) \<and> bound (pe_bind E n g h) = (bound h)(n \<mapsto> g)) \<and>
     (\<forall>h. P h \<longrightarrow> P (pe_set_opaque E h)) \<and>
     (\<forall>s h. pe_server E (pe_set_server E s h) = s)"

lemma callbacks_bound: "set (map snd callback_wrappers) \<subseteq> set (map fst fs_extended_natives)"
  by code_simp

lemma program_natives_distinct: "distinct (map fst program_natives)" "''__hostID'' \<notin> set (map fst program_natives)"
  by (simp_all add: program_natives_def runtime_natives_def runtime_http_natives_def binary_store_natives_def
      fs_natives_def fs_extended_natives_def crypto_natives_def fetch_natives_def)

text \<open>\<open>natives_first k h\<close>: the first \<open>k\<close> natives of the installation are bound.\<close>

definition natives_first :: "('h \<Rightarrow> string \<rightharpoonup> global_value) \<Rightarrow> ('h \<Rightarrow> bool) \<Rightarrow> (string \<times> string) list \<Rightarrow> 'h \<Rightarrow> bool" where
  "natives_first bound P names h \<longleftrightarrow> P h \<and> known bound names h"

lemma bind_natives_known:
  assumes laws: "program_laws J E eval bound P"
  shows "natives_first bound P old h \<Longrightarrow> distinct (map fst (old @ names)) \<Longrightarrow>
    natives_first bound P (old @ names) (bind_natives E names h)"
proof (induction names arbitrary: old h)
  case Nil
  then show ?case by (simp add: bind_natives_def)
next
  case (Cons x names)
  obtain n f where x: "x = (n, f)" by fastforce
  have b: "P (pe_bind E n g h) \<and> bound (pe_bind E n g h) = (bound h)(n \<mapsto> g)" for g
    using laws Cons.prems(1) unfolding program_laws_def natives_first_def by blast
  have "natives_first bound P (old @ [x]) (pe_bind E n (Native f) h)"
    using Cons.prems b [of "Native f"] unfolding natives_first_def known_def x by force
  then have "natives_first bound P ((old @ [x]) @ names) (bind_natives E names (pe_bind E n (Native f) h))"
    by (rule Cons.IH) (use Cons.prems(2) in simp)
  then show ?case by (simp add: bind_natives_def x)
qed

lemma bind_text_known:
  assumes "program_laws J E eval bound P" "natives_first bound P names h" "n \<notin> set (map fst names)"
  shows "natives_first bound P names (pe_bind E n g h)"
proof -
  have "P (pe_bind E n g h) \<and> bound (pe_bind E n g h) = (bound h)(n \<mapsto> g)"
    using assms(1,2) unfolding program_laws_def natives_first_def by blast
  then show ?thesis using assms(2,3) by (force simp: natives_first_def known_def)
qed

lemma laws_keep:
  "program_laws J E eval bound P \<Longrightarrow> set names \<subseteq> set program_natives \<Longrightarrow>
   js_keeps J E eval (natives_first bound P names)"
  unfolding program_laws_def natives_first_def [abs_def] by blast

lemma runtime_bindings_known:
  assumes laws: "program_laws J E eval bound P" and h: "P h"
  shows "natives_first bound P (runtime_natives @ runtime_http_natives) (runtime_bindings E h)"
proof -
  have d: "distinct (map fst (runtime_natives @ runtime_http_natives))" "''__hostID'' \<notin> set (map fst runtime_natives)"
    using program_natives_distinct by (auto simp: program_natives_def)
  have "natives_first bound P [] (pe_set_opaque E h)"
    using laws h by (simp add: program_laws_def natives_first_def known_def)
  then have "natives_first bound P ([] @ runtime_natives) (bind_natives E runtime_natives (pe_set_opaque E h))"
    using d(1) by (intro bind_natives_known [OF laws]) simp_all
  then show ?thesis unfolding runtime_bindings_def Let_def
    using d by (intro bind_natives_known [OF laws] bind_text_known [OF laws]) simp_all
qed

lemma distinct_first: "distinct (map fst (a @ b)) \<Longrightarrow> distinct (map fst a)"
  by simp

abbreviation (input) runtime_names :: "(string \<times> string) list" where
  "runtime_names \<equiv>
     runtime_natives @ runtime_http_natives @ binary_store_natives @ fs_natives @ fs_extended_natives"

lemma install_runtime_known:
  assumes laws: "program_laws J E eval bound P" and h: "P h"
  shows "ends_in (natives_first bound P runtime_names) (install_runtime J E eval h)"
proof -
  let ?Q = "natives_first bound P"
  let ?h0 = "runtime_bindings E h" and ?n = "''<extract-response>''"
  have d: "distinct (map fst runtime_names)"
    by (rule distinct_first [where b = "map (\<lambda>(n, f). (''__nativeCrypto.'' @ n, f)) crypto_natives @ fetch_natives"])
      (use program_natives_distinct(1) in \<open>simp only: program_natives_def append_assoc\<close>)
  obtain v h1 where e: "eval (pe_text E ?n) ?n False ?h0 = (v, h1)" by fastforce
  define h2 where "h2 = (if js_is_exception J v then q_dump_exception J h1 else h1)"
  have k: "js_keeps J E eval (?Q names)" if "set names \<subseteq> set runtime_names" for names
    using that by (intro laws_keep [OF laws]) (auto simp: program_natives_def)
  have k1: "js_keeps J E eval (?Q (runtime_natives @ runtime_http_natives))" by (rule k) auto
  have k2: "js_keeps J E eval (?Q runtime_names)" by (rule k) simp
  have "?Q (runtime_natives @ runtime_http_natives) (snd (eval (pe_text E ?n) ?n False ?h0))"
    using k1 runtime_bindings_known [OF laws h] unfolding js_keeps_def program_scripts_def by simp
  then have "?Q (runtime_natives @ runtime_http_natives) h2"
    using k1 unfolding e h2_def js_keeps_def by simp
  note s2 = this
  have d1: "distinct (map fst ((runtime_natives @ runtime_http_natives) @ binary_store_natives))"
    by (rule distinct_first [where b = "fs_natives @ fs_extended_natives"]) (use d in \<open>simp only: append_assoc\<close>)
  have d2: "distinct (map fst ((runtime_natives @ runtime_http_natives @ binary_store_natives) @ fs_natives))"
    by (rule distinct_first [where b = fs_extended_natives]) (use d in \<open>simp only: append_assoc\<close>)
  have d3: "distinct (map fst ((runtime_natives @ runtime_http_natives @ binary_store_natives @ fs_natives) @ fs_extended_natives))"
    using d by (simp only: append_assoc)
  note s3 = bind_natives_known [OF laws s2 d1, unfolded append_assoc]
  note s4 = bind_natives_known [OF laws s3 d2, unfolded append_assoc]
  note s5 = bind_natives_known [OF laws s4 d3, unfolded append_assoc]
  obtain h3 where 3: "fs_install_extended J E eval (fs_install E (bind_natives E binary_store_natives h2)) = Some h3"
      "?Q runtime_names h3"
    using callback_wrappers_keep [OF k2 s5] unfolding fs_install_extended_def fs_install_def by blast
  have "ends_in (?Q runtime_names) (install_bootstrap_js J eval (embedded E core_scripts) h3)"
    using 3(2) by (intro bootstrap_keeps [OF k2]) (auto simp: program_scripts_def)
  then show ?thesis
    by (simp add: install_runtime_def e h2_def [symmetric] Let_def binary_store_install_def 3(1))
qed

lemma feature_install_known:
  assumes laws: "program_laws J E eval bound P" and h: "natives_first bound P old h"
    and d: "distinct (map fst (old @ names))" and n: "set (old @ names) \<subseteq> set program_natives"
    and s: "set scripts \<subseteq> set program_scripts"
  shows "ends_in (natives_first bound P (old @ names)) (install_bootstrap_js J eval (embedded E scripts) (bind_natives E names h))"
  by (rule bootstrap_keeps [OF laws_keep [OF laws n] bind_natives_known [OF laws h d] s])

lemma host_shutdown_stopped:
  "sv_current (host_shutdown s) = None \<and> \<not> sv_active (host_shutdown s) \<and> sv_stopping (host_shutdown s)"
  by (simp add: host_shutdown_def server_reset_def server_stop_def Let_def split: option.split)

lemma or_exit_cases:
  assumes "ends_in Q m"
  obtains x where "\<And>k. or_exit E m k = Some (1, shutdown_host E x)" | x where "Q x" "\<And>k. or_exit E m k = k x"
proof -
  obtain good x where m: "m = Some (good, x)" "Q x" using assms by (auto simp: ends_in_def)
  then show thesis using that by (cases good) (auto simp: or_exit_def)
qed

text \<open>The script given on the command line.\<close>

definition script_name :: "string list \<Rightarrow> string" where
  "script_name args = (case args of [] \<Rightarrow> ''demo.js'' | a # as \<Rightarrow> a)"

lemma main_reaches_script:
  assumes laws: "program_laws J E eval bound P" and h: "P h"
  obtains x where "\<And>content. main_program J E eval content args h = Some (1, shutdown_host E x)"
    | h3 where "P h3" "known bound program_natives h3"
      "\<And>content. main_program J E eval content args h = run_script J E eval content (script_name args) h3"
proof (cases "pe_valid E h")
  case False
  then show thesis using that(1) by (simp add: main_program_def)
next
  case True
  let ?Q = "natives_first bound P"
  let ?crypto = "map (\<lambda>(n, f). (''__nativeCrypto.'' @ n, f)) crypto_natives"
  let ?run = "\<lambda>content. run_script J E eval content (script_name args)"
  let ?fetch = "\<lambda>content h2. or_exit E (fetch_install J E eval h2) (?run content)"
  let ?cry = "\<lambda>content h1. or_exit E (crypto_install J E eval h1) (?fetch content)"
  have d2: "distinct (map fst (runtime_names @ ?crypto))"
    by (rule distinct_first [where b = fetch_natives])
      (use program_natives_distinct(1) in \<open>simp only: program_natives_def append_assoc\<close>)
  have d3: "distinct (map fst ((runtime_names @ ?crypto) @ fetch_natives))"
    using program_natives_distinct(1) by (simp only: program_natives_def append_assoc)
  have n: "(runtime_names @ ?crypto) @ fetch_natives = program_natives"
    by (simp only: program_natives_def append_assoc)
  have c: "ends_in (?Q (runtime_names @ ?crypto)) (crypto_install J E eval x)" if "?Q runtime_names x" for x
    unfolding crypto_install_def by (rule feature_install_known [OF laws that d2])
      (auto simp: program_scripts_def program_natives_def)
  have f: "ends_in (?Q program_natives) (fetch_install J E eval x)" if "?Q (runtime_names @ ?crypto) x" for x
    unfolding fetch_install_def using feature_install_known [OF laws that d3] unfolding n by (simp add: program_scripts_def)
  have main: "main_program J E eval content args h = or_exit E (install_runtime J E eval h) (?cry content)" for content
    using True by (simp add: main_program_def script_name_def Let_def)
  show thesis
  proof (rule or_exit_cases [OF install_runtime_known [OF laws h], of E])
    fix h1 assume 1: "?Q runtime_names h1" and m1: "\<And>k. or_exit E (install_runtime J E eval h) k = k h1"
    show thesis
    proof (rule or_exit_cases [OF c [OF 1], of E])
      fix h2 assume 2: "?Q (runtime_names @ ?crypto) h2" and m2: "\<And>k. or_exit E (crypto_install J E eval h1) k = k h2"
      show thesis
      proof (rule or_exit_cases [OF f [OF 2], of E])
        fix h3 assume "?Q program_natives h3" and "\<And>k. or_exit E (fetch_install J E eval h2) k = k h3"
        then show thesis using main m1 m2 by (intro that(2) [of h3]) (simp_all add: natives_first_def)
      qed (use that(1) main m1 m2 in simp)
    qed (use that(1) main m1 in simp)
  qed (use that(1) main in simp)
qed


text \<open>A host of its server, its globals and a number of timers; a script that says \<open>wait\<close> starts three.\<close>

record demo_host =
  dh_server :: server_host
  dh_globals :: "(string \<times> global_value) list"
  dh_timers :: nat

definition demo_env :: "demo_host program_env" where
  "demo_env =
     \<lparr>lp_pending = (\<lambda>h. int (dh_timers h)), lp_http = (\<lambda>h. False), lp_stopped = (\<lambda>h. False), lp_restart = (\<lambda>h. h),
      lp_run_one = (\<lambda>h. h\<lparr>dh_timers := dh_timers h - 1\<rparr>), pe_valid = (\<lambda>h. True), pe_set_opaque = (\<lambda>h. h),
      pe_bind = (\<lambda>n g h. h\<lparr>dh_globals := (n, g) # dh_globals h\<rparr>), pe_host_id = (\<lambda>h. ''h1''), pe_text = (\<lambda>n. n),
      pe_server = dh_server, pe_set_server = (\<lambda>s h. h\<lparr>dh_server := s\<rparr>)\<rparr>"

definition demo_eval :: "(unit, demo_host) evaluator" where
  "demo_eval code f modul h = ((), if code = ''wait'' then h\<lparr>dh_timers := dh_timers h + 3\<rparr> else h)"

definition demo_start :: demo_host where
  "demo_start = \<lparr>dh_server = servers_init, dh_globals = [], dh_timers = 0\<rparr>"

lemma demo_laws: "program_laws (quiet_js ()) demo_env demo_eval (\<lambda>h. map_of (dh_globals h)) (\<lambda>h. True)"
  unfolding program_laws_def js_keeps_def quiet_js_drains
  by (auto simp: demo_env_def demo_eval_def known_def q_dump_exception_def quiet_js_def q_to_std_string_def)


end
