(* ===== verification/FsAsync.thy ===== *)
theory FsAsync
  imports FsFiles "HOL-Library.Multiset"
begin

text \<open>
  The callback natives of \<open>src/fs.cpp\<close>: \<open>readFile\<close>, \<open>writeFile\<close> and \<open>opendir\<close>.  A call posts a task to
  the file thread pool; the task does the work and posts the callback to the event loop.  The four
  threads of the pool may finish their tasks in any order, the loop runs posted handlers in order.
  \<open>pending_ops\<close> is what keeps the event loop of the host alive.  It is a plain \<open>int\<close>, and a write without a
  callback lowers it on a thread of the pool: every \<open>++\<close> and \<open>--\<close> is a load and a store, with steps of other
  threads in between.
\<close>

section \<open>State and steps\<close>

datatype file_op = Fo_read string string | Fo_write string bytes bool | Fo_opendir string

datatype file_callback =
    Cb_read_error string
  | Cb_read js_value
  | Cb_write_error string
  | Cb_write
  | Cb_dir js_value
  | Cb_dir_error string

text \<open>
  \<open>fa_ops\<close> are the calls made, in order; an entry \<open>(i, ...)\<close> elsewhere belongs to the \<open>i\<close>-th.
  \<open>fa_host\<close> is the value of \<open>pending_ops\<close> that the host thread has loaded for a \<open>++\<close> or \<open>--\<close> and not stored
  back yet, \<open>fa_regs\<close> those of the pool threads at the end of a write without a callback.  \<open>fa_handler\<close> is
  the handler whose callback is running and that has still to lower \<open>pending_ops\<close>.
  \<open>fa_calls\<close> are the callbacks invoked, \<open>fa_quiet\<close> the writes that ended without one, \<open>fa_others\<close> what the rest
  of the host has in \<open>pending_ops\<close>, \<open>fa_dead\<close> a process that an exception on the pool has ended.
  \<open>fa_stale\<close> records that a store was based on a value that was not the current one any more.
\<close>

record 's fs_async =
  fa_disk :: 's
  fa_pending :: int
  fa_others :: int
  fa_ops :: "file_op list"
  fa_pool :: "(nat \<times> file_op) list"
  fa_regs :: "(nat \<times> int) list"
  fa_posted :: "(nat \<times> file_callback) list"
  fa_calls :: "(nat \<times> file_callback) list"
  fa_host :: "int option"
  fa_handler :: "nat option"
  fa_quiet :: "nat list"
  fa_stale :: bool
  fa_dead :: bool

definition fs_start :: "'s \<Rightarrow> 's fs_async" where
  "fs_start d =
     \<lparr>fa_disk = d, fa_pending = 0, fa_others = 0, fa_ops = [], fa_pool = [], fa_regs = [], fa_posted = [],
      fa_calls = [], fa_host = None, fa_handler = None, fa_quiet = [], fa_stale = False, fa_dead = False\<rparr>"

text \<open>The second half of a \<open>++\<close> or \<open>--\<close> that has loaded \<open>v\<close>.\<close>

definition store_pending :: "int \<Rightarrow> int \<Rightarrow> 's fs_async \<Rightarrow> 's fs_async" where
  "store_pending v delta s =
     s\<lparr>fa_pending := v + delta, fa_stale := fa_stale s \<or> fa_pending s \<noteq> v\<rparr>"

text \<open>
  \<open>native_read_file\<close>, \<open>native_write_file\<close> and \<open>native_opendir\<close> up to their return, the first two from
  the store of their \<open>++\<close> of \<open>v\<close> on.
\<close>

definition post_op :: "file_op \<Rightarrow> 's fs_async \<Rightarrow> 's fs_async" where
  "post_op op s =
     s\<lparr>fa_ops := fa_ops s @ [op], fa_pool := fa_pool s @ [(length (fa_ops s), op)]\<rparr>"

definition native_read_file :: "string \<Rightarrow> string option \<Rightarrow> int \<Rightarrow> 's fs_async \<Rightarrow> 's fs_async" where
  "native_read_file path encoding v s =
     post_op (Fo_read path (case encoding of None \<Rightarrow> [] | Some e \<Rightarrow> e)) (store_pending v 1 s)"

definition native_write_file :: "string \<Rightarrow> bytes \<Rightarrow> bool \<Rightarrow> int \<Rightarrow> 's fs_async \<Rightarrow> 's fs_async" where
  "native_write_file path data callback v s =
     post_op (Fo_write path data callback) (store_pending v 1 s)"

definition native_opendir :: "string \<Rightarrow> 's fs_async \<Rightarrow> 's fs_async" where
  "native_opendir path s = post_op (Fo_opendir path) s"

text \<open>
  The task on the pool, and the handler it posts.  A write without a callback ends with the load of its \<open>--\<close>;
  \<open>pool_store\<close> is the rest of it.
\<close>

definition read_callback :: "string \<Rightarrow> string \<Rightarrow> bytes \<Rightarrow> file_callback" where
  "read_callback path enc data =
     (if data = [] then Cb_read_error (cstr path)
      else Cb_read (if is_utf8 enc then j_cstr (string_of_bytes data) else J_buffer data))"

definition post_callback :: "nat \<Rightarrow> file_callback \<Rightarrow> 's fs_async \<Rightarrow> 's fs_async" where
  "post_callback i c s = s\<lparr>fa_posted := fa_posted s @ [(i, c)]\<rparr>"

definition opendir_task :: "('s, 'x) os_scheme \<Rightarrow> nat \<Rightarrow> string \<Rightarrow> 's fs_async \<Rightarrow> 's fs_async" where
  "opendir_task S i path s =
     post_callback i
       (case os_directory S path (fa_disk s) of
          None \<Rightarrow> Cb_dir_error ''Failed to open directory''
        | Some es \<Rightarrow> Cb_dir (dir_object ''closeSync'')) s"

definition pool_task :: "('s, 'x) os_scheme \<Rightarrow> nat \<Rightarrow> file_op \<Rightarrow> 's fs_async \<Rightarrow> 's fs_async" where
  "pool_task S i op s =
     (case op of
        Fo_read path enc \<Rightarrow>
          (case read_file_sync S path (fa_disk s) of
             None \<Rightarrow> s\<lparr>fa_dead := True\<rparr>
           | Some data \<Rightarrow> post_callback i (read_callback path enc data) s)
      | Fo_write path data callback \<Rightarrow>
          (case write_file_sync S path data (fa_disk s) of
             (None, d) \<Rightarrow> s\<lparr>fa_disk := d, fa_dead := True\<rparr>
           | (Some good, d) \<Rightarrow>
               if callback
               then post_callback i (if good then Cb_write else Cb_write_error (cstr path)) (s\<lparr>fa_disk := d\<rparr>)
               else s\<lparr>fa_disk := d, fa_regs := fa_regs s @ [(i, fa_pending s)]\<rparr>)
      | Fo_opendir path \<Rightarrow> opendir_task S i path s)"

definition pool_store :: "nat \<Rightarrow> int \<Rightarrow> 's fs_async \<Rightarrow> 's fs_async" where
  "pool_store i v s = store_pending v (- 1) (s\<lparr>fa_quiet := fa_quiet s @ [i]\<rparr>)"

text \<open>
  The handler on the event loop: it invokes the callback, which may call any native, and then lowers
  \<open>pending_ops\<close>; only that of \<open>opendir\<close> does not count.
\<close>

definition is_counted :: "file_op \<Rightarrow> bool" where
  "is_counted op = (case op of Fo_opendir path \<Rightarrow> False | _ \<Rightarrow> True)"

definition callback_counted :: "file_callback \<Rightarrow> bool" where
  "callback_counted c = (case c of Cb_dir v \<Rightarrow> False | Cb_dir_error m \<Rightarrow> False | _ \<Rightarrow> True)"

definition run_file_callback :: "nat \<Rightarrow> file_callback \<Rightarrow> 's fs_async \<Rightarrow> 's fs_async" where
  "run_file_callback i c s =
     s\<lparr>fa_calls := fa_calls s @ [(i, c)], fa_handler := (if callback_counted c then Some i else None)\<rparr>"

definition end_file_callback :: "int \<Rightarrow> 's fs_async \<Rightarrow> 's fs_async" where
  "end_file_callback v s = store_pending v (- 1) (s\<lparr>fa_handler := None\<rparr>)"

text \<open>
  The steps: \<open>Fe_load\<close> is the host thread's load of \<open>pending_ops\<close>, its next step is the one that stores; \<open>Fe_other\<close> stores
  for a timer, a fetch or a job that starts or ends.
\<close>

datatype fs_event =
    Fe_load
  | Fe_read string "string option"
  | Fe_write string bytes bool
  | Fe_other int
  | Fe_opendir string
  | Fe_pool nat
  | Fe_store nat
  | Fe_loop
  | Fe_done

definition drop_nth :: "nat \<Rightarrow> 'a list \<Rightarrow> 'a list" where
  "drop_nth k xs = take k xs @ drop (Suc k) xs"

definition storing :: "(int \<Rightarrow> 's fs_async \<Rightarrow> 's fs_async) \<Rightarrow> 's fs_async \<Rightarrow> 's fs_async option" where
  "storing f s = (case fa_host s of None \<Rightarrow> None | Some v \<Rightarrow> Some (f v (s\<lparr>fa_host := None\<rparr>)))"

fun live_step :: "('s, 'x) os_scheme \<Rightarrow> fs_event \<Rightarrow> 's fs_async \<Rightarrow> 's fs_async option" where
  "live_step S Fe_load s = (if fa_host s = None then Some (s\<lparr>fa_host := Some (fa_pending s)\<rparr>) else None)"
| "live_step S (Fe_read path encoding) s = storing (native_read_file path encoding) s"
| "live_step S (Fe_write path data callback) s = storing (native_write_file path data callback) s"
| "live_step S (Fe_other delta) s =
     (if 0 \<le> fa_others s + delta
      then storing (\<lambda>v t. store_pending v delta (t\<lparr>fa_others := fa_others t + delta\<rparr>)) s
      else None)"
| "live_step S (Fe_opendir path) s = (if fa_host s = None then Some (native_opendir path s) else None)"
| "live_step S (Fe_pool k) s =
     (if k < length (fa_pool s)
      then case fa_pool s ! k of
             (i, op) \<Rightarrow> Some (pool_task S i op (s\<lparr>fa_pool := drop_nth k (fa_pool s)\<rparr>))
      else None)"
| "live_step S (Fe_store k) s =
     (if k < length (fa_regs s)
      then case fa_regs s ! k of (i, v) \<Rightarrow> Some (pool_store i v (s\<lparr>fa_regs := drop_nth k (fa_regs s)\<rparr>))
      else None)"
| "live_step S Fe_loop s =
     (if fa_host s = None \<and> fa_handler s = None
      then case fa_posted s of
             [] \<Rightarrow> None
           | (i, c) # rest \<Rightarrow> Some (run_file_callback i c (s\<lparr>fa_posted := rest\<rparr>))
      else None)"
| "live_step S Fe_done s = (if fa_handler s = None then None else storing end_file_callback s)"

definition fs_step :: "('s, 'x) os_scheme \<Rightarrow> fs_event \<Rightarrow> 's fs_async \<Rightarrow> 's fs_async option" where
  "fs_step S e s = (if fa_dead s then None else live_step S e s)"

section \<open>Each callback is invoked once\<close>

fun callback_fits :: "file_op \<Rightarrow> file_callback \<Rightarrow> bool" where
  "callback_fits (Fo_read path enc) c \<longleftrightarrow>
     c = Cb_read_error (cstr path) \<or> (\<exists>data. data \<noteq> [] \<and> c = read_callback path enc data)"
| "callback_fits (Fo_write path data callback) c \<longleftrightarrow> callback \<and> (c = Cb_write \<or> c = Cb_write_error (cstr path))"
| "callback_fits (Fo_opendir path) c \<longleftrightarrow> c = Cb_dir (dir_object ''closeSync'') \<or> c = Cb_dir_error ''Failed to open directory''"

definition op_ids :: "'s fs_async \<Rightarrow> nat multiset" where
  "op_ids s =
     mset (map fst (fa_pool s)) + mset (map fst (fa_regs s)) + mset (map fst (fa_posted s)) +
     mset (map fst (fa_calls s)) + mset (fa_quiet s)"

definition outstanding :: "'s fs_async \<Rightarrow> nat" where
  "outstanding s =
     length (filter (\<lambda>x. is_counted (snd x)) (fa_pool s)) + length (fa_regs s) +
     length (filter (\<lambda>x. callback_counted (snd x)) (fa_posted s)) + (if fa_handler s = None then 0 else 1)"

fun silent_write :: "file_op \<Rightarrow> bool" where
  "silent_write (Fo_write path data callback) \<longleftrightarrow> \<not> callback"
| "silent_write op \<longleftrightarrow> False"

definition ops_ok :: "'s fs_async \<Rightarrow> bool" where
  "ops_ok s \<longleftrightarrow>
     (\<forall>x \<in> set (fa_pool s). fst x < length (fa_ops s) \<and> fa_ops s ! fst x = snd x) \<and>
     (\<forall>x \<in> set (fa_posted s @ fa_calls s). fst x < length (fa_ops s) \<and> callback_fits (fa_ops s ! fst x) (snd x)) \<and>
     (\<forall>i \<in> set (map fst (fa_regs s) @ fa_quiet s). i < length (fa_ops s) \<and> silent_write (fa_ops s ! i))"

text \<open>What the host thread has loaded is current, unless a pool thread can store in between.\<close>

definition counter_ok :: "'s fs_async \<Rightarrow> bool" where
  "counter_ok s \<longleftrightarrow>
     (fa_stale s \<or> fa_pending s = fa_others s + int (outstanding s)) \<and> 0 \<le> fa_others s \<and>
     (list_ex silent_write (fa_ops s) \<or> \<not> fa_stale s \<and> (\<forall>v. fa_host s = Some v \<longrightarrow> v = fa_pending s))"

definition fs_inv :: "'s fs_async \<Rightarrow> bool" where
  "fs_inv s \<longleftrightarrow>
     ops_ok s \<and> op_ids s \<subseteq># mset [0..<length (fa_ops s)] \<and>
     (fa_dead s \<or> op_ids s = mset [0..<length (fa_ops s)]) \<and> (fa_dead s \<or> counter_ok s)"

lemma drop_nth_split: "k < length xs \<Longrightarrow> xs = take k xs @ xs ! k # drop (Suc k) xs"
  by (rule id_take_nth_drop)

lemma mset_drop_nth: "k < length xs \<Longrightarrow> mset xs = add_mset (xs ! k) (mset (drop_nth k xs))"
  by (subst drop_nth_split) (simp_all add: drop_nth_def)

lemma set_drop_nth: "x \<in> set (drop_nth k xs) \<Longrightarrow> x \<in> set xs"
  by (auto simp: drop_nth_def dest: in_set_takeD in_set_dropD)

lemma filter_drop_nth:
  "k < length xs \<Longrightarrow> length (filter P xs) = (if P (xs ! k) then 1 else 0) + length (filter P (drop_nth k xs))"
proof -
  assume k: "k < length xs"
  have "length (filter P xs) = length (filter P (take k xs @ xs ! k # drop (Suc k) xs))"
    using drop_nth_split [OF k] by metis
  then show ?thesis by (simp add: drop_nth_def)
qed

lemma post_op_ops_ok: "ops_ok s \<Longrightarrow> ops_ok (post_op op s)"
  unfolding ops_ok_def by (simp add: post_op_def nth_append) (meson less_SucI)

text \<open>What a step has to show for the counter: that it stores a value it has loaded, or that it does not touch it.\<close>

lemma stored_counter:
  assumes "counter_ok s" and "fa_host s = Some v"
    and "fa_pending t = v + delta" and "fa_stale t = (fa_stale s \<or> fa_pending s \<noteq> v)"
    and "fa_others t + int (outstanding t) = fa_others s + int (outstanding s) + delta"
    and "fa_host t = None" and "0 \<le> fa_others t"
    and "list_ex silent_write (fa_ops s) \<Longrightarrow> list_ex silent_write (fa_ops t)"
  shows "counter_ok t"
  using assms by (auto simp: counter_ok_def)

lemma framed_counter:
  assumes "counter_ok s" and "fa_pending t = fa_pending s" and "fa_stale t = fa_stale s"
    and "fa_others t = fa_others s" and "outstanding t = outstanding s"
    and "fa_host t = fa_host s \<or> fa_host t = None \<or> fa_host t = Some (fa_pending s)"
    and "list_ex silent_write (fa_ops s) \<Longrightarrow> list_ex silent_write (fa_ops t)"
  shows "counter_ok t"
  using assms by (auto simp: counter_ok_def)

lemma post_op_ids: "op_ids (post_op op s) = add_mset (length (fa_ops s)) (op_ids s)"
  by (simp add: op_ids_def post_op_def)

lemma post_op_outstanding: "outstanding (post_op op s) = outstanding s + (if is_counted op then 1 else 0)"
  by (simp add: outstanding_def post_op_def)

lemma post_op_fields [simp]:
  "fa_pending (post_op op s) = fa_pending s" "fa_others (post_op op s) = fa_others s"
  "fa_stale (post_op op s) = fa_stale s" "fa_host (post_op op s) = fa_host s" "fa_dead (post_op op s) = fa_dead s"
  "fa_ops (post_op op s) = fa_ops s @ [op]"
  by (simp_all add: post_op_def)

lemma store_pending_fields [simp]:
  "fa_pending (store_pending v delta s) = v + delta" "fa_others (store_pending v delta s) = fa_others s"
  "fa_stale (store_pending v delta s) = (fa_stale s \<or> fa_pending s \<noteq> v)"
  "fa_host (store_pending v delta s) = fa_host s" "fa_dead (store_pending v delta s) = fa_dead s"
  "fa_ops (store_pending v delta s) = fa_ops s" "op_ids (store_pending v delta s) = op_ids s"
  "outstanding (store_pending v delta s) = outstanding s" "ops_ok (store_pending v delta s) = ops_ok s"
  by (simp_all add: store_pending_def op_ids_def outstanding_def ops_ok_def)

lemma host_field_frame [simp]:
  "op_ids (s\<lparr>fa_host := x\<rparr>) = op_ids s" "outstanding (s\<lparr>fa_host := x\<rparr>) = outstanding s"
  "ops_ok (s\<lparr>fa_host := x\<rparr>) = ops_ok s"
  "op_ids (s\<lparr>fa_others := n\<rparr>) = op_ids s" "outstanding (s\<lparr>fa_others := n\<rparr>) = outstanding s"
  "ops_ok (s\<lparr>fa_others := n\<rparr>) = ops_ok s"
  "op_ids (s\<lparr>fa_handler := h\<rparr>) = op_ids s" "ops_ok (s\<lparr>fa_handler := h\<rparr>) = ops_ok s"
  by (simp_all add: op_ids_def outstanding_def ops_ok_def)

lemma fs_invD:
  assumes "fs_inv s" and "\<not> fa_dead s"
  shows "ops_ok s" "op_ids s = mset [0..<length (fa_ops s)]" "counter_ok s"
  using assms by (simp_all add: fs_inv_def)

lemma fs_invI:
  "ops_ok s \<Longrightarrow> op_ids s = mset [0..<length (fa_ops s)] \<Longrightarrow> counter_ok s \<Longrightarrow> fs_inv s"
  by (simp add: fs_inv_def)

lemma counted_call_inv:
  assumes inv: "fs_inv s" "\<not> fa_dead s" and h: "fa_host s = Some v" and c: "is_counted op"
  shows "fs_inv (post_op op (store_pending v 1 (s\<lparr>fa_host := None\<rparr>)))"
proof (rule fs_invI)
  note i = fs_invD [OF inv]
  show "ops_ok (post_op op (store_pending v 1 (s\<lparr>fa_host := None\<rparr>)))" using i(1) by (simp add: post_op_ops_ok)
  show "op_ids (post_op op (store_pending v 1 (s\<lparr>fa_host := None\<rparr>))) =
      mset [0..<length (fa_ops (post_op op (store_pending v 1 (s\<lparr>fa_host := None\<rparr>))))]"
    using i(2) by (simp add: post_op_ids)
  show "counter_ok (post_op op (store_pending v 1 (s\<lparr>fa_host := None\<rparr>)))"
    by (rule stored_counter [OF i(3) h, where delta = 1])
      (use i(3) c in \<open>simp_all add: post_op_outstanding counter_ok_def\<close>)
qed

lemma opendir_inv:
  assumes inv: "fs_inv s" "\<not> fa_dead s"
  shows "fs_inv (native_opendir path s)"
proof (rule fs_invI)
  note i = fs_invD [OF inv]
  show "ops_ok (native_opendir path s)" using i(1) by (simp add: native_opendir_def post_op_ops_ok)
  show "op_ids (native_opendir path s) = mset [0..<length (fa_ops (native_opendir path s))]"
    using i(2) by (simp add: native_opendir_def post_op_ids)
  show "counter_ok (native_opendir path s)"
    by (rule framed_counter [OF i(3)]) (simp_all add: native_opendir_def post_op_outstanding is_counted_def)
qed

lemma read_callback_fits: "callback_fits (Fo_read path enc) (read_callback path enc data)"
  by (cases "data = []") (auto simp: read_callback_def)

lemma posted_fits: "ops_ok s \<Longrightarrow> (i, c) \<in> set (fa_posted s) \<Longrightarrow> callback_fits (fa_ops s ! i) c"
  unfolding ops_ok_def by force

lemma counted_callback_fits: "callback_fits op c \<Longrightarrow> callback_counted c = is_counted op"
  by (cases op) (auto simp: callback_counted_def is_counted_def read_callback_def)

text \<open>A pool task that lives ends in a callback that fits, or is a write without one.\<close>

lemma pool_task_cases:
  obtains (dies) d where "pool_task S i op s = s\<lparr>fa_disk := d, fa_dead := True\<rparr>"
  | (posts) c d where "callback_fits op c" "pool_task S i op s = post_callback i c (s\<lparr>fa_disk := d\<rparr>)"
  | (quiet) path data d where "op = Fo_write path data False"
      "pool_task S i op s = s\<lparr>fa_disk := d, fa_regs := fa_regs s @ [(i, fa_pending s)]\<rparr>"
proof (cases op)
  case (Fo_read path enc)
  show ?thesis
  proof (cases "read_file_sync S path (fa_disk s)")
    case None
    show ?thesis by (rule dies [of "fa_disk s"]) (simp add: Fo_read None pool_task_def)
  next
    case (Some data)
    show ?thesis
      by (rule posts [of "read_callback path enc data" "fa_disk s"])
        (simp_all add: Fo_read Some pool_task_def post_callback_def read_callback_fits del: callback_fits.simps)
  qed
next
  case (Fo_opendir path)
  show ?thesis
    by (rule posts [of "case os_directory S path (fa_disk s) of
          None \<Rightarrow> Cb_dir_error ''Failed to open directory'' | Some es \<Rightarrow> Cb_dir (dir_object ''closeSync'')" "fa_disk s"])
      (simp_all add: Fo_opendir pool_task_def opendir_task_def post_callback_def split: option.splits)
next
  case (Fo_write path data callback)
  obtain r d where w: "write_file_sync S path data (fa_disk s) = (r, d)"
    by (cases "write_file_sync S path data (fa_disk s)")
  show ?thesis
  proof (cases r)
    case None
    show ?thesis by (rule dies [of d]) (simp add: Fo_write w None pool_task_def)
  next
    case (Some good)
    show ?thesis
    proof (cases callback)
      case True
      show ?thesis
        by (rule posts [of "if good then Cb_write else Cb_write_error (cstr path)" d])
          (simp_all add: Fo_write w Some True pool_task_def)
    next
      case False
      show ?thesis
        by (rule quiet [of path data d]) (simp_all add: Fo_write w Some False pool_task_def)
    qed
  qed
qed

text \<open>Taking the \<open>k\<close>-th task out of the pool, and putting what it leaves somewhere else.\<close>

lemma take_task:
  assumes inv: "fs_inv s" and live: "\<not> fa_dead s" and k: "k < length (fa_pool s)" "fa_pool s ! k = (i, op)"
  defines "u \<equiv> s\<lparr>fa_pool := drop_nth k (fa_pool s)\<rparr>"
  shows "ops_ok u" "i < length (fa_ops s)" "fa_ops s ! i = op"
    "add_mset i (op_ids u) = mset [0..<length (fa_ops s)]"
    "outstanding s = (if is_counted op then 1 else 0) + outstanding u"
proof -
  have ok: "ops_ok s" using inv by (simp add: fs_inv_def)
  show "ops_ok u" using ok unfolding u_def ops_ok_def by (auto dest!: set_drop_nth)
  have "(i, op) \<in> set (fa_pool s)" using k nth_mem by metis
  then show "i < length (fa_ops s)" "fa_ops s ! i = op" using ok unfolding ops_ok_def by auto
  have "mset (fa_pool s) = add_mset (i, op) (mset (drop_nth k (fa_pool s)))"
    using mset_drop_nth [OF k(1)] k(2) by simp
  then have "op_ids s = add_mset i (op_ids u)" by (simp add: op_ids_def u_def)
  then show "add_mset i (op_ids u) = mset [0..<length (fa_ops s)]" using inv live by (simp add: fs_inv_def)
  show "outstanding s = (if is_counted op then 1 else 0) + outstanding u"
    using filter_drop_nth [OF k(1), of "\<lambda>x. is_counted (snd x)"] k(2)
    by (simp add: outstanding_def u_def)
qed

lemma pool_inv:
  assumes inv: "fs_inv s" and live: "\<not> fa_dead s" and k: "k < length (fa_pool s)" "fa_pool s ! k = (i, op)"
  shows "fs_inv (pool_task S i op (s\<lparr>fa_pool := drop_nth k (fa_pool s)\<rparr>))"
proof -
  let ?u = "s\<lparr>fa_pool := drop_nth k (fa_pool s)\<rparr>"
  note t = take_task [OF inv live k]
  note cnt = fs_invD(3) [OF inv live]
  have sub: "op_ids ?u \<subseteq># mset [0..<length (fa_ops s)]" unfolding t(4) [symmetric] by simp
  show ?thesis
  proof (cases rule: pool_task_cases [of S i op ?u])
    case (dies d)
    then show ?thesis using t(1) sub by (simp add: fs_inv_def ops_ok_def op_ids_def)
  next
    case (posts c d)
    let ?t = "post_callback i c (?u\<lparr>fa_disk := d\<rparr>)"
    have "ops_ok ?t" using t(1-3) posts(1) unfolding ops_ok_def post_callback_def by auto
    moreover have "op_ids ?t = mset [0..<length (fa_ops s)]"
      unfolding t(4) [symmetric] by (simp add: op_ids_def post_callback_def)
    moreover have "outstanding ?t = outstanding s"
      using t(5) counted_callback_fits [OF posts(1)] by (simp add: outstanding_def post_callback_def)
    then have "counter_ok ?t" by (intro framed_counter [OF cnt]) (simp_all add: post_callback_def)
    ultimately show ?thesis unfolding posts(2) by (intro fs_invI) (simp_all add: post_callback_def)
  next
    case (quiet path data d)
    let ?t = "?u\<lparr>fa_disk := d, fa_regs := fa_regs s @ [(i, fa_pending s)]\<rparr>"
    have "ops_ok ?t" using t(1-3) quiet(1) unfolding ops_ok_def by auto
    moreover have "op_ids ?t = mset [0..<length (fa_ops s)]"
      unfolding t(4) [symmetric] by (simp add: op_ids_def)
    moreover have "outstanding ?t = outstanding s"
      using t(5) quiet(1) by (simp add: outstanding_def is_counted_def)
    then have "counter_ok ?t" by (intro framed_counter [OF cnt]) simp_all
    ultimately show ?thesis using quiet(2) by (intro fs_invI) simp_all
  qed
qed

lemma store_inv:
  assumes inv: "fs_inv s" and live: "\<not> fa_dead s" and k: "k < length (fa_regs s)" "fa_regs s ! k = (i, v)"
  shows "fs_inv (pool_store i v (s\<lparr>fa_regs := drop_nth k (fa_regs s)\<rparr>))"
proof (rule fs_invI)
  let ?t = "pool_store i v (s\<lparr>fa_regs := drop_nth k (fa_regs s)\<rparr>)"
  note j = fs_invD [OF inv live]
  have "(i, v) \<in> set (fa_regs s)" using k nth_mem by metis
  then have i: "i < length (fa_ops s)" "silent_write (fa_ops s ! i)" using j(1) unfolding ops_ok_def by force+
  then have quiet: "list_ex silent_write (fa_ops s)" by (auto simp: list_ex_length)
  show "ops_ok ?t" using j(1) i unfolding pool_store_def store_pending_def ops_ok_def
    by (auto dest!: set_drop_nth)
  have "mset (fa_regs s) = add_mset (i, v) (mset (drop_nth k (fa_regs s)))"
    using mset_drop_nth [OF k(1)] k(2) by simp
  then show "op_ids ?t = mset [0..<length (fa_ops ?t)]" using j(2) by (simp add: pool_store_def op_ids_def store_pending_def)
  have "length (fa_regs s) = Suc (length (drop_nth k (fa_regs s)))" using k(1) by (simp add: drop_nth_def)
  then have "outstanding s = Suc (outstanding ?t)" by (simp add: outstanding_def pool_store_def store_pending_def)
  then show "counter_ok ?t" using j(3) quiet by (auto simp: counter_ok_def pool_store_def store_pending_def)
qed

lemma loop_inv:
  assumes inv: "fs_inv s" and live: "\<not> fa_dead s" and h: "fa_handler s = None" and p: "fa_posted s = (i, c) # rest"
  shows "fs_inv (run_file_callback i c (s\<lparr>fa_posted := rest\<rparr>))"
proof (rule fs_invI)
  let ?t = "run_file_callback i c (s\<lparr>fa_posted := rest\<rparr>)"
  note j = fs_invD [OF inv live]
  show "ops_ok ?t" using j(1) p unfolding ops_ok_def run_file_callback_def by auto
  show "op_ids ?t = mset [0..<length (fa_ops ?t)]" using j(2) p by (simp add: op_ids_def run_file_callback_def)
  have "outstanding ?t = outstanding s" using p h by (simp add: outstanding_def run_file_callback_def)
  then show "counter_ok ?t" by (intro framed_counter [OF j(3)]) (simp_all add: run_file_callback_def)
qed

lemma done_inv:
  assumes inv: "fs_inv s" and live: "\<not> fa_dead s" and h: "fa_host s = Some v" "fa_handler s \<noteq> None"
  shows "fs_inv (end_file_callback v (s\<lparr>fa_host := None\<rparr>))"
proof (rule fs_invI)
  let ?t = "end_file_callback v (s\<lparr>fa_host := None\<rparr>)"
  note j = fs_invD [OF inv live]
  show "ops_ok ?t" and "op_ids ?t = mset [0..<length (fa_ops ?t)]" using j(1,2) by (simp_all add: end_file_callback_def)
  have "outstanding s = Suc (outstanding ?t)" using h(2) by (simp add: outstanding_def end_file_callback_def store_pending_def)
  then show "counter_ok ?t"
    by (intro stored_counter [OF j(3) h(1), where delta = "- 1"])
      (use j(3) in \<open>simp_all add: end_file_callback_def counter_ok_def\<close>)
qed

lemma other_inv:
  assumes inv: "fs_inv s" and live: "\<not> fa_dead s" and h: "fa_host s = Some v" and n: "0 \<le> fa_others s + delta"
  shows "fs_inv (store_pending v delta (s\<lparr>fa_host := None, fa_others := fa_others s + delta\<rparr>))"
proof (rule fs_invI)
  let ?t = "store_pending v delta (s\<lparr>fa_host := None, fa_others := fa_others s + delta\<rparr>)"
  note j = fs_invD [OF inv live]
  show "ops_ok ?t" and "op_ids ?t = mset [0..<length (fa_ops ?t)]" using j(1,2) by simp_all
  show "counter_ok ?t" by (rule stored_counter [OF j(3) h, where delta = delta]) (use n in simp_all)
qed

lemma load_inv:
  assumes inv: "fs_inv s" and live: "\<not> fa_dead s"
  shows "fs_inv (s\<lparr>fa_host := Some (fa_pending s)\<rparr>)"
proof (rule fs_invI)
  note j = fs_invD [OF inv live]
  show "ops_ok (s\<lparr>fa_host := Some (fa_pending s)\<rparr>)"
    and "op_ids (s\<lparr>fa_host := Some (fa_pending s)\<rparr>) = mset [0..<length (fa_ops (s\<lparr>fa_host := Some (fa_pending s)\<rparr>))]"
    using j(1,2) by simp_all
  show "counter_ok (s\<lparr>fa_host := Some (fa_pending s)\<rparr>)" by (rule framed_counter [OF j(3)]) simp_all
qed

lemma fs_inv_step:
  assumes inv: "fs_inv s" and st: "fs_step S e s = Some t"
  shows "fs_inv t"
proof -
  have live: "\<not> fa_dead s" and l: "live_step S e s = Some t" using st by (auto simp: fs_step_def split: if_splits)
  show ?thesis
  proof (cases e)
    case Fe_load
    then show ?thesis using l load_inv [OF inv live] by (auto split: if_splits)
  next
    case (Fe_read path encoding)
    then show ?thesis
      using l counted_call_inv [OF inv live, of _ "Fo_read path (case encoding of None \<Rightarrow> [] | Some e \<Rightarrow> e)"]
      by (auto simp: native_read_file_def is_counted_def storing_def split: option.splits)
  next
    case (Fe_write path data callback)
    then show ?thesis
      using l counted_call_inv [OF inv live, of _ "Fo_write path data callback"]
      by (auto simp: native_write_file_def is_counted_def storing_def split: option.splits)
  next
    case (Fe_other delta)
    then show ?thesis using l other_inv [OF inv live] by (auto simp: storing_def split: if_splits option.splits)
  next
    case (Fe_opendir path)
    then show ?thesis using l opendir_inv [OF inv live] by (auto split: if_splits)
  next
    case (Fe_pool k)
    then show ?thesis using l pool_inv [OF inv live] by (auto split: if_splits prod.splits)
  next
    case (Fe_store k)
    then show ?thesis using l store_inv [OF inv live] by (auto split: if_splits prod.splits)
  next
    case Fe_loop
    then show ?thesis using l loop_inv [OF inv live] by (auto split: if_splits list.splits)
  next
    case Fe_done
    then show ?thesis using l done_inv [OF inv live] by (auto simp: storing_def split: if_splits option.splits)
  qed
qed

interpretation file_ops: machine "fs_step S" "fs_start d" fs_inv for S d
  by unfold_locales
    (simp add: fs_start_def fs_inv_def ops_ok_def op_ids_def outstanding_def counter_ok_def, rule fs_inv_step)

lemmas file_callbacks_inv = file_ops.reachable_inv

lemma distinct_sub_mset:
  assumes "mset xs \<subseteq># mset ys" and "distinct ys"
  shows "distinct xs"
proof -
  obtain M where "mset ys = mset xs + M" using assms(1) by (auto simp: subset_mset.le_iff_add)
  moreover obtain zs where "mset zs = M" using ex_mset by blast
  ultimately have "mset ys = mset (xs @ zs)" by simp
  then show ?thesis using assms(2) mset_eq_imp_distinct_iff by fastforce
qed

text \<open>
  C18: whatever files JavaScript reads, writes and opens, and however the host thread, the pool and their accesses to
  \<open>pending_ops\<close> interleave: every call is called back at most once, with an answer of its own kind; and unless an
  exception on the pool ended the process, no call is lost (it is in the pool, ending there, posted, called back
  or a write without a callback that is done).  As long as no store to \<open>pending_ops\<close> was based on an old value, it is
  exactly the number of reads and writes that are still to be answered, on top of what the rest of the host
  has in it; calls of \<open>opendir\<close> are not counted.  Such a store cannot happen as long as every
  write has a callback.
\<close>

theorem file_callbacks_once:
  assumes "reachable (fs_step S) (fs_start d) s"
  shows "distinct (map fst (fa_calls s)) \<and>
    list_all (\<lambda>(i, c). i < length (fa_ops s) \<and> callback_fits (fa_ops s ! i) c) (fa_calls s) \<and>
    (fa_dead s \<or>
       set (map fst (fa_pool s)) \<union> set (map fst (fa_regs s)) \<union> set (map fst (fa_posted s)) \<union>
         set (map fst (fa_calls s)) \<union> set (fa_quiet s) = {0..<length (fa_ops s)} \<and>
       (fa_stale s \<or> fa_pending s = fa_others s + int (outstanding s)) \<and>
       (list_ex silent_write (fa_ops s) \<or> \<not> fa_stale s))"
proof -
  have inv: "fs_inv s" using assms by (rule file_ops.reachable_inv)
  have "mset (map fst (fa_calls s)) \<subseteq># op_ids s" by (simp add: op_ids_def)
  then have "mset (map fst (fa_calls s)) \<subseteq># mset [0..<length (fa_ops s)]"
    using inv unfolding fs_inv_def by (meson subset_mset.order_trans)
  then have "distinct (map fst (fa_calls s))"
    by (rule distinct_sub_mset) simp
  moreover have "list_all (\<lambda>(i, c). i < length (fa_ops s) \<and> callback_fits (fa_ops s ! i) c) (fa_calls s)"
    using inv by (simp add: fs_inv_def ops_ok_def list_all_iff case_prod_beta)
  moreover have "set_mset (op_ids s) =
      set (map fst (fa_pool s)) \<union> set (map fst (fa_regs s)) \<union> set (map fst (fa_posted s)) \<union>
        set (map fst (fa_calls s)) \<union> set (fa_quiet s)"
    by (simp add: op_ids_def)
  moreover have "fa_dead s \<or> op_ids s = mset [0..<length (fa_ops s)]" and "fa_dead s \<or> counter_ok s"
    using inv by (simp_all add: fs_inv_def)
  ultimately show ?thesis unfolding counter_ok_def by (metis set_mset_mset set_upt)
qed

theorem file_callbacks_once_witness:
  "\<exists>s. fa_calls s = [(1, Cb_write), (0, Cb_read_error ''a'')] \<and> fa_pending s = 0 \<and> map fst (fa_pool s) = [2] \<and>
     reachable (fs_step mem_os) (fs_start []) s \<and> distinct (map fst (fa_calls s)) \<and> \<not> fa_stale s"
proof -
  define ev where "ev = [Fe_load, Fe_read ''a'' None, Fe_load, Fe_write ''b'' [1] True, Fe_opendir ''d'', Fe_pool 1,
    Fe_pool 0, Fe_loop, Fe_load, Fe_done, Fe_loop, Fe_load, Fe_done]"
  have r: "case run (fs_step mem_os) (fs_start []) ev of
      None \<Rightarrow> False | Some s \<Rightarrow> fa_calls s = [(1, Cb_write), (0, Cb_read_error ''a'')] \<and> fa_pending s = 0 \<and>
        map fst (fa_pool s) = [2] \<and> \<not> fa_dead s \<and> \<not> list_ex silent_write (fa_ops s)" unfolding ev_def by code_simp
  obtain s where s: "run (fs_step mem_os) (fs_start []) ev = Some s"
    and c: "fa_calls s = [(1, Cb_write), (0, Cb_read_error ''a'')]" and p: "fa_pending s = 0"
    and q: "map fst (fa_pool s) = [2]" and l: "\<not> fa_dead s" and n: "\<not> list_ex silent_write (fa_ops s)"
    by (rule run_resultE [OF r]) (elim conjE, rule that)
  note reach = run_reachable [OF s]
  have d: "distinct (map fst (fa_calls s))" using file_callbacks_once [OF reach] by (elim conjE)
  have "\<not> fa_stale s" using file_callbacks_once [OF reach] l n by blast
  then show ?thesis using c p q reach d by (intro exI [of _ s] conjI)
qed

section \<open>What was started ends\<close>

text \<open>
  The steps that finish what is under way: pool tasks, handlers and the \<open>--\<close> at their end, with no new
  call.  \<open>size\<close> is the number of them that are left.
\<close>

definition finish_step :: "('s, 'x) os_scheme \<Rightarrow> fs_event \<Rightarrow> 's fs_async \<Rightarrow> 's fs_async option" where
  "finish_step S e s =
     (case e of
        Fe_pool k \<Rightarrow> fs_step S e s
      | Fe_store k \<Rightarrow> fs_step S e s
      | Fe_loop \<Rightarrow> fs_step S e s
      | Fe_load \<Rightarrow> if fa_handler s = None then None else fs_step S e s
      | Fe_done \<Rightarrow> fs_step S e s
      | _ \<Rightarrow> None)"

instantiation fs_async_ext :: (type, type) size
begin

definition size_fs_async_ext :: "('a, 'b) fs_async_ext \<Rightarrow> nat" where
  "size_fs_async_ext s =
     4 * length (fa_pool s) + length (fa_regs s) + 3 * length (fa_posted s) +
     (if fa_handler s = None then 0 else if fa_host s = None then 2 else 1)"

instance ..

end

lemma pool_task_size:
  "size (pool_task S i op s) < size s + 4" "fa_ops (pool_task S i op s) = fa_ops s"
  "fa_handler (pool_task S i op s) = fa_handler s" "fa_host (pool_task S i op s) = fa_host s"
  by (cases rule: pool_task_cases [of S i op s]; simp add: size_fs_async_ext_def post_callback_def)+

lemma drop_nth_length: "k < length xs \<Longrightarrow> length xs = Suc (length (drop_nth k xs))"
  by (simp add: drop_nth_def)

text \<open>The host thread has loaded \<open>pending_ops\<close> only to end a handler.\<close>

definition at_rest :: "'s fs_async \<Rightarrow> bool" where
  "at_rest s \<longleftrightarrow> fa_handler s \<noteq> None \<or> fa_host s = None"

lemma finish_step_size:
  assumes st: "finish_step S e s = Some t" and r: "at_rest s"
  shows "size t < size s \<and> fa_ops t = fa_ops s \<and> at_rest t"
proof (cases e)
  case (Fe_pool k)
  then obtain i op where k: "k < length (fa_pool s)"
    and t: "t = pool_task S i op (s\<lparr>fa_pool := drop_nth k (fa_pool s)\<rparr>)"
    using st by (auto simp: finish_step_def fs_step_def split: if_splits prod.splits)
  have "size s = 4 + size (s\<lparr>fa_pool := drop_nth k (fa_pool s)\<rparr>)"
    using drop_nth_length [OF k] by (simp add: size_fs_async_ext_def)
  then show ?thesis
    using pool_task_size(1) [of S i op "s\<lparr>fa_pool := drop_nth k (fa_pool s)\<rparr>"] r
    by (simp add: t pool_task_size(2-4) at_rest_def)
next
  case (Fe_store k)
  then obtain i v where k: "k < length (fa_regs s)"
    and t: "t = pool_store i v (s\<lparr>fa_regs := drop_nth k (fa_regs s)\<rparr>)"
    using st by (auto simp: finish_step_def fs_step_def split: if_splits prod.splits)
  show ?thesis using drop_nth_length [OF k] r
    by (simp add: t pool_store_def store_pending_def size_fs_async_ext_def at_rest_def)
next
  case Fe_loop
  then show ?thesis using st r
    by (auto simp: finish_step_def fs_step_def at_rest_def run_file_callback_def size_fs_async_ext_def
        split: if_splits list.splits)
next
  case Fe_load
  then show ?thesis using st
    by (auto simp: finish_step_def fs_step_def at_rest_def size_fs_async_ext_def split: if_splits)
next
  case Fe_done
  then show ?thesis using st
    by (auto simp: finish_step_def fs_step_def at_rest_def size_fs_async_ext_def end_file_callback_def
        store_pending_def storing_def split: if_splits option.splits)
qed (use st in \<open>simp_all add: finish_step_def\<close>)

lemma finish_run:
  assumes "run (finish_step S) s es = Some t" and "at_rest s"
  shows "length es + size t \<le> size s \<and> fa_ops t = fa_ops s \<and> at_rest t"
  using assms
proof (induction es arbitrary: s)
  case (Cons e es)
  then obtain u where u: "finish_step S e s = Some u" "run (finish_step S) u es = Some t"
    by (auto split: option.splits)
  note f = finish_step_size [OF u(1) Cons.prems(2)]
  show ?case using Cons.IH [OF u(2)] f by auto
qed simp

lemma finish_is_step: "finish_step S e s = Some t \<Longrightarrow> fs_step S e s = Some t"
  by (cases e) (auto simp: finish_step_def split: if_splits)

lemma finish_reachable:
  "run (finish_step S) s es = Some t \<Longrightarrow> reachable (fs_step S) s0 s \<Longrightarrow> reachable (fs_step S) s0 t"
proof (induction es arbitrary: s)
  case (Cons e es)
  then show ?case by (auto split: option.splits dest: finish_is_step intro: reach_next)
qed simp

text \<open>When no such step is left, nothing is on its way any more.\<close>

lemma stuck_empty:
  assumes stuck: "\<And>e. finish_step S e s = None" and live: "\<not> fa_dead s" and r: "at_rest s"
  shows "fa_pool s = [] \<and> fa_regs s = [] \<and> fa_posted s = [] \<and> fa_handler s = None"
proof -
  have l: "fa_handler s = None"
    using stuck [of Fe_load] stuck [of Fe_done] live
    by (auto simp: finish_step_def fs_step_def storing_def split: if_splits option.splits)
  then have "fa_host s = None" using r by (simp add: at_rest_def)
  then have "fa_posted s = []"
    using stuck [of Fe_loop] live l by (cases "fa_posted s") (auto simp: finish_step_def fs_step_def)
  moreover have "fa_pool s = []"
    using stuck [of "Fe_pool 0"] live by (cases "fa_pool s") (auto simp: finish_step_def fs_step_def split: prod.splits)
  moreover have "fa_regs s = []"
    using stuck [of "Fe_store 0"] live by (cases "fa_regs s") (auto simp: finish_step_def fs_step_def split: prod.splits)
  ultimately show ?thesis using l by simp
qed

lemma no_outstanding_answered:
  assumes inv: "fs_inv s" and "\<not> fa_dead s" and o: "outstanding s = 0"
    and i: "i < length (fa_ops s)" "is_counted (fa_ops s ! i)"
  shows "i \<in> set (map fst (fa_calls s)) \<union> set (fa_quiet s)"
proof -
  have "i \<in># op_ids s" using inv assms(2) i(1) by (simp add: fs_inv_def)
  moreover have "i \<notin> fst ` set (fa_pool s)"
  proof
    assume "i \<in> fst ` set (fa_pool s)"
    then obtain op where x: "(i, op) \<in> set (fa_pool s)" by force
    then have "is_counted op" using inv i unfolding fs_inv_def ops_ok_def by auto
    then show False using o x by (auto simp: outstanding_def filter_empty_conv split: if_splits)
  qed
  moreover have "i \<notin> fst ` set (fa_posted s)"
  proof
    assume "i \<in> fst ` set (fa_posted s)"
    then obtain c where x: "(i, c) \<in> set (fa_posted s)" by force
    then have "callback_fits (fa_ops s ! i) c" using inv posted_fits unfolding fs_inv_def by blast
    then have "callback_counted c" using counted_callback_fits i(2) by blast
    then show False using o x by (auto simp: outstanding_def filter_empty_conv split: if_splits)
  qed
  moreover have "fa_regs s = []" using o by (simp add: outstanding_def split: if_splits)
  ultimately show ?thesis by (auto simp: op_ids_def)
qed

lemma exit_test_exact:
  assumes "fs_inv s" and "\<not> fa_dead s" and "\<not> fa_stale s" and "fa_pending s \<le> 0"
  shows "fa_others s = 0" "outstanding s = 0"
proof -
  have "fa_pending s = fa_others s + int (outstanding s)" "0 \<le> fa_others s"
    using fs_invD(3) [OF assms(1,2)] assms(3) by (simp_all add: counter_ok_def)
  then show "fa_others s = 0" "outstanding s = 0" using assms(4) by linarith+
qed

text \<open>
  C12: no read or write is lost.  From any state in which the host thread is not inside a \<open>++\<close> or \<open>--\<close>, the
  pool and the loop can take no more than \<open>size s\<close> further steps without a new call, in whatever
  order; as long as something is unanswered one of them can take a step, unless an exception on the pool
  ended the process.  And when \<open>pending_ops\<close> reads 0 on the way, so that \<open>run_loop\<close> may return, every read and every
  write that was started is answered, unless an update of \<open>pending_ops\<close> was lost before; an \<open>opendir\<close> may
  still be open.
\<close>

theorem file_operations_finish:
  assumes "reachable (fs_step S) (fs_start d) s" and "fa_host s = None"
    and "run (finish_step S) s es = Some t"
  shows "length es \<le> size s \<and> fa_ops t = fa_ops s \<and>
    (fa_dead t \<or>
       ((\<exists>e u. finish_step S e t = Some u) \<or>
          set (map fst (fa_calls t)) \<union> set (fa_quiet t) = {0..<length (fa_ops t)}) \<and>
       (fa_pending t = 0 \<longrightarrow> fa_stale t \<or>
          {i. i < length (fa_ops t) \<and> is_counted (fa_ops t ! i)} \<subseteq> set (map fst (fa_calls t)) \<union> set (fa_quiet t)))"
proof -
  have "at_rest s" using assms(2) by (simp add: at_rest_def)
  note f = finish_run [OF assms(3) this]
  have inv: "fs_inv t" using finish_reachable [OF assms(3,1)] by (rule file_callbacks_inv)
  have "set (map fst (fa_calls t)) \<union> set (fa_quiet t) = {0..<length (fa_ops t)}"
    if "\<not> fa_dead t" and n: "\<And>e. finish_step S e t = None"
  proof -
    have "op_ids t = mset (map fst (fa_calls t)) + mset (fa_quiet t)"
      using stuck_empty [OF n that(1)] f by (simp add: op_ids_def)
    then have "set_mset (mset (map fst (fa_calls t)) + mset (fa_quiet t)) = set_mset (mset [0..<length (fa_ops t)])"
      using fs_invD(2) [OF inv that(1)] by simp
    then show ?thesis by simp
  qed
  then have "fa_dead t \<or> (\<exists>e u. finish_step S e t = Some u) \<or>
      set (map fst (fa_calls t)) \<union> set (fa_quiet t) = {0..<length (fa_ops t)}" by (meson not_Some_eq)
  moreover have "{i. i < length (fa_ops t) \<and> is_counted (fa_ops t ! i)} \<subseteq> set (map fst (fa_calls t)) \<union> set (fa_quiet t)"
    if "\<not> fa_dead t" "\<not> fa_stale t" "fa_pending t = 0"
    using no_outstanding_answered [OF inv that(1)] exit_test_exact [OF inv that(1,2)] that(3) by auto
  ultimately show ?thesis using f by auto
qed

definition demo_ops :: "fs_event list" where
  "demo_ops = [Fe_load, Fe_read ''a'' None, Fe_load, Fe_write ''b'' [1] True, Fe_opendir ''d'',
     Fe_load, Fe_write ''c'' [2] False]"

definition demo_finish :: "fs_event list" where
  "demo_finish = [Fe_pool 3, Fe_store 0, Fe_pool 1, Fe_loop, Fe_pool 0, Fe_load, Fe_done, Fe_loop, Fe_load, Fe_done]"

theorem file_operations_finish_witness:
  "\<exists>s t. run (fs_step mem_os) (fs_start []) demo_ops = Some s \<and> run (finish_step mem_os) s demo_finish = Some t \<and>
     fa_pending s = 3 \<and> fa_pending t = 0 \<and> {0, 1, 3} \<subseteq> set (map fst (fa_calls t)) \<union> set (fa_quiet t)"
proof -
  have r: "case run (fs_step mem_os) (fs_start []) demo_ops of None \<Rightarrow> False | Some s \<Rightarrow> fa_pending s = 3 \<and> fa_host s = None \<and>
      (case run (finish_step mem_os) s demo_finish of None \<Rightarrow> False | Some t \<Rightarrow>
         fa_pending t = 0 \<and> \<not> fa_dead t \<and> \<not> fa_stale t \<and> map is_counted (fa_ops t) = [True, True, False, True])"
    unfolding demo_ops_def demo_finish_def by code_simp
  obtain s where s: "run (fs_step mem_os) (fs_start []) demo_ops = Some s" "fa_pending s = 3" "fa_host s = None"
    and r2: "case run (finish_step mem_os) s demo_finish of None \<Rightarrow> False | Some t \<Rightarrow>
         fa_pending t = 0 \<and> \<not> fa_dead t \<and> \<not> fa_stale t \<and> map is_counted (fa_ops t) = [True, True, False, True]"
    by (rule run_resultE [OF r]) (elim conjE, rule that)
  obtain t where t: "run (finish_step mem_os) s demo_finish = Some t" "fa_pending t = 0" "\<not> fa_dead t" "\<not> fa_stale t"
    and m: "map is_counted (fa_ops t) = [True, True, False, True]"
    by (rule run_resultE [OF r2]) (elim conjE, rule that)
  have len: "length (fa_ops t) = 4" using arg_cong [OF m, of length] by simp
  have nth: "is_counted (fa_ops t ! i) = [True, True, False, True] ! i" if "i < 4" for i
    using nth_map [of i "fa_ops t" is_counted] that len m by simp
  have "{i. i < length (fa_ops t) \<and> is_counted (fa_ops t ! i)} \<subseteq> set (map fst (fa_calls t)) \<union> set (fa_quiet t)"
    using file_operations_finish [OF run_reachable [OF s(1)] s(3) t(1)] t(2-4) by blast
  moreover have "{0, 1, 3} \<subseteq> {i. i < length (fa_ops t) \<and> is_counted (fa_ops t ! i)}"
    using nth [of 0] nth [of 1] nth [of 3] len by simp
  ultimately show ?thesis using s(1,2) t(1,2) by blast
qed

section \<open>Lost updates\<close>

text \<open>
  A write without a callback, whose task is about to store: the host thread starts a read in between.
  In \<open>lost_decrement\<close> the host thread stores last, in \<open>lost_increment\<close> the pool thread does.
\<close>

definition lost_decrement :: "fs_event list" where
  "lost_decrement = [Fe_load, Fe_write ''a'' [1] False, Fe_pool 0, Fe_load, Fe_store 0, Fe_read ''a'' None,
     Fe_pool 0, Fe_loop, Fe_load, Fe_done]"

definition lost_increment :: "fs_event list" where
  "lost_increment = [Fe_load, Fe_write ''a'' [1] False, Fe_pool 0, Fe_load, Fe_read ''a'' None, Fe_store 0]"


end
