(* ===== verification/HostTeardown.thy ===== *)
theory HostTeardown
  imports FsAsync HostLoop
begin

text \<open>
  The end of a host (\<open>src/host.hpp\<close>: the order of its members, \<open>ThreadPool::~ThreadPool\<close>) with file
  operations still on their way.  C++ destroys the members in reverse order of declaration; a member
  frees the JS callbacks it holds when it is destroyed, which is only sound while the context lives.
\<close>

section \<open>Members\<close>

datatype host_member =
    Hm_ioc | Hm_ex | Hm_rt | Hm_ctx | Hm_pending_ops | Hm_stopping | Hm_file_pool | Hm_next_fetch_id
  | Hm_fetch_transfers | Hm_registry | Hm_host_id | Hm_http_server | Hm_http_active | Hm_http_handler
  | Hm_next_conn_id | Hm_http_connections | Hm_next_timer_id | Hm_active_timers

definition host_members :: "host_member list" where
  "host_members =
     [Hm_ioc, Hm_ex, Hm_rt, Hm_ctx, Hm_pending_ops, Hm_stopping, Hm_file_pool, Hm_next_fetch_id,
      Hm_fetch_transfers, Hm_registry, Hm_host_id, Hm_http_server, Hm_http_active, Hm_http_handler,
      Hm_next_conn_id, Hm_http_connections, Hm_next_timer_id, Hm_active_timers]"

text \<open>\<open>td_freed\<close> are the operations whose callback was freed, with whether the context lived then.\<close>

record 's dying_host =
  td_files :: "'s fs_async"
  td_context :: bool
  td_freed :: "(nat \<times> bool) list"

definition free_callbacks :: "nat list \<Rightarrow> 's dying_host \<Rightarrow> 's dying_host" where
  "free_callbacks is t = t\<lparr>td_freed := td_freed t @ map (\<lambda>i. (i, td_context t)) is\<rparr>"

text \<open>
  \<open>ioc.stop()\<close> lets the threads finish only the tasks they are running: \<open>es\<close> are their steps, in any
  order, and what they post goes to the event loop of the host.  The tasks left are destroyed with
  the pool.
\<close>

definition try_step :: "('s, 'x) os_scheme \<Rightarrow> fs_event \<Rightarrow> 's fs_async \<Rightarrow> 's fs_async" where
  "try_step S e s = (case fs_step S e s of None \<Rightarrow> s | Some t \<Rightarrow> t)"

definition pool_event :: "fs_event \<Rightarrow> bool" where
  "pool_event e = (case e of Fe_pool k \<Rightarrow> True | Fe_store k \<Rightarrow> True | _ \<Rightarrow> False)"

definition finish_running :: "('s, 'x) os_scheme \<Rightarrow> fs_event list \<Rightarrow> 's fs_async \<Rightarrow> 's fs_async" where
  "finish_running S es s = fold (try_step S) (filter pool_event es) s"

definition destroy_pool :: "('s, 'x) os_scheme \<Rightarrow> fs_event list \<Rightarrow> 's dying_host \<Rightarrow> 's dying_host" where
  "destroy_pool S es t =
     (let s1 = finish_running S es (td_files t)
      in free_callbacks (map fst (fa_pool s1)) (t\<lparr>td_files := s1\<lparr>fa_pool := []\<rparr>\<rparr>))"

definition destroy_loop :: "'s dying_host \<Rightarrow> 's dying_host" where
  "destroy_loop t =
     free_callbacks (map fst (fa_posted (td_files t))) (t\<lparr>td_files := (td_files t)\<lparr>fa_posted := []\<rparr>\<rparr>)"

definition destroy_member :: "('s, 'x) os_scheme \<Rightarrow> fs_event list \<Rightarrow> host_member \<Rightarrow> 's dying_host \<Rightarrow> 's dying_host" where
  "destroy_member S es m t =
     (case m of
        Hm_file_pool \<Rightarrow> destroy_pool S es t
      | Hm_ctx \<Rightarrow> t\<lparr>td_context := False\<rparr>
      | Hm_ioc \<Rightarrow> destroy_loop t
      | _ \<Rightarrow> t)"

definition destroy_members :: "('s, 'x) os_scheme \<Rightarrow> fs_event list \<Rightarrow> 's fs_async \<Rightarrow> 's dying_host" where
  "destroy_members S es s =
     fold (destroy_member S es) (rev host_members) \<lparr>td_files = s, td_context = True, td_freed = []\<rparr>"

definition freed_late :: "'s dying_host \<Rightarrow> nat list" where
  "freed_late t = map fst (filter (\<lambda>x. \<not> snd x) (td_freed t))"

section \<open>What is freed late\<close>

text \<open>The handlers still posted to the event loop, and only those: the pool goes before the context.\<close>

lemma destroy_members_late:
  "freed_late (destroy_members S es s) = map fst (fa_posted (finish_running S es s))"
  by (simp add: destroy_members_def host_members_def destroy_member_def destroy_pool_def destroy_loop_def
      free_callbacks_def freed_late_def Let_def comp_def)

lemma pool_step_frame:
  assumes "fs_step S e s = Some t" and "pool_event e"
  shows "fa_ops t = fa_ops s \<and> fa_calls t = fa_calls s \<and> set (fa_quiet s) \<subseteq> set (fa_quiet t)"
proof (cases e)
  case (Fe_pool k)
  then obtain i op where t: "t = pool_task S i op (s\<lparr>fa_pool := drop_nth k (fa_pool s)\<rparr>)"
    using assms(1) by (auto simp: fs_step_def split: if_splits prod.splits)
  show ?thesis
    by (cases rule: pool_task_cases [of S i op "s\<lparr>fa_pool := drop_nth k (fa_pool s)\<rparr>"])
      (auto simp: t post_callback_def)
next
  case (Fe_store k)
  then show ?thesis using assms(1)
    by (auto simp: fs_step_def pool_store_def store_pending_def split: if_splits prod.splits)
qed (use assms(2) in \<open>simp_all add: pool_event_def\<close>)

lemma finish_running_frame:
  "fa_ops (finish_running S es s) = fa_ops s \<and> fa_calls (finish_running S es s) = fa_calls s \<and>
   set (fa_quiet s) \<subseteq> set (fa_quiet (finish_running S es s))"
proof (induction es arbitrary: s)
  case (Cons e es)
  have "fa_ops (try_step S e s) = fa_ops s \<and> fa_calls (try_step S e s) = fa_calls s \<and>
      set (fa_quiet s) \<subseteq> set (fa_quiet (try_step S e s))" if "pool_event e"
    using pool_step_frame that by (cases "fs_step S e s") (simp_all add: try_step_def)
  then show ?case using Cons [of "try_step S e s"] Cons [of s] by (auto simp: finish_running_def)
qed (simp add: finish_running_def)

lemma try_step_reachable:
  "reachable (fs_step S) s0 s \<Longrightarrow> reachable (fs_step S) s0 (try_step S e s)"
  by (cases "fs_step S e s") (auto simp: try_step_def intro: reach_next)

lemma finish_running_reachable:
  "reachable (fs_step S) s0 s \<Longrightarrow> reachable (fs_step S) s0 (finish_running S es s)"
  by (induction es arbitrary: s) (simp_all add: finish_running_def try_step_reachable)

text \<open>An operation that was called back, or done without a callback, is not posted.\<close>

lemma answered_not_posted:
  assumes "fs_inv s" and "i \<in> set (map fst (fa_calls s)) \<union> set (fa_quiet s)"
  shows "i \<notin> set (map fst (fa_posted s))"
proof -
  let ?xs = "map fst (fa_posted s) @ map fst (fa_calls s) @ fa_quiet s"
  have "op_ids s = mset (map fst (fa_pool s)) + mset (map fst (fa_regs s)) + mset ?xs"
    by (simp add: op_ids_def del: mset_map)
  then have "mset ?xs \<subseteq># mset [0..<length (fa_ops s)]"
    using assms(1) unfolding fs_inv_def by (metis mset_subset_eq_add_right subset_mset.order_trans)
  then have "distinct ?xs" by (rule distinct_sub_mset) simp
  then show ?thesis using assms(2) by auto
qed

lemma late_not_counted:
  assumes reach: "reachable (fs_step S) (fs_start d) t" and l: "\<not> fa_dead t" and o: "outstanding t = 0"
    and i: "i \<in> set (freed_late (destroy_members S es t))"
  shows "i < length (fa_ops t) \<and> \<not> is_counted (fa_ops t ! i)"
proof -
  define u where "u = finish_running S es t"
  have inv: "fs_inv t" "fs_inv u"
    unfolding u_def
    by (rule file_callbacks_inv [OF reach], rule file_callbacks_inv [OF finish_running_reachable [OF reach]])
  have fr: "fa_ops u = fa_ops t" "fa_calls u = fa_calls t" "set (fa_quiet t) \<subseteq> set (fa_quiet u)"
    unfolding u_def using finish_running_frame [of S es t] by blast+
  have p: "i \<in> set (map fst (fa_posted u))" using i unfolding destroy_members_late u_def .
  then obtain c where "(i, c) \<in> set (fa_posted u)" by force
  then have len: "i < length (fa_ops t)" using inv(2) fr(1) unfolding fs_inv_def ops_ok_def by force
  have "i \<notin> set (map fst (fa_calls u)) \<union> set (fa_quiet u)"
    using answered_not_posted [OF inv(2), of i] p by blast
  then have n: "i \<notin> set (map fst (fa_calls t)) \<union> set (fa_quiet t)" unfolding fr(2) using fr(3) by blast
  have "\<not> is_counted (fa_ops t ! i)"
  proof
    assume "is_counted (fa_ops t ! i)"
    from no_outstanding_answered [OF inv(1) l o len this] n show False by blast
  qed
  then show ?thesis using len by blast
qed

text \<open>
  A whole host and the file operations \<open>files\<close> in it: \<open>pending_ops\<close> is theirs, and whatever microtasks and handlers run,
  and the pool meanwhile, does of them is a sequence of their steps.
\<close>

definition file_host ::
  "('s, 'x) os_scheme \<Rightarrow> ('h \<Rightarrow> 's fs_async) \<Rightarrow> ('v, 'h, 'y) js_scheme \<Rightarrow> ('h, 'z) loop_env_scheme \<Rightarrow> bool" where
  "file_host S files J L \<longleftrightarrow>
     (\<forall>h. lp_pending L h = fa_pending (files h)) \<and>
     (\<forall>h good h1. drain_jobs J h = Some (good, h1) \<longrightarrow> (\<exists>es. run (fs_step S) (files h) es = Some (files h1))) \<and>
     (\<forall>h. files (lp_restart L h) = files h) \<and>
     (\<forall>h. \<exists>es. run (fs_step S) (files h) es = Some (files (lp_run_one L h)))"

lemma run_loop_files:
  assumes "file_host S files J L" and "reachable (fs_step S) s0 (files h)" and "run_loop J L h = Some t"
  shows "reachable (fs_step S) s0 (files t)"
proof (rule run_loop_keeps [OF assms(3), where P = "\<lambda>h. reachable (fs_step S) s0 (files h)"])
  fix h good h1 assume "reachable (fs_step S) s0 (files h)" and "drain_jobs J h = Some (good, h1)"
  then show "reachable (fs_step S) s0 (files h1)"
    using assms(1) run_reachable_from unfolding file_host_def by metis
next
  fix h assume r: "reachable (fs_step S) s0 (files h)"
  define k where "k = (if lp_stopped L h then lp_restart L h else h)"
  have "reachable (fs_step S) s0 (files k)" using assms(1) r by (simp add: k_def file_host_def)
  then have "reachable (fs_step S) s0 (files (lp_run_one L k))"
    using assms(1) run_reachable_from unfolding file_host_def by metis
  then show "reachable (fs_step S) s0 (files (loop_poll L h))" by (simp add: loop_poll_def k_def)
qed (rule assms(2))

text \<open>
  C21: the end of a host after its event loop has returned, whatever else runs on the host.  If no update of
  \<open>pending_ops\<close> was lost and no exception on the pool has ended the process, then, whatever tasks the pool is still
  running, the only JS callbacks that are freed after the context they belong to are those of
  \<open>opendir\<close>, and a host that never called it frees none late.
\<close>

theorem teardown_after_loop:
  assumes "file_host S files J L" and "reachable (fs_step S) (fs_start d) (files h)"
    and "run_loop J L h = Some u"
  defines "t \<equiv> files u"
  shows "fa_dead t \<or> fa_stale t \<or>
    (\<forall>es. list_all (\<lambda>i. i < length (fa_ops t) \<and> \<not> is_counted (fa_ops t ! i)) (freed_late (destroy_members S es t)) \<and>
       (list_all is_counted (fa_ops t) \<longrightarrow> freed_late (destroy_members S es t) = []))"
proof (cases "fa_dead t \<or> fa_stale t")
  case False
  have r: "reachable (fs_step S) (fs_start d) t" unfolding t_def by (rule run_loop_files [OF assms(1-3)])
  have "lp_pending L u \<le> 0" using run_loop_idle [OF assms(3)] by (simp add: loop_busy_def)
  then have p: "fa_pending t \<le> 0" using assms(1) by (simp add: file_host_def t_def)
  have l: "\<not> fa_dead t" and o: "outstanding t = 0"
    using exit_test_exact(2) [OF file_callbacks_inv [OF r]] p False by auto
  have late: "list_all (\<lambda>i. i < length (fa_ops t) \<and> \<not> is_counted (fa_ops t ! i)) (freed_late (destroy_members S es t))"
    for es
    unfolding list_all_iff using late_not_counted [OF r l o] by blast
  have "freed_late (destroy_members S es t) = []" if "list_all is_counted (fa_ops t)" for es
  proof (cases "freed_late (destroy_members S es t)")
    case (Cons i rest)
    then have "i < length (fa_ops t)" "\<not> is_counted (fa_ops t ! i)" using late [of es] by simp_all
    then show ?thesis using that unfolding list_all_length by blast
  qed simp
  then show ?thesis using late by blast
qed blast

text \<open>
  A host of file operations alone, each turn of whose loop finishes the operations of the witness, in one order;
  its \<open>opendir\<close> is with the pool when the loop returns.
\<close>

definition file_demo :: "mem_disk fs_async loop_env" where
  "file_demo =
     \<lparr>lp_pending = fa_pending, lp_http = (\<lambda>s. False), lp_stopped = (\<lambda>s. False), lp_restart = (\<lambda>s. s),
      lp_run_one = (\<lambda>s. case run (fs_step mem_os) s demo_finish of None \<Rightarrow> s | Some t \<Rightarrow> t)\<rparr>"

lemma file_demo_host: "file_host mem_os (\<lambda>s. s) (quiet_js ()) file_demo"
proof -
  have "\<exists>es. run (fs_step mem_os) s es = Some (case run (fs_step mem_os) s demo_finish of None \<Rightarrow> s | Some t \<Rightarrow> t)" for s
    by (cases "run (fs_step mem_os) s demo_finish") (auto intro: exI [of _ "[]"])
  moreover have "\<exists>es. run (fs_step mem_os) (s :: mem_disk fs_async) es = Some s" for s by (rule exI [of _ "[]"]) simp
  ultimately show ?thesis unfolding file_host_def quiet_js_drains by (simp add: file_demo_def)
qed

lemma file_demo_turn:
  assumes "run (fs_step mem_os) s demo_finish = Some t" and "0 < fa_pending s" and "fa_pending t = 0"
  shows "run_loop (quiet_js ()) file_demo s = Some t"
proof -
  have p: "loop_poll file_demo s = t" using assms(1) by (simp add: loop_poll_def file_demo_def)
  have j: "\<not> js_job_pending (quiet_js ()) x" for x :: "mem_disk fs_async" by (simp add: quiet_js_def)
  have "run_loop (quiet_js ()) file_demo t = Some t"
    using assms(3) j by (subst run_loop.simps) (simp add: loop_busy_def file_demo_def quiet_js_drains)
  then show ?thesis
    using assms(2) j p by (subst run_loop.simps) (simp add: loop_busy_def loop_done_def quiet_js_drains file_demo_def)
qed

theorem teardown_after_loop_witness:
  "\<exists>s t. run (fs_step mem_os) (fs_start []) demo_ops = Some s \<and> run_loop (quiet_js ()) file_demo s = Some t \<and>
     map fst (fa_pool t) = [2] \<and>
     list_all (\<lambda>i. i < length (fa_ops t) \<and> \<not> is_counted (fa_ops t ! i)) (freed_late (destroy_members mem_os [Fe_pool 0] t))"
proof -
  have r: "case run (fs_step mem_os) (fs_start []) demo_ops of None \<Rightarrow> False | Some s \<Rightarrow> 0 < fa_pending s \<and>
      (case run (fs_step mem_os) s demo_finish of None \<Rightarrow> False | Some t \<Rightarrow>
         fa_pending t = 0 \<and> \<not> fa_dead t \<and> \<not> fa_stale t \<and> map fst (fa_pool t) = [2])"
    unfolding demo_ops_def demo_finish_def by code_simp
  obtain s where s: "run (fs_step mem_os) (fs_start []) demo_ops = Some s" "0 < fa_pending s"
    and r2: "case run (fs_step mem_os) s demo_finish of None \<Rightarrow> False | Some t \<Rightarrow>
         fa_pending t = 0 \<and> \<not> fa_dead t \<and> \<not> fa_stale t \<and> map fst (fa_pool t) = [2]"
    by (rule run_resultE [OF r]) (elim conjE, rule that)
  obtain t where t: "run (fs_step mem_os) s demo_finish = Some t" "fa_pending t = 0" "\<not> fa_dead t" "\<not> fa_stale t"
      "map fst (fa_pool t) = [2]"
    by (rule run_resultE [OF r2]) (elim conjE, rule that)
  have l: "run_loop (quiet_js ()) file_demo s = Some t" by (rule file_demo_turn [OF t(1) s(2) t(2)])
  from teardown_after_loop [OF file_demo_host run_reachable [OF s(1)] l] t(3,4)
  have "list_all (\<lambda>i. i < length (fa_ops t) \<and> \<not> is_counted (fa_ops t ! i)) (freed_late (destroy_members mem_os [Fe_pool 0] t))"
    by blast
  then show ?thesis using s(1) l t(5) by (intro exI [of _ s] exI [of _ t] conjI)
qed

text \<open>An \<open>opendir\<close> that the pool finishes while the host is destroyed leaves its callback to the event loop.\<close>

lemma opendir_freed_late:
  "fs_step mem_os (Fe_opendir ''d'') (fs_start []) = Some s \<Longrightarrow>
   fa_pending s = 0 \<and> freed_late (destroy_members mem_os [Fe_pool 0] s) = [0]"
  by (auto simp: fs_step_def fs_start_def destroy_members_late finish_running_def pool_event_def try_step_def
      native_opendir_def post_op_def pool_task_def opendir_task_def post_callback_def)

text \<open>
  A lost update can outlive the host.  After a write without a callback whose store met that of a read,
  \<open>pending_ops\<close> is 0 and the event loop may return; when the pool finishes the read while the host is destroyed,
  the callback of the read is freed after the context it belongs to.
\<close>

theorem lost_read_freed_late:
  "\<exists>s. run (fs_step mem_os) (fs_start []) lost_increment = Some s \<and> fa_pending s = 0 \<and> fa_handler s = None \<and>
     fa_ops s ! 1 = Fo_read ''a'' [] \<and> freed_late (destroy_members mem_os [Fe_pool 0] s) = [1]"
proof -
  have r: "case run (fs_step mem_os) (fs_start []) lost_increment of None \<Rightarrow> False | Some s \<Rightarrow>
      fa_pending s = 0 \<and> fa_handler s = None \<and> fa_ops s ! 1 = Fo_read ''a'' [] \<and>
      freed_late (destroy_members mem_os [Fe_pool 0] s) = [1]"
    unfolding lost_increment_def by code_simp
  show ?thesis by (rule run_resultE [OF r]) blast
qed

end
