(* ===== verification/FunctionWrappers.thy ===== *)
theory FunctionWrappers
  imports FunctionRegistry
begin

text \<open>
  The typed registrations of \<open>src/function_registry.hpp\<close>: a C++ callable of any signature is wrapped
  into the low-level adapter that the registry stores.  A signature is the list of its parameter
  types; a callable is a function of the converted arguments.
\<close>

section \<open>Sync callables\<close>

definition make_sync_wrapper ::
  "('v, 'h, 'x) js_conv_scheme \<Rightarrow> ('v cpp list \<Rightarrow> 'h \<Rightarrow> 'v fn_out \<times> 'h) \<Rightarrow> reg_param list \<Rightarrow> ('v, 'h) sync_fn" where
  "make_sync_wrapper J fn ps = (\<lambda>host args h. invoke_sync_impl J host fn ps args h)"

definition register_typed_function ::
  "('v, 'h, 'x) js_conv_scheme \<Rightarrow> nat \<Rightarrow> string \<Rightarrow> ('v cpp list \<Rightarrow> 'h \<Rightarrow> 'v fn_out \<times> 'h) \<Rightarrow> reg_param list
     \<Rightarrow> (('v, 'h) sync_fn, 'g) reg_world \<Rightarrow> (('v, 'h) sync_fn, 'g) reg_world" where
  "register_typed_function J host name fn ps w = register_function host name (make_sync_wrapper J fn ps) w"

definition register_typed_global_function ::
  "('v, 'h, 'x) js_conv_scheme \<Rightarrow> string \<Rightarrow> ('v cpp list \<Rightarrow> 'h \<Rightarrow> 'v fn_out \<times> 'h) \<Rightarrow> reg_param list
     \<Rightarrow> (('v, 'h) sync_fn, 'g) reg_world \<Rightarrow> (('v, 'h) sync_fn, 'g) reg_world" where
  "register_typed_global_function J name fn ps w = register_global_function name (make_sync_wrapper J fn ps) w"

section \<open>Async callables\<close>

text \<open>
  Calling the callable makes its own lazy task \<open>'k\<close>, or throws.  The adapter returns a lazy task that
  has not run: \<open>lz_args\<close> are its copies of the arguments.
\<close>

datatype 'k lazy_out = Lo_lazy 'k | Lo_convert_error | Lo_runtime_error string | Lo_other

record ('v, 'h, 'k) typed_lazy =
  lz_fn :: "'v cpp list \<Rightarrow> 'h \<Rightarrow> 'k lazy_out \<times> 'h"
  lz_params :: "reg_param list"
  lz_host :: nat
  lz_args :: "'v qvalue list"

definition make_async_wrapper ::
  "('v cpp list \<Rightarrow> 'h \<Rightarrow> 'k lazy_out \<times> 'h) \<Rightarrow> reg_param list \<Rightarrow> ('v, ('v, 'h, 'k) typed_lazy) async_fn" where
  "make_async_wrapper fn ps = (\<lambda>host args. \<lparr>lz_fn = fn, lz_params = ps, lz_host = host, lz_args = args\<rparr>)"

definition register_typed_async_function ::
  "nat \<Rightarrow> string \<Rightarrow> ('v cpp list \<Rightarrow> 'h \<Rightarrow> 'k lazy_out \<times> 'h) \<Rightarrow> reg_param list
     \<Rightarrow> ('f, ('v, ('v, 'h, 'k) typed_lazy) async_fn) reg_world \<Rightarrow> ('f, ('v, ('v, 'h, 'k) typed_lazy) async_fn) reg_world" where
  "register_typed_async_function host name fn ps w = register_async_function host name (make_async_wrapper fn ps) w"

definition register_typed_global_async_function ::
  "string \<Rightarrow> ('v cpp list \<Rightarrow> 'h \<Rightarrow> 'k lazy_out \<times> 'h) \<Rightarrow> reg_param list
     \<Rightarrow> ('f, ('v, ('v, 'h, 'k) typed_lazy) async_fn) reg_world \<Rightarrow> ('f, ('v, ('v, 'h, 'k) typed_lazy) async_fn) reg_world" where
  "register_typed_global_async_function name fn ps w = register_global_async_function name (make_async_wrapper fn ps) w"

text \<open>\<open>invoke_async_impl\<close> up to its \<open>co_await\<close>, and from there on; \<open>Inl\<close> is how the lazy task ends.\<close>

definition async_begin ::
  "('v, 'h, 'x) js_conv_scheme \<Rightarrow> ('v, 'h, 'k) typed_lazy \<Rightarrow> 'h \<Rightarrow> ('v call_out + 'k) \<times> 'h" where
  "async_begin J l h =
     (if length (lz_args l) < count_js_args (lz_params l)
      then (Inl Co_convert_error, js_throw_type_error J ''not enough arguments'' h)
      else
        (case build_call_args J (lz_host l) (lz_args l) (lz_params l) 0 h of
           (None, _, h') \<Rightarrow> (Inl Co_convert_error, h')
         | (Some cs, _, h') \<Rightarrow>
             (case lz_fn l cs h' of
                (Lo_lazy k, h'') \<Rightarrow> (Inr k, h'')
              | (Lo_convert_error, h'') \<Rightarrow> (Inl Co_convert_error, h'')
              | (Lo_runtime_error m, h'') \<Rightarrow> (Inl (Co_std_error m), h'')
              | (Lo_other, h'') \<Rightarrow> (Inl Co_other, h''))))"

definition async_end :: "('v, 'h, 'x) js_conv_scheme \<Rightarrow> 'v fn_out \<Rightarrow> 'h \<Rightarrow> 'v call_out \<times> 'h" where
  "async_end J r h =
     (case r of
        Fo_return c \<Rightarrow> (case to_value J c h of None \<Rightarrow> (Co_other, h) | Some (q, h') \<Rightarrow> (Co_value q, h'))
      | Fo_convert_error \<Rightarrow> (Co_convert_error, h)
      | Fo_runtime_error m \<Rightarrow> (Co_std_error m, h)
      | Fo_other \<Rightarrow> (Co_other, h))"

section \<open>Both forms agree\<close>

text \<open>Arguments past the ones the signature asks for are ignored.\<close>

lemma build_call_args_extra:
  "i + count_js_args ps \<le> length args \<Longrightarrow>
   build_call_args J host (args @ extra) ps i h = build_call_args J host args ps i h"
proof (induction ps arbitrary: i h)
  case (Cons p ps)
  have p: "pull_arg_at J host (args @ extra) p i h = pull_arg_at J host args p i h"
    using Cons.prems by (cases p) (simp_all add: pull_arg_at_def is_host_arg_def nth_append)
  have next_: "i' + count_js_args ps \<le> length args" if "pull_arg_at J host args p i h = (Some c, i', h')" for c i' h'
    using pull_arg_at_moves [OF that] Cons.prems by simp
  obtain r i' h' where e: "pull_arg_at J host args p i h = (r, i', h')" by (metis prod_cases3)
  then show ?case using p Cons.IH [of i' h'] next_ by (cases r) simp_all
qed simp

text \<open>
  A callable registered with a type, called from JS: with too few arguments it does not run and the
  call raises a \<open>TypeError\<close>; further arguments make no difference.
\<close>

theorem typed_call_arity:
  assumes "find_sync_function i n w = Some (make_sync_wrapper J fn ps)"
  shows "(length args < count_js_args ps \<longrightarrow> native_call J w (Some i) n args s =
      (Nc_value (js_exception J), s\<lparr>cs_heap := js_throw_type_error J ''not enough arguments'' (cs_heap s)\<rparr>)) \<and>
    (count_js_args ps \<le> length args \<longrightarrow>
      native_call J w (Some i) n (args @ extra) s = native_call J w (Some i) n args s)"
  using build_call_args_extra [of 0 ps args J i extra]
  by (simp add: native_call_def assms make_sync_wrapper_def invoke_sync_impl_def)

text \<open>
  An async callable whose own task ends at once, with no effect in between, settles its promise with
  what a sync callable of the same signature and result would have answered.
\<close>

definition ready_fn :: "('v cpp list \<Rightarrow> 'h \<Rightarrow> 'v fn_out \<times> 'h) \<Rightarrow> 'v cpp list \<Rightarrow> 'h \<Rightarrow> 'v fn_out lazy_out \<times> 'h" where
  "ready_fn fn cs h = (case fn cs h of (r, h') \<Rightarrow> (Lo_lazy r, h'))"

theorem async_wrapper_agrees:
  "(case async_begin J (make_async_wrapper (ready_fn fn) ps host args) h of
      (Inl out, h') \<Rightarrow> (out, h')
    | (Inr r, h') \<Rightarrow> async_end J r h') = make_sync_wrapper J fn ps host args h"
  by (auto simp: async_begin_def make_async_wrapper_def make_sync_wrapper_def invoke_sync_impl_def ready_fn_def
      async_end_def split: prod.splits option.splits fn_out.splits)

text \<open>What a name registered with a type is found as.\<close>

lemma typed_lookup:
  "find_sync_function i n (register_typed_function J i n fn ps w) = Some (make_sync_wrapper J fn ps)"
  "sync_functions (rw_host w i) n = None \<Longrightarrow>
     find_sync_function i n (register_typed_global_function J n fn ps w) = Some (make_sync_wrapper J fn ps)"
  "find_async_function i n (register_typed_async_function i n g ps v) = Some (make_async_wrapper g ps)"
  "async_functions (rw_host v i) n = None \<Longrightarrow>
     find_async_function i n (register_typed_global_async_function n g ps v) = Some (make_async_wrapper g ps)"
  by (simp_all add: registry_lookup register_typed_function_def register_typed_global_function_def
      register_typed_async_function_def register_typed_global_async_function_def)

end
