(* ===== verification/UniqueHandles.thy ===== *)
theory UniqueHandles
  imports Prelude "HOL-Library.Multiset"
begin

text \<open>
  The classes that own one handle of a C library: \<open>curl_http::Easy\<close> and \<open>Multi\<close>
  (\<open>src/curl_http.hpp\<close>), \<open>qjs::Runtime\<close> and \<open>Context\<close> (\<open>src/qjs.hpp\<close>).  The objects of one class
  are the slots of a state: a destroyed object is \<open>None\<close>, a null one \<open>Some None\<close>.  Handles are
  numbered in the order the library made them; \<open>ow_freed\<close> are those given back to it.

  The locale \<open>scoped_owner\<close> is the contract of a class that can only be made and destroyed,
  \<open>movable_owner\<close> extends it by the two moves.
\<close>

section \<open>Objects\<close>

record owner_sys =
  ow_slots :: "nat option option list"
  ow_made :: nat
  ow_freed :: "nat list"

definition owners_init :: owner_sys where
  "owners_init = \<lparr>ow_slots = [], ow_made = 0, ow_freed = []\<rparr>"

definition living :: "nat \<Rightarrow> owner_sys \<Rightarrow> bool" where
  "living i s \<longleftrightarrow> i < length (ow_slots s) \<and> ow_slots s ! i \<noteq> None"

definition handle_of :: "nat \<Rightarrow> owner_sys \<Rightarrow> nat option" where
  "handle_of i s = (case ow_slots s ! i of None \<Rightarrow> None | Some h \<Rightarrow> h)"

definition set_slot :: "nat \<Rightarrow> nat option option \<Rightarrow> owner_sys \<Rightarrow> owner_sys" where
  "set_slot i x s = s\<lparr>ow_slots := (ow_slots s)[i := x]\<rparr>"

definition new_object :: "nat option \<Rightarrow> owner_sys \<Rightarrow> owner_sys" where
  "new_object h s = s\<lparr>ow_slots := ow_slots s @ [Some h]\<rparr>"

text \<open>What the library does: a constructor that fails gives null.\<close>

definition library_make :: "bool \<Rightarrow> owner_sys \<Rightarrow> nat option \<times> owner_sys" where
  "library_make good s = (if good then (Some (ow_made s), s\<lparr>ow_made := Suc (ow_made s)\<rparr>) else (None, s))"

definition library_free :: "nat \<Rightarrow> owner_sys \<Rightarrow> owner_sys" where
  "library_free h s = s\<lparr>ow_freed := ow_freed s @ [h]\<rparr>"

section \<open>The classes\<close>

text \<open>\<open>Easy\<close>: \<open>curl_easy_init\<close>, \<open>curl_easy_cleanup\<close>.\<close>

definition easy_new :: "bool \<Rightarrow> owner_sys \<Rightarrow> owner_sys" where
  "easy_new good s = (case library_make good s of (h, s1) \<Rightarrow> new_object h s1)"

definition easy_reset :: "nat \<Rightarrow> owner_sys \<Rightarrow> owner_sys" where
  "easy_reset i s = (case handle_of i s of None \<Rightarrow> s | Some h \<Rightarrow> set_slot i (Some None) (library_free h s))"

definition easy_destroy :: "nat \<Rightarrow> owner_sys \<Rightarrow> owner_sys" where
  "easy_destroy i s = set_slot i None (easy_reset i s)"

definition easy_move :: "nat \<Rightarrow> owner_sys \<Rightarrow> owner_sys" where
  "easy_move j s = new_object (handle_of j s) (set_slot j (Some None) s)"

definition easy_move_assign :: "nat \<Rightarrow> nat \<Rightarrow> owner_sys \<Rightarrow> owner_sys" where
  "easy_move_assign i j s =
     (if i = j then s
      else (let s1 = easy_reset i s in set_slot j (Some None) (set_slot i (Some (handle_of j s1)) s1)))"

text \<open>\<open>Multi\<close>: \<open>curl_multi_init\<close>, \<open>curl_multi_cleanup\<close>.\<close>

definition multi_new :: "bool \<Rightarrow> owner_sys \<Rightarrow> owner_sys" where
  "multi_new good s = (case library_make good s of (h, s1) \<Rightarrow> new_object h s1)"

definition multi_destroy :: "nat \<Rightarrow> owner_sys \<Rightarrow> owner_sys" where
  "multi_destroy i s =
     set_slot i None (case handle_of i s of None \<Rightarrow> s | Some h \<Rightarrow> library_free h s)"

text \<open>\<open>Runtime\<close>: \<open>JS_NewRuntime\<close>, \<open>JS_FreeRuntime\<close>.\<close>

definition runtime_new :: "bool \<Rightarrow> owner_sys \<Rightarrow> owner_sys" where
  "runtime_new good s = (case library_make good s of (h, s1) \<Rightarrow> new_object h s1)"

definition runtime_destroy :: "nat \<Rightarrow> owner_sys \<Rightarrow> owner_sys" where
  "runtime_destroy i s =
     set_slot i None (case handle_of i s of None \<Rightarrow> s | Some h \<Rightarrow> library_free h s)"

definition runtime_move :: "nat \<Rightarrow> owner_sys \<Rightarrow> owner_sys" where
  "runtime_move j s = set_slot j (Some None) (new_object (handle_of j s) s)"

definition runtime_move_assign :: "nat \<Rightarrow> nat \<Rightarrow> owner_sys \<Rightarrow> owner_sys" where
  "runtime_move_assign i j s =
     (if i = j then s
      else (let s1 = (case handle_of i s of None \<Rightarrow> s | Some h \<Rightarrow> library_free h s);
                s2 = set_slot i (Some (handle_of j s1)) s1
            in set_slot j (Some None) s2))"

text \<open>\<open>Context\<close>: \<open>JS_NewContext\<close>, \<open>JS_FreeContext\<close>.\<close>

definition context_new :: "bool \<Rightarrow> owner_sys \<Rightarrow> owner_sys" where
  "context_new good s = (case library_make good s of (h, s1) \<Rightarrow> new_object h s1)"

definition context_destroy :: "nat \<Rightarrow> owner_sys \<Rightarrow> owner_sys" where
  "context_destroy i s =
     set_slot i None (case handle_of i s of None \<Rightarrow> s | Some h \<Rightarrow> library_free h s)"

section \<open>The contract\<close>

text \<open>Every handle the library made is held by exactly one object or was freed exactly once.\<close>

definition held :: "nat option option list \<Rightarrow> nat multiset" where
  "held xs = mset (List.map_filter (\<lambda>x. case x of None \<Rightarrow> None | Some h \<Rightarrow> h) xs)"

definition owners_ok :: "owner_sys \<Rightarrow> bool" where
  "owners_ok s \<longleftrightarrow> held (ow_slots s) + mset (ow_freed s) = mset [0..<ow_made s]"

datatype owner_event = Oe_new bool | Oe_destroy nat | Oe_move nat | Oe_assign nat nat

fun scoped_step ::
  "(bool \<Rightarrow> owner_sys \<Rightarrow> owner_sys) \<Rightarrow> (nat \<Rightarrow> owner_sys \<Rightarrow> owner_sys) \<Rightarrow> owner_event \<Rightarrow> owner_sys \<Rightarrow> owner_sys option" where
  "scoped_step new destroy (Oe_new good) s = Some (new good s)"
| "scoped_step new destroy (Oe_destroy i) s = (if living i s then Some (destroy i s) else None)"
| "scoped_step new destroy _ s = None"

fun movable_step ::
  "(bool \<Rightarrow> owner_sys \<Rightarrow> owner_sys) \<Rightarrow> (nat \<Rightarrow> owner_sys \<Rightarrow> owner_sys) \<Rightarrow> (nat \<Rightarrow> owner_sys \<Rightarrow> owner_sys)
     \<Rightarrow> (nat \<Rightarrow> nat \<Rightarrow> owner_sys \<Rightarrow> owner_sys) \<Rightarrow> owner_event \<Rightarrow> owner_sys \<Rightarrow> owner_sys option" where
  "movable_step new destroy move assign (Oe_move j) s = (if living j s then Some (move j s) else None)"
| "movable_step new destroy move assign (Oe_assign i j) s =
     (if living i s \<and> living j s then Some (assign i j s) else None)"
| "movable_step new destroy move assign e s = scoped_step new destroy e s"

lemma owners_okD:
  assumes "owners_ok s"
  shows "distinct (ow_freed s)" "set (ow_freed s) \<subseteq> {0..<ow_made s}"
proof -
  have m: "held (ow_slots s) + mset (ow_freed s) = mset [0..<ow_made s]" using assms by (simp add: owners_ok_def)
  obtain xs where "mset xs = held (ow_slots s)" using ex_mset by blast
  then have e: "mset (xs @ ow_freed s) = mset [0..<ow_made s]" using m by simp
  then have "distinct (xs @ ow_freed s)" using mset_eq_imp_distinct_iff distinct_upt by blast
  then show "distinct (ow_freed s)" by simp
  show "set (ow_freed s) \<subseteq> {0..<ow_made s}" using mset_eq_setD [OF e] by auto
qed

lemma owners_ok_finished:
  assumes "owners_ok s" and "list_all (\<lambda>x. x = None \<or> x = Some None) (ow_slots s)"
  shows "mset (ow_freed s) = mset [0..<ow_made s]"
proof -
  have "held xs = {#}" if "list_all (\<lambda>x. x = None \<or> x = Some None) xs" for xs
    using that by (induction xs) (auto simp: held_def map_filter_simps)
  then show ?thesis using assms by (simp add: owners_ok_def)
qed

locale scoped_owner =
  fixes new :: "bool \<Rightarrow> owner_sys \<Rightarrow> owner_sys"
    and destroy :: "nat \<Rightarrow> owner_sys \<Rightarrow> owner_sys"
  assumes new_ok: "owners_ok s \<Longrightarrow> owners_ok (new good s)"
    and destroy_ok: "owners_ok s \<Longrightarrow> living i s \<Longrightarrow> owners_ok (destroy i s)"
    and destroyed: "living i s \<Longrightarrow> \<not> living i (destroy i s)"
begin

lemma scoped_step_ok: "owners_ok s \<Longrightarrow> scoped_step new destroy e s = Some t \<Longrightarrow> owners_ok t"
  by (cases e) (auto simp: new_ok destroy_ok split: if_splits)

end

lemma owners_init_ok: "owners_ok owners_init"
  by (simp add: owners_ok_def owners_init_def held_def map_filter_simps)

sublocale scoped_owner \<subseteq> machine "scoped_step new destroy" owners_init owners_ok
  by unfold_locales (rule owners_init_ok, rule scoped_step_ok)

locale movable_owner = scoped_owner +
  fixes move :: "nat \<Rightarrow> owner_sys \<Rightarrow> owner_sys"
    and assign :: "nat \<Rightarrow> nat \<Rightarrow> owner_sys \<Rightarrow> owner_sys"
  assumes move_ok: "owners_ok s \<Longrightarrow> living j s \<Longrightarrow> owners_ok (move j s)"
    and assign_ok: "owners_ok s \<Longrightarrow> living i s \<Longrightarrow> living j s \<Longrightarrow> owners_ok (assign i j s)"
begin

lemma movable_step_ok: "owners_ok s \<Longrightarrow> movable_step new destroy move assign e s = Some t \<Longrightarrow> owners_ok t"
  by (cases e) (auto simp: move_ok assign_ok new_ok destroy_ok split: if_splits)

end

sublocale movable_owner \<subseteq> movable: machine "movable_step new destroy move assign" owners_init owners_ok
  by unfold_locales (rule owners_init_ok, rule movable_step_ok)

section \<open>The classes meet it\<close>

definition cell :: "nat option option \<Rightarrow> nat multiset" where
  "cell x = (case x of Some (Some h) \<Rightarrow> {#h#} | _ \<Rightarrow> {#})"

lemma cell_simps [simp]: "cell None = {#}" "cell (Some None) = {#}" "cell (Some (Some h)) = {#h#}"
  by (simp_all add: cell_def)

lemma held_simps [simp]: "held [] = {#}" "held (x # xs) = cell x + held xs" "held (xs @ ys) = held xs + held ys"
  by (auto simp: held_def cell_def map_filter_def split: option.split)

lemma held_update: "i < length xs \<Longrightarrow> held (xs[i := x]) + cell (xs ! i) = held xs + cell x"
  by (induction xs arbitrary: i) (auto simp: nth_Cons union_ac split: nat.split)

text \<open>The balance of a state: what the library made, less what is held or freed.\<close>

definition owed :: "owner_sys \<Rightarrow> nat multiset" where
  "owed s = held (ow_slots s) + mset (ow_freed s)"

lemma owners_ok_owed: "owners_ok s \<longleftrightarrow> owed s = mset [0..<ow_made s]"
  by (simp add: owners_ok_def owed_def)

lemma owed_set_slot:
  "i < length (ow_slots s) \<Longrightarrow> owed (set_slot i x s) + cell (ow_slots s ! i) = owed s + cell x"
  using held_update [of i "ow_slots s" x] by (simp add: owed_def set_slot_def union_ac)

definition release :: "nat \<Rightarrow> owner_sys \<Rightarrow> owner_sys" where
  "release i s = (case handle_of i s of None \<Rightarrow> s | Some h \<Rightarrow> library_free h s)"

lemma living_cell: "living i s \<Longrightarrow> cell (ow_slots s ! i) = cell (Some (handle_of i s))"
  by (auto simp: living_def handle_of_def)

lemma release_frame [simp]: "ow_slots (release i s) = ow_slots s" "ow_made (release i s) = ow_made s"
  by (simp_all add: release_def library_free_def split: option.split)

lemma set_slot_frame [simp]: "ow_made (set_slot i x s) = ow_made s" "ow_slots (set_slot i x s) = (ow_slots s)[i := x]"
  by (simp_all add: set_slot_def)

lemma owed_release: "owed (release i s) = owed s + cell (Some (handle_of i s))"
  by (simp add: release_def owed_def library_free_def split: option.split)

lemma owed_replace:
  assumes "living i s"
  shows "owed (set_slot i x (release i s)) = owed s + cell x"
proof -
  have "i < length (ow_slots (release i s))" using assms by (simp add: living_def)
  from owed_set_slot [OF this, of x] show ?thesis
    using living_cell [OF assms] by (simp add: owed_release)
qed

lemma owed_vacate:
  "living j s \<Longrightarrow> owed (set_slot j (Some None) s) + cell (Some (handle_of j s)) = owed s"
  using owed_set_slot [of j s "Some None"] living_cell [of j s] by (simp add: living_def)

lemma owed_new_object: "owed (new_object h s) = owed s + cell (Some h)" "ow_made (new_object h s) = ow_made s"
  by (simp_all add: new_object_def owed_def)

lemma make_ok: "owners_ok s \<Longrightarrow> owners_ok (case library_make good s of (h, s1) \<Rightarrow> new_object h s1)"
  by (auto simp: library_make_def owners_ok_def new_object_def simp del: mset_upt)

lemma release_ok: "owners_ok s \<Longrightarrow> living i s \<Longrightarrow> owners_ok (set_slot i None (release i s))"
  by (simp add: owners_ok_owed owed_replace)

lemma easy_reset_release:
  assumes "living i s"
  shows "easy_reset i s = set_slot i (Some None) (release i s)"
proof (cases "handle_of i s")
  case None
  then have "ow_slots s ! i = Some None" using assms by (auto simp: living_def handle_of_def)
  then have "(ow_slots s)[i := Some None] = ow_slots s" by (metis list_update_id)
  then show ?thesis using None by (simp add: easy_reset_def release_def set_slot_def)
qed (simp add: easy_reset_def release_def)

lemma set_slot_twice [simp]: "set_slot i x (set_slot i y s) = set_slot i x s"
  by (simp add: set_slot_def)

lemma easy_destroy_release: "living i s \<Longrightarrow> easy_destroy i s = set_slot i None (release i s)"
  by (simp add: easy_destroy_def easy_reset_release)

lemma handle_of_other: "i \<noteq> j \<Longrightarrow> handle_of j (set_slot i x (release i s)) = handle_of j s"
  by (simp add: handle_of_def)

lemma living_other: "i \<noteq> j \<Longrightarrow> living j (set_slot i x (release i s)) = living j s"
  by (simp add: living_def)

lemma owed_assign:
  assumes "living i s" "living j s" "i \<noteq> j"
  shows "owed (set_slot j (Some None) (set_slot i (Some (handle_of j s)) (release i s))) = owed s"
proof -
  let ?t = "set_slot i (Some (handle_of j s)) (release i s)"
  have "owed (set_slot j (Some None) ?t) + cell (Some (handle_of j ?t)) = owed ?t"
    using assms by (intro owed_vacate) (simp add: living_other)
  then have "owed (set_slot j (Some None) ?t) + cell (Some (handle_of j s)) = owed s + cell (Some (handle_of j s))"
    using assms by (simp add: handle_of_other owed_replace)
  then show ?thesis by simp
qed

interpretation easy: movable_owner easy_new easy_destroy easy_move easy_move_assign
proof unfold_locales
  fix s i j good
  assume ok: "owners_ok s"
  show "owners_ok (easy_new good s)" unfolding easy_new_def by (rule make_ok [OF ok])
  assume j: "living j s"
  show "owners_ok (easy_move j s)"
    using ok owed_vacate [OF j] by (simp add: easy_move_def owners_ok_owed owed_new_object)
  assume i: "living i s"
  show "owners_ok (easy_move_assign i j s)"
    using ok owed_assign [OF i j]
    by (simp add: easy_move_assign_def owners_ok_owed easy_reset_release [OF i] handle_of_other Let_def)
next
  fix s i
  assume i: "living i s"
  show "\<not> living i (easy_destroy i s)" by (simp add: easy_destroy_release [OF i] living_def)
  assume "owners_ok s"
  then show "owners_ok (easy_destroy i s)" unfolding easy_destroy_release [OF i] by (rule release_ok [OF _ i])
qed

interpretation runtime: movable_owner runtime_new runtime_destroy runtime_move runtime_move_assign
proof unfold_locales
  fix s i j good
  assume ok: "owners_ok s"
  show "owners_ok (runtime_new good s)" unfolding runtime_new_def by (rule make_ok [OF ok])
  assume j: "living j s"
  have "runtime_move j s = easy_move j s"
    using j by (simp add: runtime_move_def easy_move_def new_object_def set_slot_def living_def list_update_append)
  then show "owners_ok (runtime_move j s)" using easy.move_ok [OF ok j] by simp
  assume i: "living i s"
  show "owners_ok (runtime_move_assign i j s)"
    using ok owed_assign [OF i j]
    by (simp add: runtime_move_assign_def owners_ok_owed release_def [symmetric] Let_def) (simp add: handle_of_def)
next
  fix s i
  assume i: "living i s"
  have e: "runtime_destroy i s = set_slot i None (release i s)" by (simp add: runtime_destroy_def release_def)
  show "\<not> living i (runtime_destroy i s)" by (simp add: e living_def)
  assume "owners_ok s"
  then show "owners_ok (runtime_destroy i s)" unfolding e by (rule release_ok [OF _ i])
qed

interpretation multi: scoped_owner multi_new multi_destroy
  by unfold_locales
    (simp_all add: multi_new_def make_ok multi_destroy_def release_def [symmetric] release_ok living_def)

interpretation context_owner: scoped_owner context_new context_destroy
  by unfold_locales
    (simp_all add: context_new_def make_ok context_destroy_def release_def [symmetric] release_ok living_def)

text \<open>
  In any program of constructions, moves, assignments (to itself too) and destructions, the handles of
  libcurl and of QuickJS are freed at most once, and all of them when every object is destroyed or null.
\<close>

theorem handles_freed_once:
  assumes "reachable (movable_step easy_new easy_destroy easy_move easy_move_assign) owners_init s \<or>
    reachable (movable_step runtime_new runtime_destroy runtime_move runtime_move_assign) owners_init s \<or>
    reachable (scoped_step multi_new multi_destroy) owners_init s \<or>
    reachable (scoped_step context_new context_destroy) owners_init s"
  shows "distinct (ow_freed s) \<and> set (ow_freed s) \<subseteq> {0..<ow_made s} \<and>
    (list_all (\<lambda>x. x = None \<or> x = Some None) (ow_slots s) \<longrightarrow> mset (ow_freed s) = mset [0..<ow_made s])"
proof -
  have ok: "owners_ok s"
    using assms easy.movable.reachable_inv runtime.movable.reachable_inv multi.reachable_inv context_owner.reachable_inv
    by blast
  show ?thesis using owners_okD [OF ok] owners_ok_finished [OF ok] by blast
qed

theorem handles_freed_once_witness:
  "\<exists>s. reachable (movable_step easy_new easy_destroy easy_move easy_move_assign) owners_init s \<and>
     ow_freed s = [1, 0] \<and> ow_made s = 2 \<and> mset (ow_freed s) = mset [0..<2]"
proof -
  define ev where "ev = [Oe_new True, Oe_new True, Oe_move 0, Oe_assign 1 2, Oe_assign 1 1, Oe_new False, Oe_destroy 0, Oe_destroy 1]"
  have r: "case run (movable_step easy_new easy_destroy easy_move easy_move_assign) owners_init ev of
      None \<Rightarrow> False
    | Some s \<Rightarrow> ow_freed s = [1, 0] \<and> ow_made s = 2 \<and> list_all (\<lambda>x. x = None \<or> x = Some None) (ow_slots s)"
    unfolding ev_def by code_simp
  obtain s where s: "run (movable_step easy_new easy_destroy easy_move easy_move_assign) owners_init ev = Some s"
    and p: "ow_freed s = [1, 0]" "ow_made s = 2" "list_all (\<lambda>x. x = None \<or> x = Some None) (ow_slots s)"
    by (rule run_resultE [OF r]) (elim conjE, rule that)
  note reach = run_reachable [OF s]
  have "mset (ow_freed s) = mset [0..<ow_made s]"
    using handles_freed_once [OF disjI1, OF reach] p(3) by blast
  then show ?thesis using reach p(1,2) by (intro exI [of _ s]) simp
qed

end
