(* ===== verification/Executor.thy ===== *)
theory Executor
  imports Prelude "HOL-Library.Multiset"
begin

text \<open>
  \<open>AsioExecutor\<close> (\<open>src/asio_executor.hpp\<close>): how a task of async_simple reaches the \<open>io_context\<close>.  A task is a
  number.  \<open>asio::post\<close> queues it; \<open>asio::dispatch\<close> runs it at once when the caller is a handler of the
  loop (\<open>inside\<close>) and queues it otherwise.  The bits of a schedule request from which on a task has to
  yield are a constant of async_simple, \<open>yield\<close>.
\<close>

section \<open>State and operations\<close>

text \<open>\<open>ex_waiting\<close> are the tasks behind a timer, \<open>ex_started\<close> those that ran, in order.\<close>

record asio_executor =
  ex_posted :: "nat list"
  ex_waiting :: "nat list"
  ex_started :: "nat list"

definition executor_init :: asio_executor where
  "executor_init = \<lparr>ex_posted = [], ex_waiting = [], ex_started = []\<rparr>"

definition asio_post :: "nat \<Rightarrow> asio_executor \<Rightarrow> asio_executor" where
  "asio_post f s = s\<lparr>ex_posted := ex_posted s @ [f]\<rparr>"

definition asio_dispatch :: "bool \<Rightarrow> nat \<Rightarrow> asio_executor \<Rightarrow> asio_executor" where
  "asio_dispatch inside f s = (if inside then s\<lparr>ex_started := ex_started s @ [f]\<rparr> else asio_post f s)"

definition schedule :: "nat \<Rightarrow> asio_executor \<Rightarrow> bool \<times> asio_executor" where
  "schedule f s = (True, asio_post f s)"

definition schedule_with :: "64 word \<Rightarrow> 64 word \<Rightarrow> bool \<Rightarrow> nat \<Rightarrow> asio_executor \<Rightarrow> bool \<times> asio_executor" where
  "schedule_with yield info inside f s =
     (True, if and info 15 \<ge> yield then asio_post f s else asio_dispatch inside f s)"

definition checkin :: "bool \<Rightarrow> nat \<Rightarrow> asio_executor \<Rightarrow> bool \<times> asio_executor" where
  "checkin inside f s = (True, asio_dispatch inside f s)"

definition schedule_after :: "nat \<Rightarrow> asio_executor \<Rightarrow> asio_executor" where
  "schedule_after f s = s\<lparr>ex_waiting := ex_waiting s @ [f]\<rparr>"

text \<open>The handler of the timer, which does not look at its error code.\<close>

definition timer_handler :: "nat \<Rightarrow> asio_executor \<Rightarrow> asio_executor" where
  "timer_handler k s =
     s\<lparr>ex_waiting := take k (ex_waiting s) @ drop (Suc k) (ex_waiting s),
       ex_started := ex_started s @ [ex_waiting s ! k]\<rparr>"

definition current_thread_in_executor :: bool where
  "current_thread_in_executor = True"

datatype exec_event =
    Xe_schedule nat | Xe_schedule_with "64 word" bool nat | Xe_checkin bool nat | Xe_after nat | Xe_timer nat | Xe_loop

fun exec_step :: "64 word \<Rightarrow> exec_event \<Rightarrow> asio_executor \<Rightarrow> asio_executor option" where
  "exec_step y (Xe_schedule f) s = Some (snd (schedule f s))"
| "exec_step y (Xe_schedule_with info inside f) s = Some (snd (schedule_with y info inside f s))"
| "exec_step y (Xe_checkin inside f) s = Some (snd (checkin inside f s))"
| "exec_step y (Xe_after f) s = Some (schedule_after f s)"
| "exec_step y (Xe_timer k) s = (if k < length (ex_waiting s) then Some (timer_handler k s) else None)"
| "exec_step y Xe_loop s =
     (case ex_posted s of
        [] \<Rightarrow> None
      | f # fs \<Rightarrow> Some (s\<lparr>ex_posted := fs, ex_started := ex_started s @ [f]\<rparr>))"

section \<open>Each task runs once\<close>

fun given :: "exec_event \<Rightarrow> nat list" where
  "given (Xe_schedule f) = [f]"
| "given (Xe_schedule_with info inside f) = [f]"
| "given (Xe_checkin inside f) = [f]"
| "given (Xe_after f) = [f]"
| "given _ = []"

definition tasks_of :: "asio_executor \<Rightarrow> nat multiset" where
  "tasks_of s = mset (ex_posted s) + mset (ex_waiting s) + mset (ex_started s)"

lemma exec_step_tasks: "exec_step y e s = Some t \<Longrightarrow> tasks_of t = tasks_of s + mset (given e)"
proof (cases e)
  case (Xe_timer k)
  assume st: "exec_step y e s = Some t"
  then have k: "k < length (ex_waiting s)" and t: "t = timer_handler k s" using Xe_timer by (auto split: if_splits)
  have "mset (ex_waiting s) = mset (take k (ex_waiting s) @ ex_waiting s ! k # drop (Suc k) (ex_waiting s))"
    using id_take_nth_drop [OF k] by metis
  then show ?thesis by (simp add: Xe_timer t tasks_of_def timer_handler_def)
qed (auto simp: tasks_of_def schedule_def schedule_with_def checkin_def schedule_after_def asio_post_def
    asio_dispatch_def split: list.splits if_splits)

text \<open>What \<open>given\<close> says over a run: a task is queued, waiting or has run, and that once each time it was given.\<close>

lemma executor_keeps_tasks:
  "run (exec_step y) s es = Some t \<Longrightarrow> tasks_of t = tasks_of s + mset (concat (map given es))"
proof (induction es arbitrary: s)
  case (Cons e es)
  then obtain u where u: "exec_step y e s = Some u" "run (exec_step y) u es = Some t" by (auto split: option.splits)
  show ?case using Cons.IH [OF u(2)] exec_step_tasks [OF u(1)] by simp
qed simp

text \<open>
  A task given to the executor is queued, behind a timer or has run, exactly once each time it was
  given; the loop starts the oldest one queued; and a task that has to yield is always queued, so it
  never starts before the call that scheduled it returns.
\<close>

theorem executor_runs_once:
  assumes "run (exec_step y) executor_init es = Some t"
  shows "mset (concat (map given es)) = mset (ex_posted t) + mset (ex_waiting t) + mset (ex_started t)"
    "and info 15 \<ge> y \<Longrightarrow> schedule_with y info inside f t = schedule f t"
    "ex_posted t = g # gs \<Longrightarrow> exec_step y Xe_loop t = Some (t\<lparr>ex_posted := gs, ex_started := ex_started t @ [g]\<rparr>)"
  using executor_keeps_tasks [OF assms] by (simp_all add: tasks_of_def executor_init_def schedule_with_def schedule_def)

end
