(* ===== verification/ChannelAwait.thy ===== *)
theory ChannelAwait
  imports Mpsc Oneshot
begin

text \<open>
  What \<open>co_await rx.recv()\<close> does (\<open>src/channel.hpp\<close>): \<open>recv\<close> only wraps the receiver's state pointer.  A
  coroutine of async_simple awaits it through \<open>coAwait\<close> with its executor; any other one uses the
  same object as an awaiter, with a null executor.  A null state pointer, which \<open>recv\<close> of a detached
  receiver hands out, is dereferenced: \<open>None\<close> is undefined behaviour.
\<close>

section \<open>Awaitables and awaiters\<close>

type_synonym awaitable = "nat option"
type_synonym awaiter = "nat option \<times> executor option"

definition co_await_on :: "executor option \<Rightarrow> awaitable \<Rightarrow> awaiter" where
  "co_await_on ex p = (p, ex)"

definition awaiter_ready :: "('s \<Rightarrow> bool) \<Rightarrow> (nat \<Rightarrow> 's) \<Rightarrow> awaiter \<Rightarrow> bool option" where
  "awaiter_ready ready m w = map_option (\<lambda>a. ready (m a)) (fst w)"

definition awaiter_suspend ::
  "(handle \<Rightarrow> executor option \<Rightarrow> 's \<Rightarrow> bool \<times> 's) \<Rightarrow> handle \<Rightarrow> (nat \<Rightarrow> 's) \<Rightarrow> awaiter \<Rightarrow> (bool \<times> (nat \<Rightarrow> 's)) option" where
  "awaiter_suspend suspend h m w =
     map_option (\<lambda>a. case suspend h (snd w) (m a) of (b, st) \<Rightarrow> (b, m(a := st))) (fst w)"

definition awaiter_resume ::
  "('s \<Rightarrow> 'a option \<times> 's) \<Rightarrow> (nat \<Rightarrow> 's) \<Rightarrow> awaiter \<Rightarrow> ('a option \<times> (nat \<Rightarrow> 's)) option" where
  "awaiter_resume resume m w =
     map_option (\<lambda>a. case resume (m a) of (v, st) \<Rightarrow> (v, m(a := st))) (fst w)"

text \<open>\<open>mpsc_recv_awaitable\<close>\<close>

definition mpsc_co_await :: "executor option \<Rightarrow> awaitable \<Rightarrow> awaiter" where
  "mpsc_co_await ex p = co_await_on ex p"

definition mpsc_plain_ready :: "(nat \<Rightarrow> 'a mpsc_state) \<Rightarrow> awaitable \<Rightarrow> bool option" where
  "mpsc_plain_ready m p = awaiter_ready mpsc_await_ready m (p, None)"

definition mpsc_plain_suspend ::
  "handle \<Rightarrow> (nat \<Rightarrow> 'a mpsc_state) \<Rightarrow> awaitable \<Rightarrow> (bool \<times> (nat \<Rightarrow> 'a mpsc_state)) option" where
  "mpsc_plain_suspend h m p = awaiter_suspend mpsc_await_suspend h m (p, None)"

definition mpsc_plain_resume ::
  "(nat \<Rightarrow> 'a mpsc_state) \<Rightarrow> awaitable \<Rightarrow> ('a option \<times> (nat \<Rightarrow> 'a mpsc_state)) option" where
  "mpsc_plain_resume m p = awaiter_resume mpsc_await_resume m (p, None)"

text \<open>\<open>oneshot_recv_awaitable\<close>, \<open>oneshot::Receiver::recv\<close> and the constructors of the handles\<close>

definition oneshot_co_await :: "executor option \<Rightarrow> awaitable \<Rightarrow> awaiter" where
  "oneshot_co_await ex p = co_await_on ex p"

definition oneshot_plain_ready :: "(nat \<Rightarrow> 'a oneshot_state) \<Rightarrow> awaitable \<Rightarrow> bool option" where
  "oneshot_plain_ready m p = awaiter_ready oneshot_await_ready m (p, None)"

definition oneshot_plain_suspend ::
  "handle \<Rightarrow> (nat \<Rightarrow> 'a oneshot_state) \<Rightarrow> awaitable \<Rightarrow> (bool \<times> (nat \<Rightarrow> 'a oneshot_state)) option" where
  "oneshot_plain_suspend h m p = awaiter_suspend oneshot_await_suspend h m (p, None)"

definition oneshot_plain_resume ::
  "(nat \<Rightarrow> 'a oneshot_state) \<Rightarrow> awaitable \<Rightarrow> ('a option \<times> (nat \<Rightarrow> 'a oneshot_state)) option" where
  "oneshot_plain_resume m p = awaiter_resume oneshot_await_resume m (p, None)"

definition os_receiver_recv :: "os_receiver \<Rightarrow> awaitable" where
  "os_receiver_recv self = self"

definition os_sender_bool :: "os_sender \<Rightarrow> bool" where
  "os_sender_bool self \<longleftrightarrow> self \<noteq> None"

definition os_sender_move :: "os_sender \<Rightarrow> os_sender \<times> os_sender" where
  "os_sender_move src = (src, None)"

definition os_receiver_move :: "os_receiver \<Rightarrow> os_receiver \<times> os_receiver" where
  "os_receiver_move src = (src, None)"

section \<open>Where a waiter is resumed\<close>

text \<open>
  The contract of an awaited channel, which both kinds meet: a receiver that is not ready suspends, and
  what wakes it does so where the awaiter says.
\<close>

locale awaited =
  fixes ready :: "'s \<Rightarrow> bool"
    and suspend :: "handle \<Rightarrow> executor option \<Rightarrow> 's \<Rightarrow> bool \<times> 's"
    and send :: "'a \<Rightarrow> 's \<Rightarrow> bool \<times> 's \<times> wake list"
    and close :: "'s \<Rightarrow> 's \<times> wake list"
  assumes suspends: "fst (suspend h ex st) = (\<not> ready st)"
    and sent_wakes: "suspend h ex st = (True, st') \<Longrightarrow> send v st' = (good, st2, ws) \<Longrightarrow> ws = wake_waiter (Some h) ex"
    and close_wakes: "suspend h ex st = (True, st') \<Longrightarrow> close st' = (st2, ws) \<Longrightarrow> ws = wake_waiter (Some h) ex"
begin

lemma resumed_where_awaited:
  assumes "awaiter_suspend suspend h m (co_await_on ex p) = Some (True, m')"
  obtains a where "p = Some a" "\<not> ready (m a)"
    "snd (close (m' a)) = wake_waiter (Some h) ex"
    "\<And>v. snd (snd (send v (m' a))) = wake_waiter (Some h) ex"
proof -
  obtain a st where p: "p = Some a" and s: "suspend h ex (m a) = (True, st)" and m': "m' = m(a := st)"
    using assms by (cases p; cases "suspend h ex (m (the p))") (auto simp: awaiter_suspend_def co_await_on_def)
  show thesis
  proof (rule that [OF p])
    show "\<not> ready (m a)" using suspends [of h ex "m a"] s by simp
    show "snd (close (m' a)) = wake_waiter (Some h) ex"
      using close_wakes [OF s] m' by (cases "close st") simp
    show "snd (snd (send v (m' a))) = wake_waiter (Some h) ex" for v
      using sent_wakes [OF s] m' by (cases "send v st") auto
  qed
qed

end

interpretation mpsc_awaited: awaited mpsc_await_ready mpsc_await_suspend mpsc_send mpsc_close
  by unfold_locales (auto simp: mpsc_defs split: if_splits)

interpretation oneshot_awaited: awaited oneshot_await_ready oneshot_await_suspend oneshot_send oneshot_close
  by unfold_locales (auto simp: oneshot_defs split: if_splits)

text \<open>
  A receiver awaited from a coroutine with an executor is resumed by a task on that executor, whoever
  sends or closes; one awaited from any other coroutine is resumed on the thread of the sender.
\<close>

theorem awaited_resumption:
  "mpsc_plain_suspend h m p = awaiter_suspend mpsc_await_suspend h m (mpsc_co_await None p)"
  "oneshot_plain_suspend h n p = awaiter_suspend oneshot_await_suspend h n (oneshot_co_await None p)"
  "awaiter_suspend mpsc_await_suspend h m (mpsc_co_await ex (Some a)) = Some (True, m') \<Longrightarrow>
     snd (snd (mpsc_send v (m' a))) = (case ex of Some e \<Rightarrow> [Schedule e h] | None \<Rightarrow> [Resume h])"
  "awaiter_suspend oneshot_await_suspend h n (oneshot_co_await ex (Some a)) = Some (True, n') \<Longrightarrow>
     snd (snd (oneshot_send w (n' a))) = (case ex of Some e \<Rightarrow> [Schedule e h] | None \<Rightarrow> [Resume h])"
proof -
  assume "awaiter_suspend mpsc_await_suspend h m (mpsc_co_await ex (Some a)) = Some (True, m')"
  then show "snd (snd (mpsc_send v (m' a))) = (case ex of Some e \<Rightarrow> [Schedule e h] | None \<Rightarrow> [Resume h])"
    unfolding mpsc_co_await_def by (rule mpsc_awaited.resumed_where_awaited) (auto split: option.split)
next
  assume "awaiter_suspend oneshot_await_suspend h n (oneshot_co_await ex (Some a)) = Some (True, n')"
  then show "snd (snd (oneshot_send w (n' a))) = (case ex of Some e \<Rightarrow> [Schedule e h] | None \<Rightarrow> [Resume h])"
    unfolding oneshot_co_await_def by (rule oneshot_awaited.resumed_where_awaited) (auto split: option.split)
qed (simp_all add: mpsc_plain_suspend_def oneshot_plain_suspend_def mpsc_co_await_def oneshot_co_await_def co_await_on_def)

end
