(* ===== verification/HostBlock.thy ===== *)
theory HostBlock
  imports HostLoop
begin

text \<open>
  \<open>Host::block_on\<close> (\<open>src/host.hpp\<close>): start a lazy task and drive the event loop until the host is idle,
  then take the outcome its completion callback has stored.

  The callback is a step of whatever handler finishes the task; \<open>te_out\<close> are the local variables \<open>out\<close>
  and \<open>ep\<close> it writes, \<open>Inl\<close> an exception.  \<open>te_start\<close> is \<open>via(&ex).start\<close>, which may run the task up to
  its first suspension or to its end.
\<close>

section \<open>block_on\<close>

record ('h, 'e, 'v) task_env = "'h loop_env" +
  te_add_pending :: "int \<Rightarrow> 'h \<Rightarrow> 'h"
  te_out :: "'h \<Rightarrow> ('e + 'v) option"
  te_set_out :: "('e + 'v) option \<Rightarrow> 'h \<Rightarrow> 'h"
  te_start :: "'h \<Rightarrow> 'h"

definition block_callback :: "('h, 'e, 'v, 'y) task_env_scheme \<Rightarrow> 'e + 'v \<Rightarrow> 'h \<Rightarrow> 'h" where
  "block_callback E r h = te_add_pending E (- 1) (te_set_out E (Some r) h)"

definition block_begin :: "('h, 'e, 'v, 'y) task_env_scheme \<Rightarrow> 'h \<Rightarrow> 'h" where
  "block_begin E h = te_start E (te_add_pending E 1 (te_set_out E None h))"

text \<open>How it ends: by rethrowing, by returning, or by taking a value that is not there.\<close>

datatype ('e, 'v) blocked = Rethrows 'e | Gives 'v | No_value

definition block_result :: "('e + 'v) option \<Rightarrow> ('e, 'v) blocked" where
  "block_result out = (case out of None \<Rightarrow> No_value | Some (Inl e) \<Rightarrow> Rethrows e | Some (Inr v) \<Rightarrow> Gives v)"

definition block_on ::
  "('w, 'h, 'x) js_scheme \<Rightarrow> ('h, 'e, 'v, 'y) task_env_scheme \<Rightarrow> 'h \<Rightarrow> (('e, 'v) blocked \<times> 'h) option" where
  "block_on J E h = map_option (\<lambda>t. (block_result (te_out E t), t)) (run_loop J E (block_begin E h))"

text \<open>The overload for \<open>Lazy<void>\<close>; an outcome that is not there reads as success.\<close>

definition block_on_void ::
  "('w, 'h, 'x) js_scheme \<Rightarrow> ('h, 'e, unit, 'y) task_env_scheme \<Rightarrow> 'h \<Rightarrow> (('e, unit) blocked \<times> 'h) option" where
  "block_on_void J E h =
     map_option (\<lambda>t. (case te_out E t of Some (Inl e) \<Rightarrow> Rethrows e | _ \<Rightarrow> Gives (), t)) (run_loop J E (block_begin E h))"

text \<open>The thread of a managed host (\<open>HostManager::run_host_thread\<close>).\<close>

definition run_host_thread :: "('w, 'h, 'x) js_scheme \<Rightarrow> ('h, 'y) loop_env_scheme \<Rightarrow> 'h \<Rightarrow> 'h option" where
  "run_host_thread J E host = run_loop J E host"

section \<open>It returns with the outcome\<close>

text \<open>\<open>pending_ops\<close> is the task, until its callback has run, and \<open>others\<close>.\<close>

definition counts_task :: "('h, 'e, 'v, 'y) task_env_scheme \<Rightarrow> ('h \<Rightarrow> int) \<Rightarrow> 'h \<Rightarrow> bool" where
  "counts_task E others h \<longleftrightarrow>
     0 \<le> others h \<and> lp_pending E h = others h + (if te_out E h = None then 1 else 0)"

lemma idle_has_outcome:
  assumes "counts_task E others t" and "\<not> loop_busy J E t"
  shows "te_out E t \<noteq> None \<and> others t = 0"
  using assms by (auto simp: counts_task_def loop_busy_def split: if_splits)

text \<open>The callback keeps the account.\<close>

lemma block_callback_counts:
  assumes "counts_task E others h" and "te_out E h = None"
    and "\<And>d k. lp_pending E (te_add_pending E d k) = lp_pending E k + d"
    and "\<And>d k. te_out E (te_add_pending E d k) = te_out E k" and "\<And>d k. others (te_add_pending E d k) = others k"
    and "\<And>r k. te_out E (te_set_out E r k) = r" and "\<And>r k. lp_pending E (te_set_out E r k) = lp_pending E k"
    and "\<And>r k. others (te_set_out E r k) = others k"
  shows "counts_task E others (block_callback E r h)"
  using assms by (simp add: counts_task_def block_callback_def)

text \<open>
  If the loop makes progress and \<open>pending_ops\<close> counts the task, \<open>block_on\<close> returns the outcome of the task,
  never a value that is not there, and only once everything else the host has pending is through.
\<close>

theorem block_on_returns:
  assumes "loop_progress J E P m" and "P (block_begin E h)" and "\<And>k. P k \<Longrightarrow> counts_task E others k"
  shows "\<exists>r t. block_on J E h = Some (block_result (Some r), t) \<and> te_out E t = Some r \<and> others t = 0 \<and> P t"
proof -
  obtain t where t: "run_loop J E (block_begin E h) = Some t" "P t" "\<not> loop_busy J E t"
    using run_loop_ends [OF assms(1,2)] by blast
  have "te_out E t \<noteq> None \<and> others t = 0" using assms(3) [OF t(2)] t(3) by (rule idle_has_outcome)
  then show ?thesis using t(1,2) by (auto simp: block_on_def)
qed

text \<open>But while an HTTP server runs it does not return, though the task be long done.\<close>

lemma block_on_serving:
  "keeps_busy J E (lp_http E) \<Longrightarrow> lp_http E (block_begin E h) \<Longrightarrow> block_on J E h = None"
  by (simp add: block_on_def run_loop_serves)

text \<open>A task that needs \<open>left\<close> turns of the loop, beside other operations of the host.\<close>

record demo_task =
  dt_left :: nat
  dt_others :: nat
  dt_pending :: int
  dt_out :: "(string + nat) option"

definition task_demo :: "(demo_task, string, nat) task_env" where
  "task_demo =
     \<lparr>lp_pending = dt_pending, lp_http = (\<lambda>h. False), lp_stopped = (\<lambda>h. False), lp_restart = (\<lambda>h. h),
      lp_run_one = (\<lambda>h.
        if 1 < dt_left h then h\<lparr>dt_left := dt_left h - 1\<rparr>
        else if dt_left h = 1 then h\<lparr>dt_left := 0, dt_out := Some (Inr 42), dt_pending := dt_pending h - 1\<rparr>
        else h\<lparr>dt_others := dt_others h - 1, dt_pending := dt_pending h - 1\<rparr>),
      te_add_pending = (\<lambda>d h. h\<lparr>dt_pending := dt_pending h + d\<rparr>), te_out = dt_out,
      te_set_out = (\<lambda>r h. h\<lparr>dt_out := r\<rparr>), te_start = (\<lambda>h. h\<lparr>dt_left := 3\<rparr>)\<rparr>"

definition task_demo_ok :: "demo_task \<Rightarrow> bool" where
  "task_demo_ok h \<longleftrightarrow> (dt_left h = 0 \<longleftrightarrow> dt_out h \<noteq> None) \<and> counts_task task_demo (\<lambda>k. int (dt_others k)) h"

lemma task_demo_progress: "loop_progress (quiet_js ()) task_demo task_demo_ok (\<lambda>h. dt_left h + dt_others h)"
  unfolding loop_progress_def quiet_js_drains asio_context_def
  by (auto simp: task_demo_def task_demo_ok_def counts_task_def quiet_js_def split: if_splits)

theorem block_on_returns_witness:
  "\<exists>r t. block_on (quiet_js ()) task_demo \<lparr>dt_left = 0, dt_others = 2, dt_pending = 2, dt_out = None\<rparr>
     = Some (block_result (Some r), t) \<and> dt_others t = 0"
proof -
  let ?h = "\<lparr>dt_left = 0, dt_others = 2, dt_pending = 2, dt_out = None\<rparr>"
  have p: "task_demo_ok (block_begin task_demo ?h)"
    by (simp add: task_demo_ok_def counts_task_def block_begin_def task_demo_def)
  have c: "task_demo_ok k \<Longrightarrow> counts_task task_demo (\<lambda>k. int (dt_others k)) k" for k
    by (simp add: task_demo_ok_def)
  show ?thesis using block_on_returns [OF task_demo_progress p c] by auto
qed

end
