(* ===== verification/HostShutdown.thy ===== *)
theory HostShutdown
  imports HostReplies
begin

text \<open>
  \<open>HostManager::destroy_host\<close> and \<open>HostManager::~HostManager\<close> (\<open>src/host_manager.cpp\<close>) as whole calls, with
  the events of the other threads between their parts, and the small overloads of \<open>create_host\<close>.
\<close>

section \<open>destroy_host\<close>

text \<open>
  What happens during the call: the events between the unlocking of the table and the closing of the queue,
  those before the drain loop ends, whether it ended by its deadline, and those before the thread of the
  host has left.  A call whose \<open>join\<close> does not return
  by then has not returned: \<open>None\<close>.
\<close>

type_synonym ('v, 'h) destroy_wait =
  "('v, 'h) mgr_event list \<times> ('v, 'h) mgr_event list \<times> bool \<times> ('v, 'h) mgr_event list"

definition destroy_host ::
  "('v, 'h, 'x) js_scheme \<Rightarrow> ('v, 'h) destroy_wait \<Rightarrow> string \<Rightarrow> 'h mgr \<Rightarrow> (bool \<times> 'h mgr) option" where
  "destroy_host J w host_id s =
     (case destroy_unlist host_id s of
        (None, s0) \<Rightarrow> Some (False, s0)
      | (Some sl, s0) \<Rightarrow>
          (case w of (gap, drain, late, leave) \<Rightarrow>
             map_option (Pair True)
               (Option.bind (run (mgr_step J) s0 gap) (\<lambda>s1.
                Option.bind (destroy_close (sl_host sl) s1) (\<lambda>s2.
                Option.bind (run (mgr_step J) s2 drain) (\<lambda>s3.
                Option.bind (mgr_step J (L_teardown late (sl_host sl)) s3) (\<lambda>s4.
                Option.bind (run (mgr_step J) s4 leave) (\<lambda>s5.
                if join_returns J (sl_host sl) s5 then Some s5 else None))))))))"

fun destroy_hosts ::
  "('v, 'h, 'x) js_scheme \<Rightarrow> (('v, 'h) destroy_wait \<times> string) list \<Rightarrow> 'h mgr \<Rightarrow> 'h mgr option" where
  "destroy_hosts J [] s = Some s"
| "destroy_hosts J ((w, host_id) # ws) s =
     Option.bind (destroy_host J w host_id s) (\<lambda>(_, t). destroy_hosts J ws t)"

text \<open>\<open>ids\<close> are the keys of the table in the order the hash map lists them.\<close>

definition mgr_destructor ::
  "('v, 'h, 'x) js_scheme \<Rightarrow> ('v, 'h) destroy_wait list \<Rightarrow> string list \<Rightarrow> 'h mgr \<Rightarrow> 'h mgr option" where
  "mgr_destructor J ws ids s = destroy_hosts J (zip ws ids) s"

definition create_host_setup :: "string \<Rightarrow> bool \<Rightarrow> bool \<Rightarrow> 'h \<Rightarrow> 'h mgr \<Rightarrow> (string + string) \<times> 'h mgr" where
  "create_host_setup uuid built installed heap s =
     create_host uuid \<lparr>co_id = [], co_max_in_flight = 64\<rparr> built installed heap s"

section \<open>What it leaves\<close>

lemma destroy_host_parts:
  assumes "destroy_host J w host_id s = Some (b, t)"
  obtains (absent) "mg_hosts s host_id = None" "\<not> b" "t = s"
  | (gone) sl late s1 s2 s3 s4 gap drain leave where "mg_hosts s host_id = Some sl" "b" "w = (gap, drain, late, leave)"
      "run (mgr_step J) (snd (destroy_unlist host_id s)) gap = Some s1" "destroy_close (sl_host sl) s1 = Some s2"
      "run (mgr_step J) s2 drain = Some s3" "mgr_step J (L_teardown late (sl_host sl)) s3 = Some s4"
      "run (mgr_step J) s4 leave = Some t" "join_returns J (sl_host sl) t"
proof (cases "mg_hosts s host_id")
  case None
  then show ?thesis using assms by (intro absent) (auto simp: destroy_host_def destroy_unlist_def)
next
  case (Some sl)
  obtain gap drain late leave where w: "w = (gap, drain, late, leave)" by (cases w)
  obtain s0 where u: "destroy_unlist host_id s = (Some sl, s0)" and s0: "snd (destroy_unlist host_id s) = s0"
    using Some by (simp add: destroy_unlist_def)
  obtain s1 s2 s3 s4 where "run (mgr_step J) s0 gap = Some s1"
    "destroy_close (sl_host sl) s1 = Some s2" "run (mgr_step J) s2 drain = Some s3"
    "mgr_step J (L_teardown late (sl_host sl)) s3 = Some s4" "run (mgr_step J) s4 leave = Some t"
    "join_returns J (sl_host sl) t" "b"
    using assms Some unfolding destroy_host_def w
    by (auto simp: u Option.bind_eq_Some_conv simp del: mgr_step.simps split: if_splits)
  then show ?thesis using gone [OF Some _ w] s0 by blast
qed

lemma destroy_host_run:
  assumes "destroy_host J w host_id s = Some (b, t)"
  shows "\<exists>es. run (mgr_step J) s es = Some t"
  using assms
proof (cases rule: destroy_host_parts)
  case (gone sl late s1 s2 s3 s4 gap drain leave)
  have "run (mgr_step J) s (L_unlist host_id # gap @ L_close (sl_host sl) # drain @ L_teardown late (sl_host sl) # leave) = Some t"
    using gone by (simp add: run_append)
  then show ?thesis by blast
next
  case absent
  then have "run (mgr_step J) s [] = Some t" by simp
  then show ?thesis by blast
qed

lemma destroy_host_reachable:
  "reachable (mgr_step J) (mgr_init heap) s \<Longrightarrow> destroy_host J w host_id s = Some (b, t) \<Longrightarrow>
     reachable (mgr_step J) (mgr_init heap) t"
  using destroy_host_run run_reachable_from by metis

text \<open>Every job the host has accepted by the time the call returns is answered, whatever else happened meanwhile.\<close>

lemma destroy_host_answers:
  assumes "reachable (mgr_step J) (mgr_init heap) s" and "destroy_host J w host_id s = Some (b, t)"
    and "mg_hosts s host_id = Some sl" and "mg_issued t < 2 ^ 64 - 1"
    and "a \<in> mg_accepted t" and "mg_task_host t (mg_cell_task t a) = sl_host sl"
  shows "os_sent (om_cells (mg_replies t) a)"
  using assms(2)
proof (cases rule: destroy_host_parts)
  case (gone sl' late s1 s2 s3 s4 gap drain leave)
  have r: "reachable (mgr_step J) (mgr_init heap) t" using destroy_host_reachable [OF assms(1,2)] .
  show ?thesis using unanswered_carried(2) [OF r assms(4,5)] gone assms(3,6) by auto
qed (simp add: assms(3))

section \<open>Without other callers\<close>

text \<open>
  No member of a manager may be called while its destructor runs, so the events in between are those of
  the host threads and of the clients that wait for replies.
\<close>

fun internal :: "('v, 'h) mgr_event \<Rightarrow> bool" where
  "internal (L_create uuid opts ok1 ok2 heap) = False"
| "internal (L_lock host_id fn a) = False"
| "internal (L_send i) = False"
| "internal (L_unlist host_id) = False"
| "internal (L_close h) = False"
| "internal (L_teardown late h) = False"
| "internal _ = True"

definition quiet_wait :: "('v, 'h) destroy_wait \<Rightarrow> bool" where
  "quiet_wait w = 
     (case w of (gap, drain, _, leave) \<Rightarrow> list_all internal (gap @ drain @ leave))"

text \<open>What such events keep: the accounts of the manager, and that an answer stays.\<close>

definition history :: "'h mgr \<Rightarrow> 'h mgr \<Rightarrow> bool" where
  "history s t \<longleftrightarrow>
     mg_accepted t = mg_accepted s \<and> mg_task_host t = mg_task_host s \<and> mg_cell_task t = mg_cell_task s \<and>
     mg_issued t = mg_issued s \<and>
     (\<forall>a. os_sent (om_cells (mg_replies s) a) \<longrightarrow> os_sent (om_cells (mg_replies t) a))"

lemma history_refl [simp]: "history s s"
  by (simp add: history_def)

lemma history_trans: "history s t \<Longrightarrow> history t u \<Longrightarrow> history s u"
  by (simp add: history_def)

lemma job_reply_history:
  "history s (job_reply h i j r heap (s\<lparr>mg_bridges := b\<rparr>))"
  "mg_hosts (job_reply h i j r heap (s\<lparr>mg_bridges := b\<rparr>)) = mg_hosts s"
  by (auto simp: history_def job_reply_def set_running_def reply_job_def os_sender_send_def oneshot_send_def
      split: prod.splits option.splits if_splits)

lemma internal_step:
  assumes "mgr_step J e s = Some t" and "internal e"
  shows "history s t \<and> mg_hosts t = mg_hosts s"
  using assms
proof (cases e)
  case (L_recv h)
  then show ?thesis using assms(1)
    by (auto simp: worker_recv_def history_def split: worker.splits option.splits prod.splits if_splits)
next
  case (L_start h i)
  then have "job_start J h i s = Some t" using assms(1) by (simp split: if_splits)
  then show ?thesis
    by (auto dest!: job_start_cases simp: job_reply_history) (simp_all add: history_def set_running_def)
next
  case (L_settle h i magic argv)
  then have "job_settle J h i magic argv s = Some t" using assms(1) by (simp split: if_splits)
  then show ?thesis by (auto dest!: job_settle_cases simp: job_reply_history) (simp add: history_def)
next
  case (L_dispatch h)
  then show ?thesis using assms(1) by (auto simp: worker_dispatch_def history_def split: worker.splits if_splits)
next
  case (L_finish h i)
  then show ?thesis using assms(1) by (auto simp: job_finish_def forget_task_def history_def split: if_splits)
qed (auto simp: history_def cancel_def host_runs_def oneshot_await_suspend_def oneshot_await_resume_def
    split: if_splits option.splits)

lemma internal_run:
  "run (mgr_step J) s es = Some t \<Longrightarrow> list_all internal es \<Longrightarrow> history s t \<and> mg_hosts t = mg_hosts s"
proof (induction es arbitrary: s)
  case (Cons e es)
  then obtain u where u: "mgr_step J e s = Some u" "run (mgr_step J) u es = Some t" by (auto split: option.splits)
  have "history s u \<and> mg_hosts u = mg_hosts s" using internal_step [OF u(1)] Cons.prems(2) by simp
  moreover have "history u t \<and> mg_hosts t = mg_hosts u" using Cons.IH [OF u(2)] Cons.prems(2) by simp
  ultimately show ?case using history_trans by metis
qed simp

lemma destroy_parts_history:
  "history s (snd (destroy_unlist host_id s))"
  "mg_hosts (snd (destroy_unlist host_id s)) = (mg_hosts s)(host_id := None)"
  by (auto simp: destroy_unlist_def history_def split: option.splits)

lemma close_history: "destroy_close h s = Some t \<Longrightarrow> history s t \<and> mg_hosts t = mg_hosts s"
  using jobs_close(2,3,6) [of h s t] by (simp add: history_def same_tables_def)

lemma teardown_history:
  "mgr_step J (L_teardown late h) s = Some t \<Longrightarrow> history s t \<and> mg_hosts t = mg_hosts s"
  by (auto simp: teardown_def history_def split: if_splits)

lemma destroy_host_history:
  assumes "destroy_host J w host_id s = Some (b, t)" and "quiet_wait w"
  shows "history s t \<and> mg_hosts t = (mg_hosts s)(host_id := None)"
  using assms(1)
proof (cases rule: destroy_host_parts)
  case absent
  then show ?thesis by (simp add: fun_upd_idem)
next
  case (gone sl late s1 s2 s3 s4 gap drain leave)
  have q: "list_all internal gap" "list_all internal drain" "list_all internal leave"
    using assms(2) gone(3) by (simp_all add: quiet_wait_def)
  note a = internal_run [OF gone(4) q(1)] close_history [OF gone(5)] internal_run [OF gone(6) q(2)]
    teardown_history [OF gone(7)] internal_run [OF gone(8) q(3)]
  have "history s t" using destroy_parts_history(1) a history_trans by metis
  moreover have "mg_hosts t = (mg_hosts s)(host_id := None)"
    using a destroy_parts_history(2) [of host_id s] by simp
  ultimately show ?thesis by simp
qed

lemma destroy_hosts_answers:
  assumes "destroy_hosts J ws s = Some t" and "reachable (mgr_step J) (mgr_init heap) s"
    and "mg_issued s < 2 ^ 64 - 1" and "list_all (quiet_wait \<circ> fst) ws"
  shows "history s t \<and> mg_hosts t = (\<lambda>k. if k \<in> snd ` set ws then None else mg_hosts s k) \<and>
    (\<forall>k \<in> snd ` set ws. \<forall>sl a. mg_hosts s k = Some sl \<longrightarrow> a \<in> mg_accepted s \<longrightarrow>
       mg_task_host s (mg_cell_task s a) = sl_host sl \<longrightarrow> os_sent (om_cells (mg_replies t) a))"
  using assms
proof (induction ws arbitrary: s)
  case (Cons x ws)
  obtain w k where x: "x = (w, k)" by (cases x)
  obtain b u where d: "destroy_host J w k s = Some (b, u)" and rest: "destroy_hosts J ws u = Some t"
    using Cons.prems(1) by (auto simp: x Option.bind_eq_Some_conv)
  have hu: "history s u" and tu: "mg_hosts u = (mg_hosts s)(k := None)"
    using destroy_host_history [OF d] Cons.prems(4) by (simp_all add: x)
  have ru: "reachable (mgr_step J) (mgr_init heap) u" by (rule destroy_host_reachable [OF Cons.prems(2) d])
  have iu: "mg_issued u < 2 ^ 64 - 1" using hu Cons.prems(3) by (simp add: history_def)
  note ih = Cons.IH [OF rest ru iu]
  have ih1: "history u t" and ih2: "mg_hosts t = (\<lambda>k. if k \<in> snd ` set ws then None else mg_hosts u k)"
    and ih3: "\<And>k sl a. k \<in> snd ` set ws \<Longrightarrow> mg_hosts u k = Some sl \<Longrightarrow> a \<in> mg_accepted u \<Longrightarrow>
       mg_task_host u (mg_cell_task u a) = sl_host sl \<Longrightarrow> os_sent (om_cells (mg_replies t) a)"
    using ih Cons.prems(4) by auto
  have here: "os_sent (om_cells (mg_replies t) a)"
    if "mg_hosts s k = Some sl" "a \<in> mg_accepted s" "mg_task_host s (mg_cell_task s a) = sl_host sl" for sl a
  proof -
    have "os_sent (om_cells (mg_replies u) a)"
      using destroy_host_answers [OF Cons.prems(2) d that(1) iu] that hu by (simp add: history_def)
    then show ?thesis using ih1 by (simp add: history_def)
  qed
  have there: "os_sent (om_cells (mg_replies t) a)"
    if "k' \<in> snd ` set ws" "k' \<noteq> k" "mg_hosts s k' = Some sl" "a \<in> mg_accepted s"
      "mg_task_host s (mg_cell_task s a) = sl_host sl" for k' sl a
    using ih3 [OF that(1)] that hu by (simp add: tu history_def)
  have "mg_hosts t = (\<lambda>k'. if k' \<in> snd ` set (x # ws) then None else mg_hosts s k')"
    using ih2 tu by (auto simp: x fun_eq_iff)
  moreover have "os_sent (om_cells (mg_replies t) a)"
    if "k' \<in> snd ` set (x # ws)" "mg_hosts s k' = Some sl" "a \<in> mg_accepted s"
      "mg_task_host s (mg_cell_task s a) = sl_host sl" for k' sl a
    using here there [OF _ _ that(2-4)] that by (cases "k' = k") (simp_all add: x)
  ultimately show ?case using history_trans [OF hu ih1] by blast
qed simp

text \<open>
  C6: the destructor of the manager answers everyone.  When it returns, whatever the host threads did
  in the meantime, no host is left and every job that a listed host had accepted has been answered.
\<close>

theorem destructor_answers_all:
  assumes "reachable (mgr_step J) (mgr_init heap) s" and "mg_issued s < 2 ^ 64 - 1"
    and "set ids = dom (mg_hosts s)" and "length ws = length ids" and "list_all quiet_wait ws"
    and "mgr_destructor J ws ids s = Some t"
  shows "mg_hosts t = Map.empty \<and> mg_accepted t = mg_accepted s \<and>
    (\<forall>k sl a. mg_hosts s k = Some sl \<longrightarrow> a \<in> mg_accepted s \<longrightarrow> mg_task_host s (mg_cell_task s a) = sl_host sl \<longrightarrow>
      os_sent (om_cells (mg_replies t) a))"
proof (intro conjI allI impI)
  have run: "destroy_hosts J (zip ws ids) s = Some t" using assms(6) by (simp add: mgr_destructor_def)
  have q: "list_all (quiet_wait \<circ> fst) (zip ws ids)"
    using assms(5) by (auto simp: list_all_iff dest: set_zip_leftD)
  have ids: "snd ` set (zip ws ids) = dom (mg_hosts s)"
    using assms(3,4) by (metis list.set_map map_snd_zip)
  note a = destroy_hosts_answers [OF run assms(1,2) q, unfolded ids]
  then have h: "mg_hosts t = (\<lambda>k. if k \<in> dom (mg_hosts s) then None else mg_hosts s k)" by blast
  show "mg_hosts t = Map.empty" unfolding h by (auto simp: fun_eq_iff dom_def)
  show "mg_accepted t = mg_accepted s" using a by (simp add: history_def)
  fix k sl c
  assume k: "mg_hosts s k = Some sl" "c \<in> mg_accepted s" "mg_task_host s (mg_cell_task s c) = sl_host sl"
  then have "k \<in> dom (mg_hosts s)" by blast
  then show "os_sent (om_cells (mg_replies t) c)" using a k by blast
qed

definition demo_wait :: "(toy, unit) destroy_wait" where
  "demo_wait = ([], [L_recv 0, L_dispatch 0, L_start 0 0, L_finish 0 0, L_recv 0], False, [])"

lemma demo_destructor:
  "\<exists>s t. run (mgr_step toy_js) (mgr_init ()) demo_start = Some s \<and> mg_issued s = 1 \<and> dom (mg_hosts s) = {''a''} \<and>
     mg_hosts s ''a'' = Some \<lparr>sl_host = 0, sl_tx = Some 0\<rparr> \<and> 0 \<in> mg_accepted s \<and>
     mg_task_host s (mg_cell_task s 0) = 0 \<and> mgr_destructor toy_js [demo_wait] [''a''] s = Some t"
  by (simp add: demo_start_def demo_simps make_job_def mgr_destructor_def destroy_host_def demo_wait_def
     worker_recv_def mpsc_await_ready_def mpsc_await_resume_def worker_dispatch_def job_start_def demo_exec
     job_flag_def job_reply_def reply_job_def os_sender_send_def oneshot_send_def oneshot_fresh_def
     set_running_def job_finish_def forget_task_def destroy_unlist_def destroy_close_def sender_close_def
     sender_move_assign_def receiver_close_rx_def join_returns_def teardown_def toy_idle)

theorem destructor_answers_all_witness:
  "\<exists>s t. reachable (mgr_step toy_js) (mgr_init ()) s \<and> mgr_destructor toy_js [demo_wait] [''a''] s = Some t \<and>
     0 \<in> mg_accepted s \<and> mg_hosts t = Map.empty \<and> os_sent (om_cells (mg_replies t) 0)"
proof -
  obtain s t where r: "run (mgr_step toy_js) (mgr_init ()) demo_start = Some s"
    and n: "mg_issued s < 2 ^ 64 - 1" and d: "set [''a''] = dom (mg_hosts s)"
    and k: "mg_hosts s ''a'' = Some \<lparr>sl_host = 0, sl_tx = Some 0\<rparr>" and a: "0 \<in> mg_accepted s"
    and h: "mg_task_host s (mg_cell_task s 0) = sl_host \<lparr>sl_host = 0, sl_tx = Some 0\<rparr>"
    and t: "mgr_destructor toy_js [demo_wait] [''a''] s = Some t"
    using demo_destructor by auto
  have l: "length [demo_wait] = length [''a'']" by simp
  have q: "list_all quiet_wait [demo_wait]" by (simp add: quiet_wait_def demo_wait_def)
  note ans = destructor_answers_all [OF run_reachable [OF r] n d l q t]
  show ?thesis using run_reachable [OF r] t a ans k h by blast
qed

section \<open>What can keep it from returning\<close>

text \<open>
  A job that waits for a promise keeps its host running until the promise settles: the five seconds of
  the drain loop bound only the wait for \<open>in_flight\<close>, not the \<open>join\<close>.  As a stopping host no longer
  runs timer callbacks, a job that awaits a timer beyond the deadline is such a job.
\<close>

lemma waiting_stays:
  assumes "mgr_step J e s = Some t" and "(j, St_waiting w) \<in> set (hr_running (mg_rt s h))" and "h < mg_nhosts s"
    and "\<And>i magic argv. e \<noteq> L_settle h i magic argv"
  shows "(j, St_waiting w) \<in> set (hr_running (mg_rt t h)) \<and> h < mg_nhosts t"
proof -
  have other: "(j, St_waiting w) \<in> set ((hr_running (mg_rt s h))[i := x])"
    if "snd (hr_running (mg_rt s h) ! i) \<noteq> St_waiting w" "i < length (hr_running (mg_rt s h))" for i x
  proof -
    obtain k where k: "k < length (hr_running (mg_rt s h))" "hr_running (mg_rt s h) ! k = (j, St_waiting w)"
      using assms(2) by (meson in_set_conv_nth)
    then have "k \<noteq> i" using that by auto
    then show ?thesis using k by (metis length_list_update nth_list_update_neq nth_mem)
  qed
  show ?thesis
    using assms
  proof (cases e)
    case (L_start g i)
    then have "job_start J g i s = Some t" "g < mg_nhosts s" using assms(1) by (simp_all split: if_splits)
    then show ?thesis using assms(2,3) other [of i]
      by (cases "g = h")
        (auto dest!: job_start_cases simp: set_running_def job_reply_def split: prod.splits)
  next
    case (L_settle g i magic argv)
    then have "job_settle J g i magic argv s = Some t" "g \<noteq> h" using assms(1,4) by (auto split: if_splits)
    then show ?thesis using assms(2,3)
      by (auto dest!: job_settle_cases simp: set_running_def job_reply_def split: prod.splits)
  next
    case (L_finish g i)
    then have f: "job_finish g i s = Some t" using assms(1) by (simp split: if_splits)
    show ?thesis
    proof (cases "g = h")
      case True
      then have "i < length (hr_running (mg_rt s h))" "snd (hr_running (mg_rt s h) ! i) = St_replied"
        and t: "hr_running (mg_rt t h) = take i (hr_running (mg_rt s h)) @ drop (Suc i) (hr_running (mg_rt s h))"
          "mg_nhosts t = mg_nhosts s"
        using f by (auto simp: job_finish_def forget_task_def split: if_splits)
      moreover from this have "set (hr_running (mg_rt s h)) =
          insert (hr_running (mg_rt s h) ! i) (set (hr_running (mg_rt t h)))"
        using id_take_nth_drop [of i "hr_running (mg_rt s h)"]
        by (metis Un_insert_right list.simps(15) set_append)
      moreover have "(j, St_waiting w) \<noteq> hr_running (mg_rt s h) ! i" using calculation(2) by (metis snd_conv stage.distinct(5))
      ultimately show ?thesis using assms(2,3) by auto
    next
      case False
      then show ?thesis using f assms(2,3) by (auto simp: job_finish_def forget_task_def split: if_splits)
    qed
  next
    case (L_create uuid opts ok1 ok2 heap)
    then show ?thesis using assms(1-3) by (auto simp: create_host_def Let_def start_job_worker_def split: if_splits prod.splits)
  next
    case (L_send i)
    then show ?thesis using assms(1-3) rt_submit_send(1,2) [of i s] by (auto split: if_splits)
  next
    case (L_lock host_id fn a)
    then show ?thesis using assms(1-3) rt_submit_lock [of host_id fn a s] by simp
  next
    case (L_unlist host_id)
    then show ?thesis using assms(1-3) rt_destroy [of host_id s] by simp
  next
    case (L_close g)
    then show ?thesis using assms(1-3) rt_close [of g s t] by simp
  next
    case (L_recv g)
    then show ?thesis using assms(1-3)
      by (auto simp: worker_recv_def split: worker.splits option.splits prod.splits if_splits)
  next
    case (L_dispatch g)
    then show ?thesis using assms(1-3) by (auto simp: worker_dispatch_def split: worker.splits if_splits)
  qed (auto simp: cancel_def teardown_def host_runs_def split: if_splits option.splits)
qed

lemma waiting_job_blocks:
  assumes "reachable (mgr_step J) (mgr_init heap) s" and "run (mgr_step J) s es = Some t"
    and "(j, St_waiting w) \<in> set (hr_running (mg_rt s h))" and "h < mg_nhosts s"
    and "\<And>i magic argv. L_settle h i magic argv \<notin> set es"
  shows "\<not> join_returns J h t"
proof -
  have "(j, St_waiting w) \<in> set (hr_running (mg_rt t h)) \<and> h < mg_nhosts t"
    using assms(2-5)
  proof (induction es arbitrary: s)
    case (Cons e es)
    then obtain u where u: "mgr_step J e s = Some u" "run (mgr_step J) u es = Some t" by (auto split: option.splits)
    have e: "e \<noteq> L_settle h i magic argv" for i magic argv using Cons.prems(4) [of i magic argv] by auto
    have "(j, St_waiting w) \<in> set (hr_running (mg_rt u h)) \<and> h < mg_nhosts u"
      using waiting_stays [OF u(1) Cons.prems(2,3) e] .
    then show ?case using Cons.IH [OF u(2)] Cons.prems(4) by simp
  qed simp
  moreover have "counters_ok (mg_rt t h)" if "h < mg_nhosts t"
    using mgr_parts [OF run_reachable_from [OF assms(1,2)]] that by (simp add: all_counters_ok_def)
  ultimately show ?thesis by (auto simp: counters_zero join_returns_def)
qed

end
