(* ===== verification/FsDir.thy ===== *)
theory FsDir
  imports FsAsync ValueRefs
begin

text \<open>
  What the file natives of \<open>src/fs.cpp\<close> do below the level of values: the directory objects of \<open>opendir\<close>
  and \<open>opendirSync\<close>, which keep a C++ pointer in the opaque slot of a plain object, and the references
  the callbacks on the event loop hold.
\<close>

section \<open>Directory objects\<close>

text \<open>
  A \<open>DirIterator\<close> is the list of paths it has not given yet; \<open>None\<close> is one that has been destroyed.
  What the opaque slot points to: a \<open>DirIterator\<close>, or a \<open>shared_ptr\<close> to one.
\<close>

type_synonym dir_iterators = "nat \<Rightarrow> string list option"

datatype dir_opaque = Do_iterator nat | Do_shared nat

datatype dir_read = Rs_null | Rs_entry string bool bool | Rs_undefined | Rs_terminates

text \<open>
  \<open>slot p\<close> is what \<open>JS_GetOpaque(this_val, 0)\<close> gives for a plain object on which \<open>JS_SetOpaque\<close> was
  called with \<open>p\<close>; the cast to \<open>DirIterator*\<close> is unchecked.  The queries of an entry's type may throw,
  and nothing in the engine, which calls the function, catches.
\<close>

definition read_sync ::
  "('s, 'x) os_scheme \<Rightarrow> 's \<Rightarrow> (dir_opaque \<Rightarrow> dir_opaque option) \<Rightarrow> dir_opaque \<Rightarrow> dir_iterators
     \<Rightarrow> dir_read \<times> dir_iterators" where
  "read_sync S d slot p it =
     (case slot p of
        None \<Rightarrow> (Rs_null, it)
      | Some (Do_shared a) \<Rightarrow> (Rs_undefined, it)
      | Some (Do_iterator a) \<Rightarrow>
          (case it a of
             None \<Rightarrow> (Rs_undefined, it)
           | Some [] \<Rightarrow> (Rs_null, it)
           | Some (e # es) \<Rightarrow>
               (case os_status S e d of
                  None \<Rightarrow> Rs_terminates
                | Some t \<Rightarrow> Rs_entry (cstr (filename e)) (t = Ft_regular) (t = Ft_directory), it(a := Some es))))"

text \<open>
  \<open>native_opendir_sync\<close> stores a pointer to a \<open>shared_ptr\<close> it never frees, so the iterator at \<open>a\<close> stays.
  The handler of \<open>native_opendir\<close> stores the pointer of a \<open>shared_ptr\<close> that dies with the handler: the
  iterator is there while \<open>callback\<close> runs and destroyed after it.
\<close>

definition opendir_sync_object :: "nat \<Rightarrow> string list \<Rightarrow> dir_iterators \<Rightarrow> dir_opaque \<times> dir_iterators" where
  "opendir_sync_object a es it = (Do_shared a, it(a := Some es))"

definition opendir_handler ::
  "nat \<Rightarrow> string list \<Rightarrow> (dir_opaque \<Rightarrow> dir_iterators \<Rightarrow> 'r \<times> dir_iterators) \<Rightarrow> dir_iterators
     \<Rightarrow> 'r \<times> dir_opaque \<times> dir_iterators" where
  "opendir_handler a es callback it =
     (case callback (Do_iterator a) (it(a := Some es)) of (r, it') \<Rightarrow> (r, Do_iterator a, it'(a := None)))"

fun read_times ::
  "('s, 'x) os_scheme \<Rightarrow> 's \<Rightarrow> (dir_opaque \<Rightarrow> dir_opaque option) \<Rightarrow> nat \<Rightarrow> dir_opaque \<Rightarrow> dir_iterators
     \<Rightarrow> dir_read list \<times> dir_iterators" where
  "read_times S d slot 0 p it = ([], it)"
| "read_times S d slot (Suc n) p it =
     (case read_sync S d slot p it of (r, it1) \<Rightarrow>
      (case read_times S d slot n p it1 of (rs, it2) \<Rightarrow> (r # rs, it2)))"

text \<open>An engine either has no opaque slot for a plain object or gives back what was stored.\<close>

definition slot_law :: "(dir_opaque \<Rightarrow> dir_opaque option) \<Rightarrow> bool" where
  "slot_law slot \<longleftrightarrow> (\<forall>p. slot p = None \<or> slot p = Some p)"

definition entry_of :: "('s, 'x) os_scheme \<Rightarrow> 's \<Rightarrow> string \<Rightarrow> dir_read" where
  "entry_of S d e =
     (case os_status S e d of
        None \<Rightarrow> Rs_terminates
      | Some t \<Rightarrow> Rs_entry (cstr (filename e)) (t = Ft_regular) (t = Ft_directory))"

lemma read_shared:
  assumes "slot_law slot"
  shows "read_times S d slot n (Do_shared a) it =
    (replicate n (if slot (Do_shared a) = None then Rs_null else Rs_undefined), it)"
proof -
  have "slot (Do_shared a) = None \<or> slot (Do_shared a) = Some (Do_shared a)" using assms by (simp add: slot_law_def)
  then show ?thesis by (induction n) (auto simp: read_sync_def)
qed

lemma read_destroyed:
  assumes "slot_law slot" and "it a = None"
  shows "read_times S d slot n (Do_iterator a) it =
    (replicate n (if slot (Do_iterator a) = None then Rs_null else Rs_undefined), it)"
proof -
  have "slot (Do_iterator a) = None \<or> slot (Do_iterator a) = Some (Do_iterator a)" using assms(1) by (simp add: slot_law_def)
  then show ?thesis using assms(2) by (induction n) (auto simp: read_sync_def)
qed

lemma read_living:
  assumes "slot (Do_iterator a) = Some (Do_iterator a)"
  shows "it a = Some es \<Longrightarrow> fst (read_times S d slot n (Do_iterator a) it) =
    map (entry_of S d) (take n es) @ replicate (n - length es) Rs_null"
proof (induction n arbitrary: it es)
  case (Suc n)
  show ?case
  proof (cases es)
    case Nil
    then show ?thesis using Suc.IH [of it "[]"] Suc.prems assms by (simp add: read_sync_def case_prod_beta)
  next
    case (Cons e es')
    have "fst (read_times S d slot n (Do_iterator a) (it(a \<mapsto> es'))) =
        map (entry_of S d) (take n es') @ replicate (n - length es') Rs_null"
      by (rule Suc.IH) simp
    then show ?thesis using Cons Suc.prems assms by (simp add: read_sync_def entry_of_def case_prod_beta)
  qed
qed simp

text \<open>
  What \<open>readSync\<close> answers, on any engine.  On the object of \<open>opendirSync\<close> it never gives an entry: it
  gives null, or reads a \<open>shared_ptr\<close> as a \<open>DirIterator\<close>.  On the object of \<open>opendir\<close> it lists the
  directory inside the callback, if the engine keeps the pointer, and afterwards it gives null or reads
  a destroyed iterator.
\<close>

theorem dir_objects_read:
  assumes "slot_law slot"
  shows "opendir_sync_object a es it = (p, it1) \<Longrightarrow> r \<in> set (fst (read_times S d slot n p it1)) \<Longrightarrow>
      r = Rs_null \<or> r = Rs_undefined"
    and "slot (Do_iterator a) = Some (Do_iterator a) \<Longrightarrow>
      fst (opendir_handler a es (read_times S d slot n) it) =
        map (entry_of S d) (take n es) @ replicate (n - length es) Rs_null"
    and "opendir_handler a es callback it = (x, p, it1) \<Longrightarrow> r \<in> set (fst (read_times S d slot n p it1)) \<Longrightarrow>
      r = Rs_null \<or> r = Rs_undefined"
proof -
  show "r = Rs_null \<or> r = Rs_undefined"
    if "opendir_sync_object a es it = (p, it1)" "r \<in> set (fst (read_times S d slot n p it1))"
    using that read_shared [OF assms, of S d n a it1] by (auto simp: opendir_sync_object_def split: if_splits)
  show "fst (opendir_handler a es (read_times S d slot n) it) =
      map (entry_of S d) (take n es) @ replicate (n - length es) Rs_null"
    if "slot (Do_iterator a) = Some (Do_iterator a)"
    using read_living [where slot = slot and a = a, OF that, of "it(a := Some es)" es S d n]
    by (simp add: opendir_handler_def case_prod_beta)
  show "r = Rs_null \<or> r = Rs_undefined"
    if "opendir_handler a es callback it = (x, p, it1)" "r \<in> set (fst (read_times S d slot n p it1))"
  proof -
    have "p = Do_iterator a" "it1 a = None" using that(1) by (auto simp: opendir_handler_def split: prod.splits)
    then show ?thesis using that(2) read_destroyed [OF assms, of it1 a S d n] by (auto split: if_splits)
  qed
qed

section \<open>The references of the callbacks\<close>

text \<open>
  \<open>JS_SetPropertyStr\<close> takes the reference of the value it is given, \<open>JS_Call\<close> none of its arguments'.
  \<open>obj\<close> is the object made for the callback, \<open>parts\<close> what is stored in it, \<open>ret\<close> what the callback
  returns, freed at once.
\<close>

definition engine_stores :: "nat \<Rightarrow> value_sys \<Rightarrow> value_sys" where
  "engine_stores k s = engine_takes (Some k) (engine_gives k s)"

definition call_and_free :: "nat option \<Rightarrow> value_sys \<Rightarrow> value_sys" where
  "call_and_free ret s = (case ret of None \<Rightarrow> s | Some r \<Rightarrow> engine_takes (Some r) (engine_gives r s))"

definition file_callback_refs ::
  "file_callback \<Rightarrow> nat \<Rightarrow> nat list \<Rightarrow> nat option \<Rightarrow> value_sys \<Rightarrow> value_sys" where
  "file_callback_refs c obj parts ret s =
     call_and_free ret
       (case c of
          Cb_write \<Rightarrow> s
        | Cb_read v \<Rightarrow> engine_gives obj s
        | _ \<Rightarrow> fold engine_stores parts (engine_gives obj s))"

lemma engine_stores_same: "engine_stores k s = s"
  by (cases s) (auto simp: engine_stores_def engine_gives_def engine_takes_def bump_def fun_eq_iff)

lemma call_and_free_same: "call_and_free ret s = s"
  using engine_stores_same by (simp add: call_and_free_def engine_stores_def split: option.split)

lemma stores_same: "fold engine_stores parts s = s"
  by (induction parts) (simp_all add: engine_stores_same)

text \<open>
  Each callback but that of a successful write leaves one reference behind, which no \<open>Value\<close> owns and
  nothing frees: its object, for \<open>readFile\<close> the whole content of the file, lives as long as the runtime.
\<close>

theorem file_callbacks_leak:
  assumes "values_ok s" and "c \<noteq> Cb_write"
  shows "vs_raw (file_callback_refs c obj parts ret s) = (vs_raw s)(obj := vs_raw s obj + 1)"
    and "vs_count (file_callback_refs c obj parts ret s) = (vs_count s)(obj := vs_count s obj + 1)"
    and "vs_handles (file_callback_refs c obj parts ret s) = vs_handles s"
    and "values_ok (file_callback_refs c obj parts ret s)"
proof -
  have e: "file_callback_refs c obj parts ret s = engine_gives obj s"
    using assms(2) by (cases c) (simp_all add: file_callback_refs_def call_and_free_same stores_same)
  show "vs_raw (file_callback_refs c obj parts ret s) = (vs_raw s)(obj := vs_raw s obj + 1)"
    "vs_count (file_callback_refs c obj parts ret s) = (vs_count s)(obj := vs_count s obj + 1)"
    "vs_handles (file_callback_refs c obj parts ret s) = vs_handles s"
    unfolding e by (simp_all add: engine_gives_def bump_def)
  show "values_ok (file_callback_refs c obj parts ret s)"
    unfolding e by (rule value_step_ok [OF assms(1), of "Ve_engine obj"]) simp
qed

lemma successful_write_keeps: "file_callback_refs Cb_write obj parts ret s = s"
  by (simp add: file_callback_refs_def call_and_free_same)

end
