(* ===== verification/ValueBuild.thy ===== *)
theory ValueBuild
  imports ValueRefs
begin

text \<open>
  The members of \<open>src/qjs.hpp\<close> that make several references at once: \<open>Value::fn\<close> and \<open>Value::obj\<close>, which
  install the natives, and \<open>PromiseCapability::create\<close>.  Each is written out with the temporaries the
  compiler makes, so that it shows what becomes of every reference.
\<close>

section \<open>New values\<close>

text \<open>An engine call that returns a reference to \<open>k\<close>, taken at once: \<open>Value::take(ctx, JS_New...(ctx))\<close>.\<close>

definition value_new :: "nat \<Rightarrow> value_sys \<Rightarrow> value_sys" where
  "value_new k s = value_take (Some k) (engine_gives k s)"

definition at_slot :: "nat \<Rightarrow> (value_handle \<Rightarrow> value_sys \<Rightarrow> value_sys) \<Rightarrow> value_sys \<Rightarrow> value_sys" where
  "at_slot i f s = (case handle_at i s of None \<Rightarrow> s | Some h \<Rightarrow> f h s)"

text \<open>\<open>set(name, v)\<close> of a temporary: the parameter is the temporary itself, destroyed after the call.\<close>

definition set_temporary :: "nat \<Rightarrow> value_sys \<Rightarrow> value_sys" where
  "set_temporary i s = at_slot i (value_destroy i) (at_slot i (value_set i) s)"

text \<open>\<open>Value::fn\<close>: \<open>set(name, Func<Fn>::create(ctx_, name))\<close>, the function object being \<open>k\<close>.\<close>

definition func_create :: "nat \<Rightarrow> value_sys \<Rightarrow> value_sys" where
  "func_create k s = value_new k s"

definition value_fn :: "nat \<Rightarrow> value_sys \<Rightarrow> value_sys" where
  "value_fn k s = set_temporary (length (vs_handles s)) (func_create k s)"

text \<open>\<open>Value::obj\<close>: the child, the setup on it, the parameter of \<open>set\<close> moved from the child, then both go.\<close>

definition value_obj :: "nat \<Rightarrow> (nat \<Rightarrow> value_sys \<Rightarrow> value_sys) \<Rightarrow> value_sys \<Rightarrow> value_sys" where
  "value_obj k setup s =
     (let child = length (vs_handles s);
          s1 = setup child (value_new k s);
          param = length (vs_handles s1);
          s2 = set_temporary param (at_slot child (value_move child) s1)
      in at_slot child (value_destroy child) s2)"

text \<open>A program of bindings, as the install functions are.\<close>

datatype binding = Bind_fn nat | Bind_obj nat "binding list"

fun bind_value :: "binding \<Rightarrow> value_sys \<Rightarrow> value_sys"
  and bind_values :: "binding list \<Rightarrow> value_sys \<Rightarrow> value_sys" where
  "bind_value (Bind_fn k) s = value_fn k s"
| "bind_value (Bind_obj k bs) s = value_obj k (\<lambda>child. bind_values bs) s"
| "bind_values [] s = s"
| "bind_values (b # bs) s = bind_values bs (bind_value b s)"

text \<open>
  \<open>PromiseCapability::create\<close>: \<open>JS_NewPromiseCapability\<close> gives the promise and its two functions, or an
  exception; the members of the result are assigned from temporaries.
\<close>

definition assign_member :: "nat \<Rightarrow> nat \<Rightarrow> value_sys \<Rightarrow> value_sys" where
  "assign_member i k s =
     (let temp = length (vs_handles s);
          s1 = value_take (Some k) s
      in at_slot temp (value_destroy temp) (at_slot temp (\<lambda>h. value_move_assign i temp h) s1))"

definition promise_capability_create :: "(nat \<times> nat \<times> nat) option \<Rightarrow> value_sys \<Rightarrow> (nat \<times> nat \<times> nat) option \<times> value_sys" where
  "promise_capability_create made s =
     (case made of
        None \<Rightarrow> (None, s)
      | Some (p, f, g) \<Rightarrow>
          (let n = length (vs_handles s);
               s1 = engine_gives g (engine_gives f (engine_gives p s));
               s2 = new_handle null_value (new_handle null_value (new_handle null_value s1))
           in (Some (n, n + 1, n + 2),
               assign_member (n + 2) g (assign_member (n + 1) f (assign_member n p s2)))))"

section \<open>Installing natives leaves no reference behind\<close>

definition tidy :: "value_sys \<Rightarrow> value_sys \<Rightarrow> bool" where
  "tidy s t \<longleftrightarrow>
     vs_count t = vs_count s \<and> vs_raw t = vs_raw s \<and> (\<exists>n. vs_handles t = vs_handles s @ replicate n None)"

lemma tidy_refl [simp]: "tidy s s"
  by (auto simp: tidy_def intro: exI [of _ 0])

lemma tidy_trans: "tidy s t \<Longrightarrow> tidy t u \<Longrightarrow> tidy s u"
  by (auto simp: tidy_def replicate_add [symmetric])

definition living_value :: "nat \<Rightarrow> value_handle" where
  "living_value k = \<lparr>vh_ctx = True, vh_val = Some k\<rparr>"

lemma value_new_eq:
  "value_new k s = s\<lparr>vs_handles := vs_handles s @ [Some (living_value k)], vs_count := (vs_count s)(k := vs_count s k + 1)\<rparr>"
  by (cases s) (auto simp: value_new_def value_take_def engine_gives_def new_handle_def bump_def living_value_def fun_eq_iff)

lemma set_temporary_eq:
  assumes "vs_handles s = hs @ Some (living_value k) # rest"
  shows "set_temporary (length hs) s =
    s\<lparr>vs_handles := hs @ None # rest, vs_count := (vs_count s)(k := vs_count s k - 1)\<rparr>"
  using assms
  by (cases s)
    (auto simp: set_temporary_def at_slot_def handle_at_def value_set_def value_release_def engine_takes_def
      value_destroy_def value_reset_def free_handle_def put_handle_def bump_def living_value_def null_value_def
      nth_append fun_eq_iff)

lemma tidy_fn: "tidy s (value_fn k s)"
proof -
  have "value_fn k s = set_temporary (length (vs_handles s))
      (s\<lparr>vs_handles := vs_handles s @ [Some (living_value k)], vs_count := (vs_count s)(k := vs_count s k + 1)\<rparr>)"
    by (simp add: value_fn_def func_create_def value_new_eq)
  also have "\<dots> = s\<lparr>vs_handles := vs_handles s @ [None], vs_count := vs_count s\<rparr>"
    by (subst set_temporary_eq [where hs = "vs_handles s" and rest = "[]" and k = k]) simp_all
  finally show ?thesis by (auto simp: tidy_def intro: exI [of _ 1])
qed

lemma tidy_obj:
  assumes "\<And>child s. tidy s (setup child s)"
  shows "tidy s (value_obj k setup s)"
proof -
  let ?hs = "vs_handles s"
  define s1 where "s1 = setup (length ?hs) (value_new k s)"
  have "tidy (value_new k s) s1" unfolding s1_def by (rule assms)
  then obtain n where h1: "vs_handles s1 = ?hs @ Some (living_value k) # replicate n None"
    and c1: "vs_count s1 = (vs_count s)(k := vs_count s k + 1)" "vs_raw s1 = vs_raw s"
    by (auto simp: tidy_def value_new_eq)
  define s2 where "s2 = at_slot (length ?hs) (value_move (length ?hs)) s1"
  have s2: "s2 = s1\<lparr>vs_handles := ?hs @ Some null_value # replicate n None @ [Some (living_value k)]\<rparr>"
    unfolding s2_def at_slot_def by (simp add: h1 handle_at_def value_move_def new_handle_def put_handle_def)
  have "set_temporary (length (vs_handles s1)) s2 =
      s2\<lparr>vs_handles := (?hs @ Some null_value # replicate n None) @ [None], vs_count := (vs_count s2)(k := vs_count s2 k - 1)\<rparr>"
    using set_temporary_eq [of s2 "?hs @ Some null_value # replicate n None" k "[]"] by (simp add: s2 h1)
  then have "value_obj k setup s =
      at_slot (length ?hs) (value_destroy (length ?hs))
        (s1\<lparr>vs_handles := ?hs @ Some null_value # replicate (Suc n) None, vs_count := vs_count s\<rparr>)"
    by (simp add: value_obj_def Let_def s1_def [symmetric] s2_def [symmetric])
      (simp add: s2 c1 replicate_append_same)
  also have "\<dots> = s1\<lparr>vs_handles := ?hs @ replicate (Suc (Suc n)) None, vs_count := vs_count s\<rparr>"
    by (simp add: at_slot_def handle_at_def value_destroy_def value_reset_def free_handle_def put_handle_def null_value_def)
  finally show ?thesis using c1(2) by (auto simp: tidy_def intro: exI [of _ "Suc (Suc n)"])
qed

text \<open>
  Whatever natives and objects are bound, nested in any way: afterwards the C++ side holds exactly the
  references it held before, and every value made on the way is destroyed.
\<close>

theorem bindings_tidy: "tidy s (bind_value b s)" "tidy s (bind_values bs s)"
  by (induction b s and bs s rule: bind_value_bind_values.induct)
    (auto simp: tidy_fn intro: tidy_obj tidy_trans)

section \<open>A promise capability owns what it was given\<close>

lemma assign_member_eq:
  assumes "i < length (vs_handles s)" and "vs_handles s ! i = Some null_value"
  shows "assign_member i k s =
    s\<lparr>vs_handles := (vs_handles s)[i := Some (living_value k)] @ [None], vs_raw := (vs_raw s)(k := vs_raw s k - 1)\<rparr>"
  using assms
  by (cases s)
    (auto simp: assign_member_def Let_def at_slot_def handle_at_def value_take_def new_handle_def value_move_assign_def
      put_handle_def free_handle_def value_destroy_def value_reset_def bump_def living_value_def null_value_def
      nth_append list_update_append fun_eq_iff)

text \<open>
  If the engine makes the capability, three values own the promise and its functions and no plain
  reference is left; if it does not, nothing is held.
\<close>

theorem capability_owns:
  "promise_capability_create None s = (None, s)"
  "promise_capability_create (Some (p, f, g)) s = (Some (i, j, k), t) \<Longrightarrow>
     handle_at i t = Some (living_value p) \<and> handle_at j t = Some (living_value f) \<and>
     handle_at k t = Some (living_value g) \<and> vs_raw t = vs_raw s \<and>
     vs_handles t = vs_handles s @ map (\<lambda>x. Some (living_value x)) [p, f, g] @ [None, None, None] \<and>
     vs_count t x = vs_count s x + of_bool (x = p) + of_bool (x = f) + of_bool (x = g)"
proof -
  assume c: "promise_capability_create (Some (p, f, g)) s = (Some (i, j, k), t)"
  let ?hs = "vs_handles s" and ?n = "length (vs_handles s)"
  define s1 where "s1 = engine_gives g (engine_gives f (engine_gives p s))"
  define s2 where "s2 = new_handle null_value (new_handle null_value (new_handle null_value s1))"
  have h2: "vs_handles s2 = ?hs @ [Some null_value, Some null_value, Some null_value]"
    by (simp add: s2_def s1_def new_handle_def engine_gives_def)
  define s3 where "s3 = assign_member ?n p s2"
  have s3: "s3 = s2\<lparr>vs_handles := ?hs @ [Some (living_value p), Some null_value, Some null_value, None],
      vs_raw := (vs_raw s2)(p := vs_raw s2 p - 1)\<rparr>"
    unfolding s3_def by (subst assign_member_eq) (simp_all add: h2 nth_append list_update_append)
  define s4 where "s4 = assign_member (?n + 1) f s3"
  have s4: "s4 = s3\<lparr>vs_handles := ?hs @ [Some (living_value p), Some (living_value f), Some null_value, None, None],
      vs_raw := (vs_raw s3)(f := vs_raw s3 f - 1)\<rparr>"
    unfolding s4_def by (subst assign_member_eq) (simp_all add: s3 nth_append list_update_append)
  define s5 where "s5 = assign_member (?n + 2) g s4"
  have s5: "s5 = s4\<lparr>vs_handles := ?hs @ [Some (living_value p), Some (living_value f), Some (living_value g), None, None, None],
      vs_raw := (vs_raw s4)(g := vs_raw s4 g - 1)\<rparr>"
    unfolding s5_def by (subst assign_member_eq) (simp_all add: s4 nth_append list_update_append)
  have t: "t = s5" "i = ?n" "j = ?n + 1" "k = ?n + 2"
    using c unfolding s1_def s2_def s3_def s4_def s5_def by (auto simp: promise_capability_create_def Let_def)
  have r: "vs_raw s5 = vs_raw s"
    by (auto simp: s5 s4 s3 s2_def s1_def new_handle_def engine_gives_def bump_def fun_eq_iff)
  have n: "vs_count s5 x = vs_count s x + of_bool (x = p) + of_bool (x = f) + of_bool (x = g)"
    by (simp add: s5 s4 s3 s2_def s1_def new_handle_def engine_gives_def bump_def)
  show "handle_at i t = Some (living_value p) \<and> handle_at j t = Some (living_value f) \<and>
     handle_at k t = Some (living_value g) \<and> vs_raw t = vs_raw s \<and>
     vs_handles t = vs_handles s @ map (\<lambda>x. Some (living_value x)) [p, f, g] @ [None, None, None] \<and>
     vs_count t x = vs_count s x + of_bool (x = p) + of_bool (x = f) + of_bool (x = g)"
    unfolding t r n by (simp add: s5 handle_at_def nth_append)
qed (simp add: promise_capability_create_def)

end
