(* ===== verification/HostConsole.thy ===== *)
theory HostConsole
  imports QjsBind
begin

text \<open>
  The logging natives of \<open>src/host.cpp\<close> (\<open>print\<close> and \<open>console\<close>) and the members of \<open>Host\<close> and \<open>qjs::Ctx\<close> that
  throw a JS exception out of a native.  A line that is logged is a level and a text.
\<close>

section \<open>print and console\<close>

datatype log_level = Lv_debug | Lv_info | Lv_warn | Lv_err

text \<open>\<open>join_args\<close> from the \<open>i\<close>-th argument on, \<open>out\<close> being what is joined so far; \<open>None\<close> is a \<open>ConvertError\<close>.\<close>

fun join_from ::
  "('v, 'h, 'x) js_scheme \<Rightarrow> nat \<Rightarrow> 'v list \<Rightarrow> string \<Rightarrow> 'h \<Rightarrow> string option \<times> 'h" where
  "join_from J i [] out h = (Some out, h)"
| "join_from J i (a # as) out h =
     (let out1 = (if 0 < i then out @ '' '' else out)
      in case q_to_std_string J (Some a) h of
           (None, h1) \<Rightarrow> (None, h1)
         | (Some s, h1) \<Rightarrow> join_from J (Suc i) as (out1 @ s) h1)"

definition join_args :: "('v, 'h, 'x) js_scheme \<Rightarrow> 'v list \<Rightarrow> 'h \<Rightarrow> string option \<times> 'h" where
  "join_args J argv h = join_from J 0 argv [] h"

text \<open>A logging native gets its arguments, the lines logged so far and the heap.\<close>

type_synonym ('v, 'h) log_fn =
  "'v list \<Rightarrow> (log_level \<times> string) list \<Rightarrow> 'h \<Rightarrow> 'v fn_out \<times> (log_level \<times> string) list \<times> 'h"

definition log_args :: "('v, 'h, 'x) js_scheme \<Rightarrow> log_level \<Rightarrow> ('v, 'h) log_fn" where
  "log_args J level argv logs h =
     (case join_args J argv h of
        (None, h1) \<Rightarrow> (Fo_convert_error, logs, h1)
      | (Some text, h1) \<Rightarrow> (Fo_return C_void, logs @ [(level, text)], h1))"

definition print_fn :: "('v, 'h, 'x) js_scheme \<Rightarrow> ('v, 'h) log_fn" where
  "print_fn J = log_args J Lv_info"

definition console_debug_fn :: "('v, 'h, 'x) js_scheme \<Rightarrow> ('v, 'h) log_fn" where
  "console_debug_fn J = log_args J Lv_debug"

definition console_info_fn :: "('v, 'h, 'x) js_scheme \<Rightarrow> ('v, 'h) log_fn" where
  "console_info_fn J = log_args J Lv_info"

definition console_log_fn :: "('v, 'h, 'x) js_scheme \<Rightarrow> ('v, 'h) log_fn" where
  "console_log_fn J = log_args J Lv_info"

definition console_warn_fn :: "('v, 'h, 'x) js_scheme \<Rightarrow> ('v, 'h) log_fn" where
  "console_warn_fn J = log_args J Lv_warn"

definition console_error_fn :: "('v, 'h, 'x) js_scheme \<Rightarrow> ('v, 'h) log_fn" where
  "console_error_fn J = log_args J Lv_err"

text \<open>The reference: convert from left to right, stop at the first that fails, put blanks between.\<close>

fun convert_all :: "('v, 'h, 'x) js_scheme \<Rightarrow> 'v list \<Rightarrow> 'h \<Rightarrow> string list option \<times> 'h" where
  "convert_all J [] h = (Some [], h)"
| "convert_all J (a # as) h =
     (case q_to_std_string J (Some a) h of
        (None, h1) \<Rightarrow> (None, h1)
      | (Some s, h1) \<Rightarrow> (case convert_all J as h1 of (ss, h2) \<Rightarrow> (map_option ((#) s) ss, h2)))"

fun with_blanks :: "string list \<Rightarrow> string" where
  "with_blanks [] = []"
| "with_blanks [s] = s"
| "with_blanks (s # ss) = s @ '' '' @ with_blanks ss"

lemma join_from_later:
  "0 < i \<Longrightarrow> join_from J i argv out h =
     (case convert_all J argv h of
        (None, h1) \<Rightarrow> (None, h1) | (Some ss, h1) \<Rightarrow> (Some (out @ concat (map ((@) '' '') ss)), h1))"
  by (induction argv arbitrary: i out h) (auto simp: Let_def split: option.splits prod.splits)

lemma with_blanks_concat: "with_blanks (s # ss) = s @ concat (map ((@) '' '') ss)"
  by (induction ss arbitrary: s) auto

lemma join_args_eq:
  "join_args J argv h =
     (case convert_all J argv h of (None, h1) \<Rightarrow> (None, h1) | (Some ss, h1) \<Rightarrow> (Some (with_blanks ss), h1))"
proof (cases argv)
  case (Cons a as)
  obtain r h1 where r: "q_to_std_string J (Some a) h = (r, h1)" by (cases "q_to_std_string J (Some a) h")
  show ?thesis
  proof (cases r)
    case (Some s)
    have "join_args J argv h = join_from J 1 as s h1" using Cons r Some by (simp add: join_args_def)
    also have "\<dots> = (case convert_all J as h1 of
        (None, h2) \<Rightarrow> (None, h2) | (Some ss, h2) \<Rightarrow> (Some (with_blanks (s # ss)), h2))"
      by (auto simp: join_from_later with_blanks_concat simp del: with_blanks.simps split: option.split prod.split)
    finally show ?thesis using Cons r Some by (auto split: prod.splits option.splits)
  qed (simp add: Cons r join_args_def)
qed (simp add: join_args_def)

text \<open>
  A console call logs one line, its arguments as strings with blanks between, or nothing: when an
  argument has no string form, the arguments after it are not looked at and the call fails.
\<close>

theorem console_logs_line:
  "log_args J level argv logs h =
     (case convert_all J argv h of
        (None, h1) \<Rightarrow> (Fo_convert_error, logs, h1)
      | (Some ss, h1) \<Rightarrow> (Fo_return C_void, logs @ [(level, with_blanks ss)], h1))"
  by (auto simp: log_args_def join_args_eq split: option.splits prod.splits)

section \<open>Throwing\<close>

text \<open>
  \<open>Host::throw_type_error\<close>, \<open>throw_internal_error\<close> and their twins in \<open>qjs::Ctx\<close>: set the JS exception, then
  leave by a C++ exception.
\<close>

definition throw_type_error :: "('v, 'h, 'x) js_conv_scheme \<Rightarrow> string \<Rightarrow> 'h \<Rightarrow> 'v fn_out \<times> 'h" where
  "throw_type_error J msg h = (Fo_runtime_error msg, js_throw_type_error J msg h)"

definition throw_internal_error :: "('v, 'h, 'x) js_conv_scheme \<Rightarrow> string \<Rightarrow> 'h \<Rightarrow> 'v fn_out \<times> 'h" where
  "throw_internal_error J msg h = (Fo_runtime_error msg, js_throw_internal_error J msg h)"

text \<open>A native that leaves by one of them makes its call throw that exception in JS.\<close>

theorem native_throw_reaches_js:
  assumes "pull_args J opq this argv Ts 0 h = (Some cs, i, h1)"
  shows "fn cs h1 = throw_type_error J msg h2 \<Longrightarrow>
      trampoline J opq fn Ts this argv h = Tr_value (js_exception J) (js_throw_type_error J msg h2)"
    and "fn cs h1 = throw_internal_error J msg h2 \<Longrightarrow>
      trampoline J opq fn Ts this argv h = Tr_value (js_exception J) (js_throw_internal_error J msg h2)"
  using assms by (simp_all add: trampoline_def invoke_impl_def throw_type_error_def throw_internal_error_def)

end
