(* ===== verification/HostRequest.thy ===== *)
theory HostRequest
  imports HostHttp HostStream
begin

text \<open>
  The request handler \<open>Host::start_http_server\<close> installs (\<open>src/host.cpp\<close>) as one operation on the host: it
  registers the connection, leaves the body and the session pointer in JS globals and evaluates the
  script of the request.  The table of connections is that of \<open>HostHttp\<close>, the globals and sockets of
  streaming those of \<open>HostStream\<close>.
\<close>

record request_host =
  rq_http :: http_host
  rq_stream :: stream_host
  rq_body_tmp :: "bytes option"

text \<open>\<open>__httpBodyTmp\<close>: a \<open>Uint8Array\<close> of the body, undefined if there is none.\<close>

definition body_tmp :: "bytes \<Rightarrow> bytes option" where
  "body_tmp body = (if body \<noteq> [] then Some body else None)"

text \<open>\<open>script\<close> is what the evaluation does to the sockets before it returns, \<open>out\<close> what it returns.\<close>

definition request_handler ::
  "nat \<Rightarrow> bytes \<Rightarrow> (stream_host \<Rightarrow> stream_host) \<Rightarrow> request_out \<Rightarrow> request_host \<Rightarrow> request_host" where
  "request_handler sess body script out s =
     s\<lparr>rq_body_tmp := body_tmp body,
       rq_stream := script (note_session sess (rq_stream s)),
       rq_http := start_request sess out (rq_http s)\<rparr>"

text \<open>A handler that calls \<open>stream\<close> and one whose promise settles, later on the loop.\<close>

definition later_stream ::
  "string option \<Rightarrow> stream_call list \<Rightarrow> callback_result \<Rightarrow> request_host \<Rightarrow> request_host" where
  "later_stream ct actions res s = s\<lparr>rq_stream := snd (native_stream ct actions res (rq_stream s))\<rparr>"

definition later_settle :: "64 word \<Rightarrow> settle_out \<Rightarrow> request_host \<Rightarrow> request_host" where
  "later_settle r out s = s\<lparr>rq_http := settle_request r out (rq_http s)\<rparr>"

section \<open>Whose response it becomes\<close>

lemma stream_touches_only:
  assumes "sh_session_ptr s = Some n" and "m \<noteq> n"
  shows "sh_out (snd (native_stream ct actions res s)) m = sh_out s m"
  using assms
  by (cases res) (simp_all add: native_stream_def Let_def actions_in_session send_on_def del: fold_append)

text \<open>
  A handler that calls \<open>stream\<close> before its first \<open>await\<close> streams to its own session.  One that calls it
  later, after another request has come in, streams the whole response to the session of that request,
  and sends nothing on its own.
\<close>

theorem stream_goes_to_latest:
  fixes body body2 :: bytes and datas :: "bytes list" and ct :: "string option" and s :: request_host
  fixes out2 :: request_out and res :: callback_result
  assumes "sess \<noteq> other" and "\<And>x. sh_session_ptr (script x) = sh_session_ptr x"
  defines "s2 \<equiv> request_handler other body2 script out2 (request_handler sess body (\<lambda>x. x) Ro_pending s)"
  defines "t \<equiv> later_stream ct (map Ja_write datas @ [Ja_end]) res s2"
  shows "sh_out (rq_stream t) sess = sh_out (rq_stream s2) sess"
    and "\<exists>text. sh_out (rq_stream t) other = sh_out (rq_stream s2) other @
          sent (begin_chunked 200 (case ct of None \<Rightarrow> ''text/plain'' | Some c \<Rightarrow> c)) @ text \<and>
        decode_chunked text = Some (concat datas)"
proof -
  have p: "sh_session_ptr (rq_stream s2) = Some other"
    by (simp add: s2_def request_handler_def assms(2) note_session_def)
  show "sh_out (rq_stream t) sess = sh_out (rq_stream s2) sess"
    using stream_touches_only [OF p assms(1)] by (simp add: t_def later_stream_def)
  let ?body = "concat (map (\<lambda>d. sent (write_chunk d)) datas) @ sent finish_chunked"
  have b: "concat (map action_bytes (map Ja_write datas @ [Ja_end])) = ?body"
    by (simp add: comp_def action_bytes_def sync_writer)
  have "sh_out (rq_stream t) other = sh_out (rq_stream s2) other @
      sent (begin_chunked 200 (case ct of None \<Rightarrow> ''text/plain'' | Some c \<Rightarrow> c)) @ ?body"
    using p by (cases res)
      (simp_all add: t_def later_stream_def native_stream_def Let_def actions_in_session b send_on_def
        del: fold_append map_append concat_append)
  then show "\<exists>text. sh_out (rq_stream t) other = sh_out (rq_stream s2) other @
        sent (begin_chunked 200 (case ct of None \<Rightarrow> ''text/plain'' | Some c \<Rightarrow> c)) @ text \<and>
      decode_chunked text = Some (concat datas)" using decode_chunks by blast
qed

text \<open>
  The connection of a streamed response is never taken out of the table: it stays when its promise
  settles, and only a response that is sent to it by mistake removes it.
\<close>

lemma streamed_connection_stays:
  "hh_conns (rq_http (later_settle r Sx_streamed s)) = hh_conns (rq_http s)"
  by (simp add: later_settle_def settle_request_def Let_def)

lemma connection_removed_by_answer:
  assumes "http_step e s = Some t" and "hh_conns s c = Some sess" and "hh_conns t c = None" and "c \<noteq> hh_next s"
  shows "\<exists>r resp. hh_sent t = (c, sess, r, resp) # hh_sent s"
proof (cases e)
  case (Hr_settle r out)
  then show ?thesis using assms
    by (auto simp: settle_request_def send_http_response_native_def answer_def drop_conn_def Let_def
        split: if_splits settle_out.splits option.splits)
next
  case (Hr_request n out)
  then show ?thesis using assms
    by (auto simp: start_request_def accept_request_def answer_def drop_conn_def Let_def
        split: if_splits request_out.splits option.splits)
qed

end
