(* ===== verification/CurlLifetime.thy ===== *)
theory CurlLifetime
  imports Prelude
begin

text \<open>
  Who keeps a \<open>curl_http::Client\<close> alive (\<open>src/curl_runtime.cpp\<close>, \<open>src/fetch.cpp\<close>).  Each fetch makes its own
  client; the frame of \<open>async_fetch\<close> holds a \<open>shared_ptr\<close> to it, and so does every timer handler asio has
  not run yet, a cancelled one included.  The handlers of socket waits hold their \<open>CurlWatch\<close> only, which
  has a plain pointer to the client.

  As in \<open>Fetch\<close>, a transfer that finishes in a handler of the loop resumes \<open>async_fetch\<close> from inside
  \<open>Transfer::finish\<close>, which ends the frame and with it its reference; one that is aborted outside of a handler
  leaves the frame to a resumption that has been posted.
\<close>

section \<open>State and operations\<close>

text \<open>
  \<open>lf_frame\<close>: the frame of \<open>async_fetch\<close> is there; \<open>lf_posted\<close>: its transfer is done and its resumption
  posted; \<open>lf_timers\<close> timer handlers and \<open>lf_waits\<close> wait handlers
  are still to be run; \<open>lf_held\<close> timer handlers are running; \<open>lf_bad\<close>: the client was used after its
  destruction.
\<close>

record client_life =
  lf_frame :: bool
  lf_posted :: bool
  lf_timers :: nat
  lf_waits :: nat
  lf_held :: nat
  lf_bad :: bool

definition life_init :: client_life where
  "life_init = \<lparr>lf_frame = True, lf_posted = False, lf_timers = 0, lf_waits = 0, lf_held = 0, lf_bad = False\<rparr>"

definition client_alive :: "client_life \<Rightarrow> bool" where
  "client_alive s \<longleftrightarrow> lf_frame s \<or> 0 < lf_timers s \<or> 0 < lf_held s"

text \<open>Reading or writing a member of the client.\<close>

definition use_client :: "client_life \<Rightarrow> client_life" where
  "use_client s = (if client_alive s then s else s\<lparr>lf_bad := True\<rparr>)"

text \<open>\<open>arm_timer\<close>: cancelling leaves the handler, and its reference, to be run; \<open>watch_armed\<close> is a new wait.\<close>

datatype curl_call = Cc_timer int | Cc_watch

fun life_callback :: "curl_call \<Rightarrow> client_life \<Rightarrow> client_life" where
  "life_callback (Cc_timer timeout_ms) s =
     (let s1 = use_client s in if timeout_ms < 0 then s1 else s1\<lparr>lf_timers := lf_timers s1 + 1\<rparr>)"
| "life_callback Cc_watch s = (let s1 = use_client s in s1\<lparr>lf_waits := lf_waits s1 + 1\<rparr>)"

text \<open>
  \<open>on_socket_action\<close>: libcurl makes its callbacks, then the message loop finishes the transfer if it is
  done, and looks at the client again for the next message.
\<close>

definition life_socket_action :: "curl_call list \<Rightarrow> bool \<Rightarrow> client_life \<Rightarrow> client_life" where
  "life_socket_action calls fin s =
     (let s1 = fold life_callback calls (use_client s)
      in use_client (if fin then s1\<lparr>lf_frame := False\<rparr> else s1))"

definition life_timer :: "bool \<Rightarrow> curl_call list \<Rightarrow> bool \<Rightarrow> client_life \<Rightarrow> client_life" where
  "life_timer err calls fin s =
     (let s1 = s\<lparr>lf_timers := lf_timers s - 1, lf_held := lf_held s + 1\<rparr>;
          s2 = (if err then s1 else life_socket_action calls fin s1)
      in s2\<lparr>lf_held := lf_held s2 - 1\<rparr>)"

text \<open>The handler of a wait: after the action it asks the client whether the watch is still
registered, and waits \<open>again\<close> if so.\<close>

definition life_wait :: "bool \<Rightarrow> curl_call list \<Rightarrow> bool \<Rightarrow> bool \<Rightarrow> client_life \<Rightarrow> client_life" where
  "life_wait ec calls fin again s =
     (let s1 = s\<lparr>lf_waits := lf_waits s - 1\<rparr>
      in if ec then s1
         else (let s2 = use_client (life_socket_action calls fin (use_client s1))
               in if again then s2\<lparr>lf_waits := lf_waits s2 + 1\<rparr> else s2))"

text \<open>
  \<open>add_transfer\<close> runs inside the frame, so even a transfer that is done at once leaves it; the frame then
  ends outside the client.  An abort finishes the transfer from JavaScript.
\<close>

definition life_add_transfer :: "curl_call list \<Rightarrow> bool \<Rightarrow> client_life \<Rightarrow> client_life" where
  "life_add_transfer calls fin s =
     (let s1 = life_socket_action calls False s in if fin then s1\<lparr>lf_frame := False\<rparr> else s1)"

definition life_abort :: "bool \<Rightarrow> curl_call list \<Rightarrow> client_life \<Rightarrow> client_life" where
  "life_abort inside calls s =
     (let s1 = fold life_callback calls (use_client s)
      in if inside then s1\<lparr>lf_frame := False\<rparr> else s1\<lparr>lf_posted := True\<rparr>)"

definition life_resume :: "client_life \<Rightarrow> client_life" where
  "life_resume s = s\<lparr>lf_frame := False, lf_posted := False\<rparr>"

text \<open>A transfer that is done does not finish again.\<close>

datatype life_event =
    Le_add "curl_call list" bool
  | Le_timer bool "curl_call list" bool
  | Le_wait bool "curl_call list" bool bool
  | Le_abort bool "curl_call list"
  | Le_resume

fun life_step :: "life_event \<Rightarrow> client_life \<Rightarrow> client_life option" where
  "life_step (Le_add calls fin) s = (if lf_frame s \<and> \<not> lf_posted s then Some (life_add_transfer calls fin s) else None)"
| "life_step (Le_timer err calls fin) s =
     (if 0 < lf_timers s \<and> \<not> (fin \<and> lf_posted s) then Some (life_timer err calls fin s) else None)"
| "life_step (Le_wait ec calls fin again) s =
     (if 0 < lf_waits s \<and> \<not> (fin \<and> lf_posted s) then Some (life_wait ec calls fin again s) else None)"
| "life_step (Le_abort inside calls) s =
     (if lf_frame s \<and> \<not> lf_posted s then Some (life_abort inside calls s) else None)"
| "life_step Le_resume s = (if lf_posted s then Some (life_resume s) else None)"

section \<open>When the client is used after its destruction\<close>

definition arms :: "curl_call list \<Rightarrow> nat" where
  "arms calls = length (filter (\<lambda>c. case c of Cc_timer ms \<Rightarrow> 0 \<le> ms | Cc_watch \<Rightarrow> False) calls)"

lemma arms_Cons: "arms (c # cs) = (case c of Cc_timer ms \<Rightarrow> if 0 \<le> ms then 1 else 0 | Cc_watch \<Rightarrow> 0) + arms cs"
  by (cases c) (simp_all add: arms_def)

lemma use_client_simps [simp]:
  "lf_bad (use_client s) = (lf_bad s \<or> \<not> client_alive s)" "client_alive (use_client s) = client_alive s"
  "lf_held (use_client s) = lf_held s" "lf_timers (use_client s) = lf_timers s" "lf_frame (use_client s) = lf_frame s"
  by (auto simp: use_client_def client_alive_def)

lemma callbacks_keep:
  "lf_frame (fold life_callback calls s) = lf_frame s" "lf_held (fold life_callback calls s) = lf_held s"
  "lf_timers (fold life_callback calls s) = lf_timers s + arms calls"
proof (induction calls arbitrary: s)
  case (Cons c calls)
  {
    case 1
    show ?case using Cons.IH(1) by (cases c) (simp_all add: Let_def)
  next
    case 2
    show ?case using Cons.IH(2) by (cases c) (simp_all add: Let_def)
  next
    case 3
    show ?case using Cons.IH(3) by (cases c) (simp_all add: Let_def arms_Cons)
  }
qed (simp_all add: arms_def)

lemma callbacks_bad: "client_alive s \<Longrightarrow> lf_bad (fold life_callback calls s) = lf_bad s"
proof (induction calls arbitrary: s)
  case (Cons c calls)
  have "client_alive (life_callback c s)" "lf_bad (life_callback c s) = lf_bad s"
    using Cons.prems by (cases c; auto simp: client_alive_def Let_def)+
  then show ?case using Cons.IH by simp
qed simp

lemma bad_stays: "lf_bad s \<Longrightarrow> lf_bad (life_socket_action calls fin s)"
proof -
  have "lf_bad u \<Longrightarrow> lf_bad (fold life_callback cs u)" for cs u
  proof (induction cs arbitrary: u)
    case (Cons c cs)
    have "lf_bad (life_callback c u)" using Cons.prems by (cases c) (simp_all add: Let_def)
    then show ?case using Cons.IH by simp
  qed simp
  then show "lf_bad s \<Longrightarrow> lf_bad (life_socket_action calls fin s)" by (simp add: life_socket_action_def Let_def)
qed

lemma action_keeps:
  "lf_held (life_socket_action calls fin s) = lf_held s"
  "lf_frame (life_socket_action calls fin s) = (lf_frame s \<and> \<not> fin)"
  "lf_timers (life_socket_action calls fin s) = lf_timers s + arms calls"
  by (simp_all add: life_socket_action_def Let_def callbacks_keep)

lemma action_bad:
  assumes "client_alive s"
  shows "lf_bad (life_socket_action calls fin s) =
    (lf_bad s \<or> fin \<and> lf_timers s + arms calls + lf_held s = 0)"
  using callbacks_bad [of "use_client s" calls] assms
  by (auto simp: life_socket_action_def Let_def callbacks_keep client_alive_def)

lemma life_step_held: "life_step e s = Some t \<Longrightarrow> lf_held t = lf_held s"
  by (cases e)
    (auto simp: life_add_transfer_def life_timer_def life_wait_def life_abort_def life_resume_def Let_def action_keeps callbacks_keep
      split: if_splits)

lemma dangling_step:
  assumes "life_step e s = Some t" and "\<not> lf_bad s" and "lf_held s = 0"
  shows "lf_bad t \<longleftrightarrow>
    (\<exists>calls fin again. e = Le_wait False calls fin again \<and>
       (\<not> client_alive s \<or> fin \<and> lf_timers s = 0 \<and> arms calls = 0))"
proof (cases e)
  case (Le_wait ec calls fin again)
  then have t: "t = life_wait ec calls fin again s" using assms(1) by (simp split: if_splits)
  let ?s1 = "s\<lparr>lf_waits := lf_waits s - 1\<rparr>"
  have a: "client_alive ?s1 = client_alive s" by (simp add: client_alive_def)
  show ?thesis
  proof (cases "ec \<or> \<not> client_alive s")
    case True
    have "lf_bad (use_client ?s1)" if "\<not> client_alive s" using that a by simp
    then have "lf_bad (use_client (life_socket_action calls fin (use_client ?s1)))" if "\<not> client_alive s"
      using that bad_stays by simp
    then show ?thesis using True assms(2) by (auto simp: Le_wait t life_wait_def Let_def)
  next
    case False
    then have "client_alive (use_client ?s1)" using a by simp
    from action_bad [OF this, of calls fin] show ?thesis
      using False assms(2,3) a
      by (auto simp: Le_wait t life_wait_def Let_def client_alive_def action_keeps)
  qed
next
  case (Le_timer err calls fin)
  then have t: "t = life_timer err calls fin s" "0 < lf_timers s" using assms(1) by (simp_all split: if_splits)
  let ?s1 = "s\<lparr>lf_timers := lf_timers s - 1, lf_held := lf_held s + 1\<rparr>"
  have "client_alive ?s1" by (simp add: client_alive_def)
  from action_bad [OF this, of calls fin] show ?thesis
    using assms(2) by (simp add: Le_timer t life_timer_def Let_def)
next
  case (Le_add calls fin)
  then have "t = life_add_transfer calls fin s" "client_alive s" using assms(1) by (simp_all add: client_alive_def split: if_splits)
  then show ?thesis using action_bad [of s calls False] assms(2) by (simp add: Le_add life_add_transfer_def Let_def)
next
  case Le_resume
  then show ?thesis using assms(1,2) by (auto simp: life_resume_def split: if_splits)
next
  case (Le_abort inside calls)
  then have "t = life_abort inside calls s" "client_alive s" using assms(1) by (simp_all add: client_alive_def split: if_splits)
  then show ?thesis using callbacks_bad [of "use_client s" calls] assms(2) by (simp add: Le_abort life_abort_def Let_def)
qed

interpretation client_life: machine life_step life_init "\<lambda>s. lf_held s = 0"
  by unfold_locales (simp add: life_init_def, simp add: life_step_held)

text \<open>
  C15: the client of a fetch and its use after destruction.  Until it happens the first time, the client
  is used after its destruction by the handler of a socket wait only, and exactly if that handler finds
  the client gone already, or completes the transfer while no timer handler is left to hold the client.
\<close>

theorem client_outlives_timers:
  assumes "reachable life_step life_init s" and "\<not> lf_bad s" and "life_step e s = Some t"
  shows "lf_bad t \<longleftrightarrow>
    (\<exists>calls fin again. e = Le_wait False calls fin again \<and> (\<not> client_alive s \<or> fin \<and> lf_timers s = 0 \<and> arms calls = 0))"
  by (rule dangling_step [OF assms(3,2) client_life.reachable_inv [OF assms(1)]])

text \<open>
  A fetch whose first timer has fired and set no other, and whose socket then brings the whole response;
  one with a timer pending survives that, but not a second wait that was ready at the same time and runs
  after the timer's handler.
\<close>

definition life_demo :: "curl_call list \<Rightarrow> life_event list" where
  "life_demo calls = [Le_add [Cc_timer 0] False, Le_timer False calls False]"

lemma second_wait_dangles:
  "case run life_step life_init (life_demo [Cc_timer 5, Cc_watch, Cc_watch] @ [Le_wait False [Cc_timer (-1)] True False]) of
     None \<Rightarrow> False
   | Some s \<Rightarrow> \<not> lf_bad s \<and> lf_bad (the (run life_step s [Le_timer True [] False, Le_wait False [] False False]))"
  unfolding life_demo_def by code_simp

theorem client_outlives_timers_witness:
  "\<exists>s t. reachable life_step life_init s \<and> \<not> lf_bad s \<and> life_step (Le_wait False [] True False) s = Some t \<and> lf_bad t"
proof -
  have r: "case run life_step life_init (life_demo [Cc_watch]) of
      None \<Rightarrow> False | Some s \<Rightarrow> \<not> lf_bad s \<and> lf_timers s = 0 \<and> lf_waits s = 1 \<and> \<not> lf_posted s"
    unfolding life_demo_def by code_simp
  obtain s where s: "run life_step life_init (life_demo [Cc_watch]) = Some s"
    and p: "\<not> lf_bad s" "lf_timers s = 0" "lf_waits s = 1" "\<not> lf_posted s"
    by (rule run_resultE [OF r]) (elim conjE, rule that)
  have st: "life_step (Le_wait False [] True False) s = Some (life_wait False [] True False s)" using p(3,4) by simp
  have "lf_bad (life_wait False [] True False s)"
    using client_outlives_timers [OF run_reachable [OF s] p(1) st] p(2) by (auto simp: arms_def)
  then show ?thesis using run_reachable [OF s] p(1) st by blast
qed

end
