(* ===== verification/NativeSignature.thy ===== *)
theory NativeSignature
  imports QjsBind
begin

text \<open>
  Which C++ functions may be bound (the concepts of \<open>src/qjs.hpp\<close>): the whitelist of parameter and return
  types, and its agreement with the conversions that exist.  The types are those a signature can be
  made of; \<open>Ty_ref\<close> is a reference, which \<open>std::decay_t\<close> drops.
\<close>

section \<open>Types of a signature\<close>

datatype cpp_type =
    Ty_void | Ty_value | Ty_ctx | Ty_this | Ty_args | Ty_jsvalue | Ty_string | Ty_string_view | Ty_span | Ty_bytes
  | Ty_bool | Ty_int32 | Ty_int64 | Ty_uint32 | Ty_float | Ty_double | Ty_integral string | Ty_class string
  | Ty_optional cpp_type | Ty_ref cpp_type | Ty_pointer cpp_type

fun decay :: "cpp_type \<Rightarrow> cpp_type" where
  "decay (Ty_ref T) = decay T"
| "decay T = T"

definition is_js_value_type :: "cpp_type \<Rightarrow> bool" where
  "is_js_value_type T \<longleftrightarrow>
     decay T \<in> {Ty_value, Ty_string, Ty_span, Ty_bytes, Ty_bool, Ty_int32, Ty_int64, Ty_uint32, Ty_float, Ty_double}"

fun is_class :: "cpp_type \<Rightarrow> bool" where
  "is_class Ty_void = False"
| "is_class Ty_bool = False"
| "is_class Ty_int32 = False"
| "is_class Ty_int64 = False"
| "is_class Ty_uint32 = False"
| "is_class Ty_float = False"
| "is_class Ty_double = False"
| "is_class (Ty_integral n) = False"
| "is_class (Ty_ref T) = False"
| "is_class (Ty_pointer T) = False"
| "is_class T = True"

fun opaque_ptr :: "cpp_type \<Rightarrow> bool" where
  "opaque_ptr (Ty_pointer T) \<longleftrightarrow> is_class T \<and> T \<notin> {Ty_value, Ty_ctx, Ty_this, Ty_args}"
| "opaque_ptr T \<longleftrightarrow> False"

fun js_optional_type :: "cpp_type \<Rightarrow> bool" where
  "js_optional_type (Ty_optional T) = is_js_value_type T"
| "js_optional_type T = False"

definition js_arg_type :: "cpp_type \<Rightarrow> bool" where
  "js_arg_type T \<longleftrightarrow> T \<in> {Ty_ctx, Ty_this, Ty_args} \<or> opaque_ptr T \<or> is_js_value_type T \<or> js_optional_type T"

definition js_return_type :: "cpp_type \<Rightarrow> bool" where
  "js_return_type T \<longleftrightarrow> T = Ty_void \<or> T = Ty_jsvalue \<or> is_js_value_type T"

text \<open>\<open>fn_traits<Fn>::ok\<close> of a function with return type \<open>R\<close> and parameters \<open>Ts\<close>.\<close>

definition native_fn :: "cpp_type \<Rightarrow> cpp_type list \<Rightarrow> bool" where
  "native_fn R Ts \<longleftrightarrow> js_return_type R \<and> list_all js_arg_type Ts"

definition is_injected :: "cpp_type \<Rightarrow> bool" where
  "is_injected T \<longleftrightarrow> T = Ty_ctx \<or> T = Ty_this \<or> opaque_ptr T"

text \<open>The \<open>length\<close> JavaScript sees.\<close>

fun length_of :: "cpp_type list \<Rightarrow> nat" where
  "length_of [] = 0"
| "length_of (T # Ts) =
     (if T = Ty_args then 0
      else if is_injected T then length_of Ts
      else (case T of Ty_optional U \<Rightarrow> 0 | _ \<Rightarrow> Suc (length_of Ts)))"

section \<open>The conversions that exist\<close>

text \<open>The overloads of \<open>from_js\<close>, which match a type exactly, and the branch \<open>pull_arg\<close> takes for it.\<close>

fun from_js_overload :: "cpp_type \<Rightarrow> js_type option" where
  "from_js_overload Ty_value = Some Jt_value"
| "from_js_overload Ty_string = Some Jt_string"
| "from_js_overload Ty_span = Some Jt_span"
| "from_js_overload Ty_bytes = Some Jt_bytes"
| "from_js_overload Ty_bool = Some Jt_bool"
| "from_js_overload Ty_int32 = Some Jt_int32"
| "from_js_overload Ty_int64 = Some Jt_int64"
| "from_js_overload Ty_uint32 = Some Jt_uint32"
| "from_js_overload Ty_float = Some Jt_float"
| "from_js_overload Ty_double = Some Jt_double"
| "from_js_overload T = None"

fun pull_branch :: "cpp_type \<Rightarrow> arg_type option" where
  "pull_branch Ty_ctx = Some At_ctx"
| "pull_branch Ty_this = Some At_this"
| "pull_branch Ty_args = Some At_args"
| "pull_branch (Ty_optional T) = map_option At_optional (from_js_overload T)"
| "pull_branch T = (if opaque_ptr T then Some At_opaque else map_option At_plain (from_js_overload T))"

fun by_value :: "cpp_type \<Rightarrow> bool" where
  "by_value (Ty_ref T) = False"
| "by_value (Ty_optional T) = by_value T"
| "by_value T = True"

lemma overload_iff: "by_value T \<Longrightarrow> is_js_value_type T = (from_js_overload T \<noteq> None)"
  by (cases T) (auto simp: is_js_value_type_def)

lemma overload_by_value: "from_js_overload T \<noteq> None \<Longrightarrow> by_value T"
  by (cases T) auto

lemma pull_branch_iff: "pull_branch T \<noteq> None \<longleftrightarrow> js_arg_type T \<and> by_value T"
proof (cases T)
  case (Ty_optional U)
  then show ?thesis
    using overload_iff [of U] overload_by_value [of U] by (auto simp: js_arg_type_def is_js_value_type_def)
qed (auto simp: js_arg_type_def is_js_value_type_def)

lemma pull_branch_length: "map pull_branch Ts = map Some As \<Longrightarrow> length_of Ts = js_arity As"
proof (induction Ts arbitrary: As)
  case (Cons T Ts)
  then obtain A As' where A: "As = A # As'" "pull_branch T = Some A" "map pull_branch Ts = map Some As'" by auto
  note ih = Cons.IH [OF A(3)]
  show ?case using A(2) ih unfolding A(1)
    by (cases T) (auto simp: is_injected_def split: if_splits)
qed simp

text \<open>
  The whitelist is that of the conversions, up to references: a parameter can be pulled exactly if
  its type is accepted and no reference, and then the length JavaScript sees is the number of
  arguments the trampoline insists on.  A reference to an accepted type is accepted too, but nothing
  converts to it.
\<close>

theorem native_signature:
  "native_fn R Ts \<and> list_all by_value Ts \<longleftrightarrow> js_return_type R \<and> list_all (\<lambda>T. pull_branch T \<noteq> None) Ts"
  "map pull_branch Ts = map Some As \<Longrightarrow> length_of Ts = js_arity As"
  "is_js_value_type T \<Longrightarrow> js_arg_type (Ty_ref T) \<and> pull_branch (Ty_ref T) = None"
proof -
  show "native_fn R Ts \<and> list_all by_value Ts \<longleftrightarrow> js_return_type R \<and> list_all (\<lambda>T. pull_branch T \<noteq> None) Ts"
    by (auto simp: native_fn_def list_all_iff pull_branch_iff simp del: not_None_eq)
qed (auto simp: pull_branch_length js_arg_type_def is_js_value_type_def)

end
