(* ===== verification/Spec2Isabelle.thy ===== *)
theory Spec2Isabelle
  imports HostReplies HostSpec BinaryStore FunctionRegistry CurlClient Fetch HostTimers HostHttp Crypto
    HostLoop FsGlob HostEval Base64 HostStream ValueRefs MpscSpec ModuleLoader HostProgram HostTeardown FunctionWrappers
    UniqueHandles Executor ChannelAwait HostBlock HostShutdown
    FsDir ValueBuild HostConsole HostRequest CurlLifetime NativeSignature
begin

text \<open>
  Verification of a multi-host JavaScript runtime (QuickJS on asio, C++20, sources under \<open>src/\<close>).

  \<^bold>\<open>The program.\<close>  A \<open>Host\<close> is one QuickJS runtime with an asio \<open>io_context\<close> on one thread.  Natives bound
  to JavaScript names start timers, fetches (libcurl), file operations (a thread pool), an HTTP server
  and calls of registered C++ functions; each of them counts itself in \<open>pending_ops\<close>, which keeps
  \<open>Host::run_loop\<close> going, and completes in a handler of the loop that calls back into JavaScript.  A
  \<open>HostManager\<close> owns many hosts: any thread submits jobs (call this function with these arguments) through
  an mpsc channel to the dispatcher of a host and receives the reply through a oneshot channel.

  \<^bold>\<open>How the code is modelled.\<close>  Every function is an executable definition under its C++ name, over
  records that have the fields of its class; an exception is a value (\<open>Inl\<close>, \<open>None\<close> or a datatype of
  outcomes); what runs concurrently or later is a machine, a step function over labelled events that
  names every point at which the code can be interleaved, with its reachable states.  Code outside the
  repository is an argument: QuickJS is the record \<open>js\<close> (\<open>JsApi\<close>, extended by \<open>js_conv\<close>), OpenSSL \<open>evp\<close> and
  \<open>b64\<close>, the operating system \<open>os\<close>, llhttp \<open>llhttp\<close>, the \<open>io_context\<close> \<open>loop_env\<close>; what libcurl and asio do
  is the choice of events.  A loop that may run for ever is a \<open>partial_function\<close> and \<open>None\<close> is not
  returning; that it returns is proved from a measure.  No definition has fuel.

  \<^bold>\<open>Theories and sources.\<close>
    \<^item> \<open>Prelude\<close>: bytes and text, machines (locale \<open>machine\<close>: an invariant and its steps; \<open>refinement\<close>: a
      machine and its specification), tables keyed by a counter (locale \<open>id_table\<close>).  Each locale is interpreted on the machines and tables below.
    \<^item> \<open>src/channel.hpp\<close>: \<open>ChannelBase\<close> (waking), \<open>Mpsc\<close> (state and receive protocol), \<open>MpscHandles\<close> (\<open>Sender\<close>
      and \<open>Receiver\<close>), \<open>MpscSpec\<close> (the abstract queue it refines), \<open>Oneshot\<close>, \<open>ChannelAwait\<close> (\<open>co_await\<close>).
    \<^item> \<open>src/asio_executor.hpp\<close>: \<open>Executor\<close>.  Owners of a C handle (\<open>Runtime\<close>, \<open>Context\<close>, \<open>Easy\<close>, \<open>Multi\<close>): \<open>UniqueHandles\<close>.
    \<^item> \<open>src/qjs.hpp\<close>, \<open>src/qjs_module.cpp\<close>: \<open>JsApi\<close> (the engine, \<open>drain_jobs\<close>), \<open>QjsBind\<close> (conversions and the
      trampoline), \<open>NativeSignature\<close> (which signatures it takes), \<open>ValueRefs\<close> (reference ownership of \<open>Value\<close>), \<open>ValueBuild\<close> (bindings,
      promise capabilities), \<open>ModuleLoader\<close>.
    \<^item> \<open>src/job.hpp\<close>, \<open>src/host_manager.cpp\<close>: \<open>Job\<close>, \<open>JobExec\<close> (one job on its host), \<open>HostManager\<close> (table, submit,
      cancel, dispatcher), \<open>HostManagerInv\<close>, \<open>HostTasks\<close>, \<open>HostAccounts\<close>, \<open>HostReplies\<close> (its invariants in layers),
      \<open>HostSpec\<close> (the service of FIFO servers it refines), \<open>HostShutdown\<close> (\<open>destroy_host\<close> and the destructor as whole calls).
    \<^item> \<open>src/function_registry.hpp\<close>, \<open>.cpp\<close>: \<open>FunctionRegistry\<close>, \<open>FunctionWrappers\<close>.
    \<^item> \<open>src/host.cpp\<close>, \<open>src/host.hpp\<close>: \<open>HostTimers\<close>, \<open>HostLoop\<close> (\<open>run_loop\<close>), \<open>HostBlock\<close> (\<open>block_on\<close>), \<open>HostEval\<close> (scripts and the script of a
      request), \<open>HostServer\<close>, \<open>HostHttp\<close> (connections and responses), \<open>HostRequest\<close> (one request),
      \<open>HostConsole\<close>, \<open>HostStream\<close> (streaming), \<open>Base64\<close>,
      \<open>HostTeardown\<close> (destruction), \<open>HostProgram\<close> (installation of all modules and \<open>main\<close>).
    \<^item> \<open>src/net/http_server.cpp\<close>: \<open>HttpSession\<close>, and the accept loop in \<open>HostServer\<close>.
    \<^item> \<open>src/curl_http.hpp\<close>, \<open>src/curl_runtime.cpp\<close>, \<open>src/fetch.cpp\<close>: \<open>CurlTransfer\<close>, \<open>CurlClient\<close>,
      \<open>CurlLifetime\<close> (who keeps a client alive), \<open>FetchOptions\<close>, \<open>Fetch\<close>.
    \<^item> \<open>src/fs.cpp\<close>: \<open>FsOs\<close>, \<open>FsNative\<close>, \<open>FsPromises\<close>, \<open>FsFiles\<close>, \<open>FsGlob\<close>, \<open>FsAsync\<close>, \<open>FsDir\<close> (directory objects, references of the
      callbacks).
    \<^item> \<open>src/crypto.cpp\<close>: \<open>Crypto\<close>; \<open>src/binary_store.cpp\<close>: \<open>BinaryStore\<close>.

  \<^bold>\<open>What the lemmas show.\<close>  For the manager: an accepted job is answered exactly once, capacity and
  cancellation are exact, a submission that meets the destruction of its host is refused, and
  jobs start in the order of their acceptance.  For the
  channels: no value is lost, duplicated or reordered, no wake-up is lost, sender counts are exact.
  For each asynchronous native: it settles once, gives its count back, and a cancelled one stays
  silent.  For the loop and \<open>main\<close>: they return when idle, with every native bound before the script
  runs.  For data: round trips through job values, options, headers, chunks, base64, ciphers and files.
  Where the code falls short of this, the theorem states what it does instead and names the case.

  \<^bold>\<open>Bounds.\<close>  Counters that the code lets wrap are handled by a bound that no run reaches: 64-bit ids stay
  below \<open>2 ^ 64 - 1\<close> (\<open>id_limit\<close>), 32-bit timer and connection ids below \<open>2 ^ 31 - 1\<close> (\<open>timer_limit\<close>,
  \<open>conn_limit\<close>); a machine refuses the step that would reach it.  \<open>pending_ops\<close> is an \<open>int\<close>.

  \<^bold>\<open>Not modelled.\<close>  The internals of the libraries above and of async_simple; the JavaScript polyfills
  (they are run by the engine); the log messages of the runtime itself; inputs longer than an \<open>int\<close>, which
  \<open>src/crypto.cpp\<close> casts.
\<close>

end
